(* ===== verification/Prelude.thy ===== *)
theory Prelude
  imports Main "HOL-Library.Word"
begin

text \<open>
  Shared vocabulary of the development: the C integer types as machine words, the outcome of a
  kernel routine (normal return, \<open>panic\<close>, or a wait that never ends), the state-passing
  combinators in which the routines are written, and generic facts on words and lists.
\<close>

unbundle bit_operations_syntax

section \<open>C integer types\<close>

type_synonym u8 = "8 word"
type_synonym u16 = "16 word"
type_synonym u32 = "32 word"
type_synonym u64 = "64 word"

section \<open>Outcomes of kernel routines\<close>

text \<open>
  \<open>panic\<close> (\<^verbatim>\<open>src/kernel/common/printf.c\<close>) never returns: it prints its
  message and loops. A spin loop whose condition nothing can change any more does not return
  either, and an access outside an object is undefined behaviour in C. All three are values here,
  so that a routine's theorem has to say that it returns.
\<close>

datatype 'a outcome = Ok 'a | Panic string | Hang | Undef

type_synonym ('s, 'a) kern = "'s \<Rightarrow> ('a \<times> 's) outcome"

definition kret :: "'a \<Rightarrow> ('s, 'a) kern" where
  "kret x = (\<lambda>s. Ok (x, s))"

definition kbind :: "('s, 'a) kern \<Rightarrow> ('a \<Rightarrow> ('s, 'b) kern) \<Rightarrow> ('s, 'b) kern" where
  "kbind m f = (\<lambda>s. case m s of Ok (x, s') \<Rightarrow> f x s' | Panic e \<Rightarrow> Panic e
                          | Hang \<Rightarrow> Hang | Undef \<Rightarrow> Undef)"

definition kpanic :: "string \<Rightarrow> ('s, 'a) kern" where
  "kpanic msg = (\<lambda>s. Panic msg)"

definition khang :: "('s, 'a) kern" where
  "khang = (\<lambda>s. Hang)"

definition kundef :: "('s, 'a) kern" where
  "kundef = (\<lambda>s. Undef)"

definition kgets :: "('s \<Rightarrow> 'a) \<Rightarrow> ('s, 'a) kern" where
  "kgets f = (\<lambda>s. Ok (f s, s))"

definition kmodify :: "('s \<Rightarrow> 's) \<Rightarrow> ('s, unit) kern" where
  "kmodify f = (\<lambda>s. Ok ((), f s))"

definition kassert :: "bool \<Rightarrow> string \<Rightarrow> ('s, unit) kern" where
  "kassert b msg = (if b then kret () else kpanic msg)"

named_theorems kern_defs "unfolding of the state-passing combinators"

lemmas kern_combinators [kern_defs] =
  kret_def kpanic_def khang_def kundef_def kgets_def kmodify_def kassert_def

lemma kbind_Ok [simp]: "m s = Ok (x, s') \<Longrightarrow> kbind m f s = f x s'"
  by (simp add: kbind_def)

lemma kbind_Panic [simp]: "m s = Panic e \<Longrightarrow> kbind m f s = Panic e"
  by (simp add: kbind_def)

lemma kbind_Hang [simp]: "m s = Hang \<Longrightarrow> kbind m f s = Hang"
  by (simp add: kbind_def)

lemma kbind_Undef [simp]: "m s = Undef \<Longrightarrow> kbind m f s = Undef"
  by (simp add: kbind_def)

lemma kret_apply [simp]: "kret x s = Ok (x, s)"
  and kpanic_apply [simp]: "kpanic e s = Panic e"
  and khang_apply [simp]: "khang s = Hang"
  and kundef_apply [simp]: "kundef s = Undef"
  and kgets_apply [simp]: "kgets g s = Ok (g s, s)"
  and kmodify_apply [simp]: "kmodify h s = Ok ((), h s)"
  by (simp_all add: kern_defs)

lemma kassert_True [simp]: "b \<Longrightarrow> kassert b msg s = Ok ((), s)"
  and kassert_False [simp]: "\<not> b \<Longrightarrow> kassert b msg s = Panic msg"
  by (simp_all add: kern_defs)

lemma kbind_assoc: "kbind (kbind m f) g = kbind m (\<lambda>x. kbind (f x) g)"
  by (rule ext) (auto simp: kbind_def split: outcome.splits)

lemma kbind_OkE:
  assumes "kbind m f s = Ok (y, s2)"
  obtains x s1 where "m s = Ok (x, s1)" and "f x s1 = Ok (y, s2)"
  using assms by (auto simp: kbind_def split: outcome.splits)

text \<open>A property of the state that a routine keeps whenever it returns.\<close>

definition preserves :: "('s \<Rightarrow> bool) \<Rightarrow> ('s, 'a) kern \<Rightarrow> bool" where
  "preserves P m \<longleftrightarrow> (\<forall>s x s'. P s \<longrightarrow> m s = Ok (x, s') \<longrightarrow> P s')"

lemma preservesD: "preserves P m \<Longrightarrow> P s \<Longrightarrow> m s = Ok (x, s') \<Longrightarrow> P s'"
  by (auto simp: preserves_def)

named_theorems preserving "routines that keep a property"

lemma preserves_kret [preserving]: "preserves P (kret x)"
  and preserves_kpanic [preserving]: "preserves P (kpanic e)"
  and preserves_khang [preserving]: "preserves P khang"
  and preserves_kundef [preserving]: "preserves P kundef"
  and preserves_kgets [preserving]: "preserves P (kgets g)"
  and preserves_kassert [preserving]: "preserves P (kassert b e)"
  by (auto simp: preserves_def kern_defs)

lemma preserves_kmodify: "(\<And>s. P s \<Longrightarrow> P (h s)) \<Longrightarrow> preserves P (kmodify h)"
  by (auto simp: preserves_def)

lemma preserves_kbind [preserving]:
  "preserves P m \<Longrightarrow> (\<And>x. preserves P (f x)) \<Longrightarrow> preserves P (kbind m f)"
  unfolding preserves_def by (meson kbind_OkE)

lemma preserves_if [preserving]:
  "preserves P m \<Longrightarrow> preserves P m' \<Longrightarrow> preserves P (if b then m else m')"
  by simp

lemma preserves_case_prod [preserving]:
  "(\<And>x y. preserves P (f x y)) \<Longrightarrow> preserves P (case p of (x, y) \<Rightarrow> f x y)"
  by (cases p) simp

section \<open>Loops that may not end\<close>

text \<open>A loop as \<^theory_text>\<open>partial_function (option)\<close>: \<open>None\<close>, a run without end, is \<open>Hang\<close>.\<close>

definition lift_loop :: "('s \<Rightarrow> ('a \<times> 's) outcome option) \<Rightarrow> ('s, 'a) kern" where
  "lift_loop f = (\<lambda>s. case f s of None \<Rightarrow> Hang | Some r \<Rightarrow> r)"

text \<open>Polling: run a routine again and again until it returns a value that ends the wait.\<close>

partial_function (option) poll_loop ::
  "('s, 'a) kern \<Rightarrow> ('a \<Rightarrow> bool) \<Rightarrow> 's \<Rightarrow> ('a \<times> 's) outcome option" where
  "poll_loop m stop s =
     (case m s of
        Ok (x, s1) \<Rightarrow> if stop x then Some (Ok (x, s1)) else poll_loop m stop s1
      | Panic e \<Rightarrow> Some (Panic e) | Hang \<Rightarrow> Some Hang | Undef \<Rightarrow> Some Undef)"

definition kpoll :: "('s, 'a) kern \<Rightarrow> ('a \<Rightarrow> bool) \<Rightarrow> ('s, 'a) kern" where
  "kpoll m stop = lift_loop (poll_loop m stop)"

lemma kpoll_stop: "m s = Ok (x, s1) \<Longrightarrow> stop x \<Longrightarrow> kpoll m stop s = Ok (x, s1)"
  by (simp add: kpoll_def lift_loop_def poll_loop.simps [of m stop s])

lemma kpoll_next: "m s = Ok (x, s1) \<Longrightarrow> \<not> stop x \<Longrightarrow> kpoll m stop s = kpoll m stop s1"
  by (simp add: kpoll_def lift_loop_def poll_loop.simps [of m stop s])

lemma kpoll_forever:
  assumes "I s" and step: "\<And>s. I s \<Longrightarrow> \<exists>x s1. m s = Ok (x, s1) \<and> \<not> stop x \<and> I s1"
  shows "kpoll m stop s = Hang"
proof -
  have "m' = m \<longrightarrow> stop' = stop \<longrightarrow> \<not> I s" if "poll_loop m' stop' s = Some r" for m' stop' s r
    using _ that
  proof (rule poll_loop.raw_induct)
    fix loop m' stop' s r
    assume IH: "\<And>m' stop' s r. loop m' stop' s = Some r \<Longrightarrow> m' = m \<longrightarrow> stop' = stop \<longrightarrow> \<not> I s"
      and eq: "(case m' s of Ok (x, s1) \<Rightarrow> if stop' x then Some (Ok (x, s1)) else loop m' stop' s1
        | Panic e \<Rightarrow> Some (Panic e) | Hang \<Rightarrow> Some Hang | Undef \<Rightarrow> Some Undef) = Some r"
    show "m' = m \<longrightarrow> stop' = stop \<longrightarrow> \<not> I s"
    proof (intro impI notI)
      assume "m' = m" "stop' = stop" "I s"
      moreover from step [OF \<open>I s\<close>] obtain x s1 where "m s = Ok (x, s1)" "\<not> stop x" "I s1" by blast
      ultimately show False using IH [of m stop s1 r] eq by simp
    qed
  qed
  with assms(1) have "poll_loop m stop s = None" by (cases "poll_loop m stop s") auto
  then show ?thesis by (simp add: kpoll_def lift_loop_def)
qed

section \<open>Words\<close>

lemma unat_word_mod: "unat ((a::'a::len word) mod b) = unat a mod unat b"
  by (rule unat_mod)

lemma word_mod_zero_iff: "(a::'a::len word) mod b = 0 \<longleftrightarrow> unat a mod unat b = 0"
  by (metis unat_eq_zero unat_mod)

lemma unat_lt64 [simp]: "unat (x::u64) < 18446744073709551616"
  using unsigned_less [of x, where ?'a = nat] by simp

lemma unat_of_nat64: "n < 18446744073709551616 \<Longrightarrow> unat (of_nat n :: u64) = n"
  by (simp add: unat_of_nat)

lemma unat_add64: "unat a + unat b < 18446744073709551616 \<Longrightarrow> unat ((a::u64) + b) = unat a + unat b"
  by (simp add: unat_word_ariths)

lemma sint_eq_cases:
  fixes x :: "'a::len word"
  shows "sint x = (if uint x < 2 ^ (LENGTH('a) - 1) then uint x else uint x - 2 ^ LENGTH('a))"
proof -
  obtain n where n: "LENGTH('a) = Suc n" by (cases "LENGTH('a)") simp_all
  have x: "0 \<le> uint x" "uint x < 2 * 2 ^ n" using unsigned_less [of x, where ?'a = int] n by simp_all
  have "sint x = (uint x + 2 ^ n) mod (2 * 2 ^ n) - 2 ^ n"
    by (simp add: sint_uint n signed_take_bit_eq_take_bit_shift take_bit_eq_mod)
  moreover have "(uint x + 2 ^ n) mod (2 * 2 ^ n) = (if uint x < 2 ^ n then uint x + 2 ^ n else uint x - 2 ^ n)"
    using x mod_add_self2 [of "uint x - 2 ^ n" "2 * 2 ^ n"] by (auto simp: mod_pos_pos_trivial algebra_simps)
  ultimately show ?thesis using n by auto
qed

lemma sint_u64: "sint (x :: u64) = (if uint x < 2 ^ 63 then uint x else uint x - 2 ^ 64)"
  and sint_u32: "sint (y :: u32) = (if uint y < 2 ^ 31 then uint y else uint y - 2 ^ 32)"
  by (simp_all add: sint_eq_cases)

lemma word_add_right_imp_diff: "(x::'a::len word) = a + b \<longleftrightarrow> x - a = b"
  by (auto simp: algebra_simps)

end
