(* ===== verification/CMem.thy ===== *)
theory CMem
  imports Prelude
begin

text \<open>
  Byte-addressed memory as C code sees it: loads and stores of little-endian integers, address
  regions (which may wrap), and 4 KiB pages.
\<close>

section \<open>Loads and stores\<close>

type_synonym mem = "u64 \<Rightarrow> u8"

primrec load_bytes :: "nat \<Rightarrow> mem \<Rightarrow> u64 \<Rightarrow> u8 list" where
  "load_bytes 0 m a = []"
| "load_bytes (Suc n) m a = m a # load_bytes n m (a + 1)"

primrec store_bytes :: "mem \<Rightarrow> u64 \<Rightarrow> u8 list \<Rightarrow> mem" where
  "store_bytes m a [] = m"
| "store_bytes m a (b # bs) = store_bytes (m(a := b)) (a + 1) bs"

primrec word_of_bytes :: "u8 list \<Rightarrow> 'a::len word" where
  "word_of_bytes [] = 0"
| "word_of_bytes (b # bs) = ucast b OR push_bit 8 (word_of_bytes bs)"

primrec bytes_of_word :: "nat \<Rightarrow> 'a::len word \<Rightarrow> u8 list" where
  "bytes_of_word 0 w = []"
| "bytes_of_word (Suc n) w = ucast w # bytes_of_word n (drop_bit 8 w)"

definition load16 :: "mem \<Rightarrow> u64 \<Rightarrow> u16" where
  "load16 m a = word_of_bytes (load_bytes 2 m a)"

definition store16 :: "mem \<Rightarrow> u64 \<Rightarrow> u16 \<Rightarrow> mem" where
  "store16 m a v = store_bytes m a (bytes_of_word 2 v)"

definition load32 :: "mem \<Rightarrow> u64 \<Rightarrow> u32" where
  "load32 m a = word_of_bytes (load_bytes 4 m a)"

definition store32 :: "mem \<Rightarrow> u64 \<Rightarrow> u32 \<Rightarrow> mem" where
  "store32 m a v = store_bytes m a (bytes_of_word 4 v)"

definition load64 :: "mem \<Rightarrow> u64 \<Rightarrow> u64" where
  "load64 m a = word_of_bytes (load_bytes 8 m a)"

definition store64 :: "mem \<Rightarrow> u64 \<Rightarrow> u64 \<Rightarrow> mem" where
  "store64 m a v = store_bytes m a (bytes_of_word 8 v)"

section \<open>Regions\<close>

text \<open>The \<open>n\<close> bytes from \<open>a\<close>, wrapping at the end of the address space.\<close>

definition in_region :: "u64 \<Rightarrow> nat \<Rightarrow> u64 \<Rightarrow> bool" where
  "in_region a n x \<longleftrightarrow> unat (x - a) < n"

lemma load_bytes_length [simp]: "length (load_bytes n m a) = n"
  by (induction n arbitrary: a) auto

lemma bytes_of_word_length [simp]: "length (bytes_of_word n w) = n"
  by (induction n arbitrary: w) auto

lemma load_bytes_nth: "i < n \<Longrightarrow> load_bytes n m a ! i = m (a + of_nat i)"
proof (induction n arbitrary: a i)
  case (Suc n)
  then show ?case by (cases i) (auto simp: algebra_simps)
qed simp

lemma load_bytes_map: "load_bytes n m a = map (\<lambda>i. m (a + of_nat i)) [0..<n]"
  by (rule nth_equalityI) (auto simp: load_bytes_nth)

lemma load_bytes_cong:
  "(\<And>i. i < n \<Longrightarrow> m (a + of_nat i) = m' (a + of_nat i)) \<Longrightarrow> load_bytes n m a = load_bytes n m' a"
  by (simp add: load_bytes_map)

lemma store_bytes_apply:
  "length bs \<le> 18446744073709551616 \<Longrightarrow>
   store_bytes m a bs x = (if unat (x - a) < length bs then bs ! unat (x - a) else m x)"
proof (induction bs arbitrary: m a)
  case (Cons b bs)
  show ?case
  proof (cases "x = a")
    case True
    have "unat (a - (a + 1)) = 18446744073709551615"
      by (simp add: unsigned_minus_1_eq_mask mask_eq_exp_minus_1)
    with Cons True show ?thesis by simp
  next
    case False
    then have d: "x - a \<noteq> 0" by simp
    have u: "unat (x - (a + 1)) = unat (x - a) - 1"
      using unat_minus_one [OF d] by (simp add: diff_diff_eq)
    have "0 < unat (x - a)" using d unat_gt_0 by blast
    with Cons False u show ?thesis by (auto simp: nth_Cons')
  qed
qed simp

lemma store_bytes_outside:
  "length bs \<le> 18446744073709551616 \<Longrightarrow> \<not> in_region a (length bs) x \<Longrightarrow> store_bytes m a bs x = m x"
  by (simp add: store_bytes_apply in_region_def)

lemma load_store_bytes:
  "length bs \<le> 18446744073709551616 \<Longrightarrow> n = length bs \<Longrightarrow> load_bytes n (store_bytes m a bs) a = bs"
  by (rule nth_equalityI) (auto simp: load_bytes_nth store_bytes_apply unat_of_nat64)

section \<open>Integers as bytes\<close>

lemma bit_word_of_bytes:
  "bit (word_of_bytes bs :: 'a::len word) n \<longleftrightarrow>
     n < LENGTH('a) \<and> n div 8 < length bs \<and> bit (bs ! (n div 8)) (n mod 8)"
proof (induction bs arbitrary: n)
  case (Cons b bs)
  show ?case
  proof (cases "n < 8")
    case True
    then show ?thesis by (auto simp: bit_simps dest: bit_imp_le_length)
  next
    case False
    then have "n div 8 = Suc ((n - 8) div 8)" and "n mod 8 = (n - 8) mod 8"
      by (simp_all add: le_div_geq le_mod_geq)
    with False Cons.IH [of "n - 8"] show ?thesis
      by (auto simp: bit_simps dest: bit_imp_le_length)
  qed
qed simp

lemma bytes_of_word_nth: "i < n \<Longrightarrow> bytes_of_word n w ! i = ucast (drop_bit (8 * i) w)"
proof (induction n arbitrary: i w)
  case (Suc n)
  then show ?case by (cases i) (auto simp: algebra_simps)
qed simp

lemma word_of_bytes_of_word:
  "word_of_bytes (bytes_of_word n w) = take_bit (8 * n) (w :: 'a::len word)"
  by (rule bit_word_eqI)
    (auto simp: bit_word_of_bytes bytes_of_word_nth bit_simps algebra_simps less_mult_imp_div_less
      dest: bit_imp_le_length)

lemma bytes_of_word_of_bytes:
  "8 * length bs \<le> LENGTH('a::len) \<Longrightarrow> bytes_of_word (length bs) (word_of_bytes bs :: 'a word) = bs"
proof (rule nth_equalityI)
  fix i assume "8 * length bs \<le> LENGTH('a)"
    and "i < length (bytes_of_word (length bs) (word_of_bytes bs :: 'a word))"
  then show "bytes_of_word (length bs) (word_of_bytes bs :: 'a word) ! i = bs ! i"
    by (intro bit_word_eqI) (auto simp: bytes_of_word_nth bit_word_of_bytes bit_simps)
qed simp

lemma take_bit_full: "LENGTH('a::len) \<le> n \<Longrightarrow> take_bit n (w :: 'a word) = w"
  by (rule bit_word_eqI) (auto simp: bit_simps)

lemma load64_store64 [simp]: "load64 (store64 m a v) a = v"
  by (simp add: load64_def store64_def load_store_bytes word_of_bytes_of_word take_bit_full)

lemma load32_store32 [simp]: "load32 (store32 m a v) a = v"
  by (simp add: load32_def store32_def load_store_bytes word_of_bytes_of_word take_bit_full)

lemma store64_outside: "\<not> in_region a 8 x \<Longrightarrow> store64 m a v x = m x"
  by (simp add: store64_def store_bytes_outside)

lemma store32_outside: "\<not> in_region a 4 x \<Longrightarrow> store32 m a v x = m x"
  by (simp add: store32_def store_bytes_outside)

lemma load64_cong: "(\<And>x. in_region a 8 x \<Longrightarrow> m x = m' x) \<Longrightarrow> load64 m a = load64 m' a"
  unfolding load64_def
  by (rule arg_cong [where f = word_of_bytes], rule load_bytes_cong)
    (simp add: in_region_def unat_of_nat64)

lemma load32_cong: "(\<And>x. in_region a 4 x \<Longrightarrow> m x = m' x) \<Longrightarrow> load32 m a = load32 m' a"
  unfolding load32_def
  by (rule arg_cong [where f = word_of_bytes], rule load_bytes_cong)
    (simp add: in_region_def unat_of_nat64)

section \<open>Pages\<close>

text \<open>
  \<open>pageno\<close> numbers the 4 KiB pages of the address space. Page-aligned addresses stand for
  their page: two of them differ exactly when their page numbers do.
\<close>

definition pageno :: "u64 \<Rightarrow> nat" where
  "pageno x = unat x div 4096"

definition page_aligned :: "u64 \<Rightarrow> bool" where
  "page_aligned x \<longleftrightarrow> unat x mod 4096 = 0"

lemma page_aligned_mod: "page_aligned x \<longleftrightarrow> x mod 4096 = 0"
  by (simp add: page_aligned_def word_mod_zero_iff)

lemma page_aligned_eq: "page_aligned p \<Longrightarrow> page_aligned q \<Longrightarrow> pageno p = pageno q \<longleftrightarrow> p = q"
  unfolding page_aligned_def pageno_def
  by (metis div_mult_mod_eq word_unat_eq_iff)

lemma unat_diff_cases:
  "unat ((x::u64) - a) = (if unat a \<le> unat x then unat x - unat a
                           else unat x + 18446744073709551616 - unat a)"
  by (simp add: unat_sub_if')

lemma pageno_eq_iff: "pageno x = n \<longleftrightarrow> 4096 * n \<le> unat x \<and> unat x < 4096 * n + 4096"
  unfolding pageno_def by (metis add.commute div_nat_eqI dividend_less_div_times less_numeral_extra(3)
      mult.commute mult_Suc_right times_div_less_eq_dividend zero_less_numeral)

lemma page_alignedE:
  assumes "page_aligned p"
  obtains k where "unat p = 4096 * k" and "k < 4503599627370496" and "pageno p = k"
proof
  show "unat p = 4096 * (unat p div 4096)" using assms by (simp add: page_aligned_def flip: minus_mod_eq_mult_div)
  then show "unat p div 4096 < 4503599627370496" using unat_lt64 [of p] by linarith
qed (simp add: pageno_def)

lemma in_page_iff: "page_aligned p \<Longrightarrow> in_region p 4096 x \<longleftrightarrow> pageno x = pageno p"
  by (erule page_alignedE) (auto simp: pageno_eq_iff [of x] in_region_def unat_diff_cases split: if_splits)

lemma page_offset_unat:
  assumes "page_aligned p" and "unat d < 4096"
  shows "unat (p + d) = unat p + unat d"
proof -
  have "unat p + unat d < 18446744073709551616"
    using assms by (auto elim: page_alignedE)
  then show ?thesis by (rule unat_add64)
qed

lemma page_offset_pageno: "page_aligned p \<Longrightarrow> unat d < 4096 \<Longrightarrow> pageno (p + d) = pageno p"
  by (erule page_alignedE) (simp add: pageno_eq_iff [of "p + d"] page_offset_unat page_aligned_def)

lemma page_aligned_diff:
  assumes "page_aligned h"
  shows "page_aligned (p - h) \<longleftrightarrow> page_aligned p"
proof -
  from assms obtain k where k: "unat h = 4096 * k" "k < 4503599627370496" by (rule page_alignedE)
  show ?thesis
  proof (cases "unat h \<le> unat p")
    case True
    have "unat (p - h) = unat p - 4096 * k" using True k by (simp add: unat_diff_cases)
    with True k show ?thesis
      unfolding page_aligned_def by (metis le_add_diff_inverse mod_mult_self2 add.commute)
  next
    case False
    have "unat (p - h) = unat p + 4096 * (4503599627370496 - k)"
      using False k by (simp add: unat_diff_cases)
    then show ?thesis by (simp add: page_aligned_def)
  qed
qed

lemma page_aligned_add:
  assumes "page_aligned h"
  shows "page_aligned (p + h) \<longleftrightarrow> page_aligned p"
  using page_aligned_diff [OF assms, of "p + h"] by simp

definition aligned8 :: "u64 \<Rightarrow> bool" where
  "aligned8 x \<longleftrightarrow> unat x mod 8 = 0"

lemma aligned8E:
  assumes "aligned8 a"
  obtains k where "unat a = 8 * k" and "k < 2305843009213693952"
proof
  show "unat a = 8 * (unat a div 8)" using assms by (simp add: aligned8_def flip: minus_mod_eq_mult_div)
  then show "unat a div 8 < 2305843009213693952" using unat_lt64 [of a] by linarith
qed

lemma page_aligned_8: "page_aligned p \<Longrightarrow> aligned8 p"
  by (auto simp: aligned8_def elim!: page_alignedE)

lemma in_region8_pageno:
  assumes "aligned8 a" and "in_region a 8 x"
  shows "pageno x = pageno a"
proof -
  from assms(1) obtain k where k: "unat a = 8 * k" "k < 2305843009213693952" by (rule aligned8E)
  with assms(2) have "8 * k \<le> unat x" "unat x < 8 * k + 8"
    by (auto simp: in_region_def unat_diff_cases split: if_splits)
  then have "unat x div 8 = k" by (simp add: div_nat_eqI)
  then have "unat x div 8 div 512 = unat a div 8 div 512" using k by simp
  then show ?thesis by (simp add: pageno_def flip: div_mult2_eq)
qed

lemma region8_disjoint:
  assumes "aligned8 a" "aligned8 b" "a \<noteq> b" "in_region a 8 x"
  shows "\<not> in_region b 8 x"
proof -
  from assms obtain k l where "unat a = 8 * k" "k < 2305843009213693952"
    and "unat b = 8 * l" "l < 2305843009213693952" by (meson aligned8E)
  moreover from this assms(3) have "k \<noteq> l" by (metis word_unat_eq_iff)
  ultimately show ?thesis using assms(4)
    by (auto simp: in_region_def unat_diff_cases split: if_splits)
qed

lemma load64_store64_other:
  "aligned8 a \<Longrightarrow> aligned8 b \<Longrightarrow> a \<noteq> b \<Longrightarrow> load64 (store64 m a v) b = load64 m b"
  by (rule load64_cong) (metis region8_disjoint store64_outside)

text \<open>Two memories that agree on a page give the same words there.\<close>

definition same_page :: "mem \<Rightarrow> mem \<Rightarrow> nat \<Rightarrow> bool" where
  "same_page m m' n \<longleftrightarrow> (\<forall>x. pageno x = n \<longrightarrow> m x = m' x)"

lemma same_page_refl [simp]: "same_page m m n"
  by (simp add: same_page_def)

lemma same_page_sym: "same_page m m' n \<Longrightarrow> same_page m' m n"
  by (simp add: same_page_def)

lemma same_page_trans: "same_page m m' n \<Longrightarrow> same_page m' m'' n \<Longrightarrow> same_page m m'' n"
  by (simp add: same_page_def)

lemma load64_same_page: "same_page m m' (pageno a) \<Longrightarrow> aligned8 a \<Longrightarrow> load64 m a = load64 m' a"
  by (rule load64_cong) (metis in_region8_pageno same_page_def)

lemma same_page_store64: "aligned8 a \<Longrightarrow> pageno a \<noteq> n \<Longrightarrow> same_page m (store64 m a v) n"
  unfolding same_page_def by (metis in_region8_pageno store64_outside)

end
