(* ===== verification/Lib.thy ===== *)
theory Lib
  imports CMem
begin

text \<open>
  The freestanding C library of the kernel, \<^verbatim>\<open>src/kernel/common/lib.c\<close>. A routine
  takes the memory it runs on and its pointer arguments; the routines that return their first
  argument return the new memory here. The loops over \<open>size_t\<close> counters recurse on the number
  of iterations left; the loops that stop at a NUL byte may never stop, so they are
  \<^theory_text>\<open>partial_function (option)\<close> and \<open>None\<close> means that they do not return.
\<close>

section \<open>Definitions\<close>

primrec memcpy_loop :: "nat \<Rightarrow> u64 \<Rightarrow> u64 \<Rightarrow> u64 \<Rightarrow> mem \<Rightarrow> mem" where
  "memcpy_loop 0 dest src i m = m"
| "memcpy_loop (Suc k) dest src i m = memcpy_loop k dest src (i + 1) (m(dest + i := m (src + i)))"

definition memcpy :: "u64 \<Rightarrow> u64 \<Rightarrow> u64 \<Rightarrow> mem \<Rightarrow> mem" where
  "memcpy dest src n m = memcpy_loop (unat n) dest src 0 m"

primrec memset_loop :: "nat \<Rightarrow> u64 \<Rightarrow> u8 \<Rightarrow> u64 \<Rightarrow> mem \<Rightarrow> mem" where
  "memset_loop 0 p c i m = m"
| "memset_loop (Suc k) p c i m = memset_loop k p c (i + 1) (m(p + i := c))"

definition memset :: "u64 \<Rightarrow> u32 \<Rightarrow> u64 \<Rightarrow> mem \<Rightarrow> mem" where
  "memset p c n m = memset_loop (unat n) p (ucast c) 0 m"

primrec memmove_down_loop :: "nat \<Rightarrow> u64 \<Rightarrow> u64 \<Rightarrow> mem \<Rightarrow> mem" where
  "memmove_down_loop 0 dest src m = m"
| "memmove_down_loop (Suc k) dest src m =
     memmove_down_loop k dest src (m(dest + of_nat k := m (src + of_nat k)))"

definition memmove :: "u64 \<Rightarrow> u64 \<Rightarrow> u64 \<Rightarrow> mem \<Rightarrow> mem" where
  "memmove dest src n m =
     (if dest < src then memcpy_loop (unat n) dest src 0 m
      else if src < dest then memmove_down_loop (unat n) dest src m
      else m)"

primrec memcmp_loop :: "nat \<Rightarrow> u64 \<Rightarrow> u64 \<Rightarrow> u64 \<Rightarrow> mem \<Rightarrow> int" where
  "memcmp_loop 0 p1 p2 i m = 0"
| "memcmp_loop (Suc k) p1 p2 i m =
     (if m (p1 + i) \<noteq> m (p2 + i) then (if m (p1 + i) < m (p2 + i) then -1 else 1)
      else memcmp_loop k p1 p2 (i + 1) m)"

definition memcmp :: "u64 \<Rightarrow> u64 \<Rightarrow> u64 \<Rightarrow> mem \<Rightarrow> int" where
  "memcmp s1 s2 n m = memcmp_loop (unat n) s1 s2 0 m"

partial_function (option) strcpy :: "u64 \<Rightarrow> u64 \<Rightarrow> mem \<Rightarrow> mem option" where
  "strcpy s t m =
     (let m' = m(s := m t) in if m t \<noteq> 0 then strcpy (s + 1) (t + 1) m' else Some m')"

partial_function (option) strcmp :: "u64 \<Rightarrow> u64 \<Rightarrow> mem \<Rightarrow> int option" where
  "strcmp p q m =
     (if m p \<noteq> 0 \<and> m p = m q then strcmp (p + 1) (q + 1) m
      else Some (uint (m p) - uint (m q)))"

primrec strncmp_loop :: "nat \<Rightarrow> u64 \<Rightarrow> u64 \<Rightarrow> mem \<Rightarrow> int" where
  "strncmp_loop 0 s1 s2 m = 0"
| "strncmp_loop (Suc k) s1 s2 m =
     (if m s1 \<noteq> m s2 then uint (m s1) - uint (m s2)
      else if m s1 = 0 then 0
      else strncmp_loop k (s1 + 1) (s2 + 1) m)"

definition strncmp :: "u64 \<Rightarrow> u64 \<Rightarrow> u64 \<Rightarrow> mem \<Rightarrow> int" where
  "strncmp s1 s2 n m = (if n = 0 then 0 else strncmp_loop (unat n) s1 s2 m)"

partial_function (option) strlen_from :: "u64 \<Rightarrow> u64 \<Rightarrow> mem \<Rightarrow> u64 option" where
  "strlen_from s n m = (if m (s + n) \<noteq> 0 then strlen_from s (n + 1) m else Some n)"

definition strlen :: "u64 \<Rightarrow> mem \<Rightarrow> u64 option" where
  "strlen s m = strlen_from s 0 m"

text \<open>The NUL-terminated string \<open>xs\<close> stands at \<open>p\<close>.\<close>

definition cstr :: "mem \<Rightarrow> u64 \<Rightarrow> u8 list \<Rightarrow> bool" where
  "cstr m p xs \<longleftrightarrow> load_bytes (length xs) m p = xs \<and> m (p + of_nat (length xs)) = 0 \<and> 0 \<notin> set xs"

section \<open>Copying and filling\<close>

lemma memset_loop_apply:
  "k \<le> 18446744073709551616 \<Longrightarrow>
   memset_loop k p c i m x = (if unat (x - (p + i)) < k then c else m x)"
proof (induction k arbitrary: i m)
  case (Suc k)
  have "memset_loop k p c (i + 1) (m(p + i := c)) x
      = store_bytes m (p + i) (replicate (Suc k) c) x"
    using Suc by (simp add: store_bytes_apply add.assoc)
  then show ?case using Suc.prems by (simp add: store_bytes_apply del: replicate.simps)
qed simp

lemma memset_apply: "memset p c n m x = (if in_region p (unat n) x then ucast c else m x)"
  using unat_lt64 [of n] by (simp add: memset_def memset_loop_apply in_region_def less_imp_le)

text \<open>
  An ascending copy is right unless some byte is written before it is read, that is unless
  \<open>dest\<close> lies strictly inside the source region.
\<close>

lemma memcpy_loop_apply:
  assumes "k \<le> 18446744073709551616" and "unat (dest - src) = 0 \<or> k \<le> unat (dest - src)"
  shows "memcpy_loop k dest src i m x =
     (if unat (x - (dest + i)) < k then m (src + (x - dest)) else m x)"
  using assms
proof (induction k arbitrary: i m)
  case (Suc k)
  let ?m = "m(dest + i := m (src + i))"
  have IH: "memcpy_loop k dest src (i + 1) ?m x =
      (if unat (x - (dest + (i + 1))) < k then ?m (src + (x - dest)) else ?m x)"
    using Suc by (intro Suc.IH) auto
  show ?case
  proof (cases "x = dest + i")
    case True
    have "unat (x - (dest + (i + 1))) = 18446744073709551615"
      using True by (simp add: unsigned_minus_1_eq_mask mask_eq_exp_minus_1)
    with IH True Suc.prems(1) show ?thesis by simp
  next
    case False
    then have d: "x - (dest + i) \<noteq> 0" by simp
    have u: "unat (x - (dest + (i + 1))) = unat (x - (dest + i)) - 1"
      using unat_minus_one [OF d] by (simp add: diff_diff_eq add.assoc)
    have pos: "0 < unat (x - (dest + i))" using d unat_gt_0 by blast
    show ?thesis
    proof (cases "unat (x - (dest + i)) < Suc k \<and> src + (x - dest) = dest + i")
      case True
      then have "dest - src = x - (dest + i)" by (simp add: algebra_simps)
      with True pos Suc.prems(2) show ?thesis by simp
    next
      case F: False
      with IH False u pos show ?thesis by auto
    qed
  qed
qed simp

lemma memcpy_apply:
  "dest = src \<or> unat n \<le> unat (dest - src) \<Longrightarrow>
   memcpy dest src n m x = (if in_region dest (unat n) x then m (src + (x - dest)) else m x)"
  using unat_lt64 [of n]
  by (auto simp: memcpy_def memcpy_loop_apply in_region_def less_imp_le)

lemma memmove_down_loop_apply:
  assumes "k \<le> unat (src - dest) \<or> src = dest" and "k < 18446744073709551616"
  shows "memmove_down_loop k dest src m x =
     (if unat (x - dest) < k then m (src + (x - dest)) else m x)"
  using assms
proof (induction k arbitrary: m)
  case (Suc k)
  let ?m = "m(dest + of_nat k := m (src + of_nat k))"
  have IH: "memmove_down_loop k dest src ?m x =
      (if unat (x - dest) < k then ?m (src + (x - dest)) else ?m x)"
    using Suc by (intro Suc.IH) auto
  have uk: "unat (of_nat k :: u64) = k" using Suc.prems(2) by (simp add: unat_of_nat64)
  have eq: "x = dest + of_nat k \<longleftrightarrow> unat (x - dest) = k"
    using uk by (metis add_diff_cancel_left' word_add_right_imp_diff word_unat_eq_iff)
  have clash: "src + (x - dest) = dest + of_nat k \<Longrightarrow> unat (x - dest) < k \<Longrightarrow> src = dest"
  proof -
    assume a: "src + (x - dest) = dest + of_nat k" and l: "unat (x - dest) < k"
    then have e: "src - dest = of_nat k - (x - dest)" by (simp add: algebra_simps)
    have "unat (src - dest) = k - unat (x - dest)"
      unfolding e using l uk by (simp add: unat_sub word_le_nat_alt)
    with Suc.prems(1) show "src = dest" by linarith
  qed
  show ?case using IH eq clash by (auto simp: less_Suc_eq)
qed simp

lemma memmove_apply:
  assumes "unat src + unat n \<le> 18446744073709551616" and "unat dest + unat n \<le> 18446744073709551616"
  shows "memmove dest src n m x =
     (if in_region dest (unat n) x then m (src + (x - dest)) else m x)"
proof -
  consider "dest < src" | "src < dest" | "src = dest" by (meson linorder_neqE)
  then show ?thesis
  proof cases
    case 1
    then have "unat n \<le> unat (dest - src)"
      using assms by (auto simp: unat_diff_cases word_less_nat_alt)
    with 1 show ?thesis by (simp add: memmove_def memcpy_loop_apply in_region_def less_imp_le)
  next
    case 2
    then have "unat n \<le> unat (src - dest)"
      using assms by (auto simp: unat_diff_cases word_less_nat_alt)
    moreover have "unat n < 18446744073709551616" by simp
    ultimately show ?thesis using 2
      by (simp add: memmove_def memmove_down_loop_apply in_region_def less_not_sym)
  next
    case 3
    then show ?thesis by (simp add: memmove_def in_region_def)
  qed
qed

text \<open>
  C1. \<open>memmove\<close> copies a block between any two regions, overlapping in either direction or not:
  afterwards the destination holds what the source held before, and no other byte has changed.
  The regions must not run past the end of the address space, as C requires of objects.
\<close>

theorem memmove_correct:
  assumes "unat src + unat n \<le> 18446744073709551616" and "unat dest + unat n \<le> 18446744073709551616"
  shows "load_bytes (unat n) (memmove dest src n m) dest = load_bytes (unat n) m src \<and>
     (\<forall>x. \<not> in_region dest (unat n) x \<longrightarrow> memmove dest src n m x = m x)"
proof
  have "unat (of_nat i :: u64) = i" if "i < unat n" for i
    using that unat_lt64 [of n] by (intro unat_of_nat64) linarith
  then show "load_bytes (unat n) (memmove dest src n m) dest = load_bytes (unat n) m src"
    by (simp add: load_bytes_map memmove_apply [OF assms] in_region_def)
qed (simp add: memmove_apply [OF assms])

theorem memmove_correct_witness:
  "load_bytes (unat (3::u64)) (memmove 1001 1000 3 (\<lambda>a. ucast a)) 1001 =
     load_bytes (unat (3::u64)) (\<lambda>a. ucast a) 1000"
  using memmove_correct [of 1000 3 1001 "\<lambda>a. ucast a"] by simp

section \<open>Strings\<close>

lemma cstr_Nil [simp]: "cstr m p [] \<longleftrightarrow> m p = 0"
  by (simp add: cstr_def)

lemma cstr_Cons [simp]: "cstr m p (x # xs) \<longleftrightarrow> m p = x \<and> x \<noteq> 0 \<and> cstr m (p + 1) xs"
  by (auto simp: cstr_def algebra_simps)

lemma cstr_unique: "cstr m p xs \<Longrightarrow> cstr m p ys \<Longrightarrow> xs = ys"
proof (induction xs arbitrary: p ys)
  case Nil
  then show ?case by (cases ys) auto
next
  case (Cons x xs)
  then show ?case by (cases ys) auto
qed

lemma strlen_from_cstr: "cstr m (s + n) xs \<Longrightarrow> strlen_from s n m = Some (n + of_nat (length xs))"
proof (induction xs arbitrary: n)
  case Nil
  then show ?case by (simp add: strlen_from.simps)
next
  case (Cons x xs)
  then have "strlen_from s (n + 1) m = Some (n + 1 + of_nat (length xs))"
    by (simp add: add.assoc)
  with Cons.prems show ?case by (subst strlen_from.simps) (simp add: algebra_simps)
qed

lemma strlen_cstr: "cstr m s xs \<Longrightarrow> strlen s m = Some (of_nat (length xs))"
  using strlen_from_cstr [of m s 0 xs] by (simp add: strlen_def)

text \<open>What \<open>strcmp\<close> returns on the strings themselves: the difference at the first mismatch.\<close>

fun cstr_diff :: "u8 list \<Rightarrow> u8 list \<Rightarrow> int" where
  "cstr_diff [] [] = 0"
| "cstr_diff [] (y # ys) = - uint y"
| "cstr_diff (x # xs) [] = uint x"
| "cstr_diff (x # xs) (y # ys) = (if x = y then cstr_diff xs ys else uint x - uint y)"

lemma strcmp_cstr: "cstr m p xs \<Longrightarrow> cstr m q ys \<Longrightarrow> strcmp p q m = Some (cstr_diff xs ys)"
proof (induction xs ys arbitrary: p q rule: cstr_diff.induct)
  case (4 x xs y ys)
  then show ?case by (subst strcmp.simps) auto
qed (subst strcmp.simps, auto)+

lemma cstr_diff_zero: "0 \<notin> set xs \<Longrightarrow> 0 \<notin> set ys \<Longrightarrow> cstr_diff xs ys = 0 \<longleftrightarrow> xs = ys"
  by (induction xs ys rule: cstr_diff.induct) (auto simp: word_uint_eq_iff)

lemma strncmp_loop_cstr:
  "cstr m p xs \<Longrightarrow> cstr m q ys \<Longrightarrow>
   strncmp_loop k p q m = cstr_diff (take k xs) (take k ys)"
proof (induction k arbitrary: p q xs ys)
  case (Suc k)
  show ?case
  proof (cases xs)
    case Nil
    with Suc.prems show ?thesis by (cases ys) auto
  next
    case (Cons x xs')
    with Suc show ?thesis by (cases ys) auto
  qed
qed simp

text \<open>
  On NUL-terminated strings \<open>strcmp\<close> always returns, and it returns zero exactly when the
  two strings are equal; this is what the device table lookup relies on.
\<close>

theorem strcmp_zero_iff_equal:
  assumes "cstr m p xs" and "cstr m q ys"
  shows "\<exists>r. strcmp p q m = Some r \<and> (r = 0 \<longleftrightarrow> xs = ys)"
  using assms by (simp add: strcmp_cstr cstr_diff_zero cstr_def)

theorem strcmp_zero_iff_equal_witness:
  "\<exists>r. strcmp 100 200 (store_bytes (\<lambda>_. 0) 100 [102, 98]) = Some r \<and> (r = 0 \<longleftrightarrow> [102, 98 :: u8] = [])"
  by (rule strcmp_zero_iff_equal) simp_all

end
