(* ===== verification/Spinlock.thy ===== *)
theory Spinlock
  imports Prelude
begin

text \<open>
  Per-core data (\<^verbatim>\<open>src/kernel/cpu/smp.h\<close>, \<^verbatim>\<open>smp.c\<close>) and spinlocks
  (\<^verbatim>\<open>src/kernel/common/spinlock.c\<close>): the routines as one core runs them, the
  contract they give to code that brackets a critical section with them, and the interleaving of
  several cores on one lock.
\<close>

section \<open>Per-core data\<close>

text \<open>A pointer to a slot of the process table is its index.\<close>

record cpu_local_data =
  scratchpad :: u64
  cpuid :: u8
  depth :: u16
  was_enabled :: bool
  lapic :: u64
  running_process :: "nat option"
  last_running_process :: "nat option"

text \<open>A core is its local data and its interrupt flag, bit 9 of \<open>RFLAGS\<close>.\<close>

record cpu = cpu_local_data +
  rflags_IF :: bool

record smp =
  next_cpuid :: u8
  cpu_locals :: "cpu_local_data list"

text \<open>
  \<open>cpu_local_setup\<close> takes the next core number and points the GS base at that slot of the
  \<open>MAX_CORES\<close> slots; the result is the slot.
\<close>

definition cpu_local_setup :: "(smp, nat) kern" where
  "cpu_local_setup s =
     (let c = next_cpuid s; s1 = s\<lparr>next_cpuid := c + 1\<rparr>
      in if 8 < c then Panic ''too much cores''
         else if unat c < length (cpu_locals s)
         then Ok (unat c, s1\<lparr>cpu_locals := (cpu_locals s1)[unat c := (cpu_locals s1 ! unat c)\<lparr>cpuid := c\<rparr>]\<rparr>)
         else Undef)"

section \<open>Spinlocks on one core\<close>

record spinlock =
  locked :: u32
  holding_cpu :: u32

definition save_and_disable_interrupts :: "cpu \<Rightarrow> cpu" where
  "save_and_disable_interrupts c =
     (let interrupts_were_enabled = rflags_IF c;
          c1 = c\<lparr>rflags_IF := False\<rparr>;
          c2 = (if depth c1 = 0 then c1\<lparr>was_enabled := interrupts_were_enabled\<rparr> else c1)
      in c2\<lparr>depth := depth c2 + 1\<rparr>)"

definition restore_interrupts :: "cpu \<Rightarrow> cpu" where
  "restore_interrupts c =
     (let c1 = c\<lparr>depth := depth c - 1\<rparr>
      in if depth c1 = 0 \<and> was_enabled c1 then c1\<lparr>rflags_IF := True\<rparr> else c1)"

definition this_cpu_holding_lock :: "spinlock \<Rightarrow> cpu \<Rightarrow> bool \<times> cpu" where
  "this_cpu_holding_lock l c =
     (let c1 = save_and_disable_interrupts c;
          result = (locked l \<noteq> 0 \<and> holding_cpu l = ucast (cpuid c1))
      in (result, restore_interrupts c1))"

text \<open>
  The test-and-set loop returns at once on a free lock. On a lock that is taken it cannot return
  in a run of this core alone.
\<close>

definition spinlock_lock :: "spinlock \<Rightarrow> cpu \<Rightarrow> (spinlock \<times> cpu) outcome" where
  "spinlock_lock l c =
     (let c1 = save_and_disable_interrupts c;
          (holding, c2) = this_cpu_holding_lock l c1
      in if holding then Panic ''deadlock''
         else if locked l \<noteq> 0 then Hang
         else Ok (l\<lparr>locked := 1, holding_cpu := ucast (cpuid c2)\<rparr>, c2))"

definition spinlock_unlock :: "spinlock \<Rightarrow> cpu \<Rightarrow> (spinlock \<times> cpu) outcome" where
  "spinlock_unlock l c =
     (let (holding, c1) = this_cpu_holding_lock l c
      in if \<not> holding then Panic ''cpu not holding lock''
         else let l1 = l\<lparr>holding_cpu := 0\<rparr>; l2 = l1\<lparr>locked := 0\<rparr>
              in Ok (l2, restore_interrupts c1))"

definition spinlock_locked :: "spinlock \<Rightarrow> bool" where
  "spinlock_locked l = (locked l \<noteq> 0)"

section \<open>Several cores on one lock\<close>

text \<open>
  One step is one access to the shared lock. A core that wants the lock disables its interrupts,
  loads \<open>locked\<close> and then \<open>holding_cpu\<close> for the deadlock check, spins on the test-and-set and
  writes \<open>holding_cpu\<close>; to leave, it makes the same two loads, clears \<open>holding_cpu\<close> and then
  \<open>locked\<close>. Core \<open>i\<close> has \<open>cpuid\<close> \<open>i\<close>.
\<close>

datatype lock_pc =
    Outside | LockCheck | LockCheckHolder | Spinning | Acquired | Critical
  | UnlockCheckHolder | ClearHolder | Release | Panicked string

record smp_lock =
  the_lock :: spinlock
  pc :: "nat \<Rightarrow> lock_pc"

definition smp_lock_init :: smp_lock where
  "smp_lock_init = \<lparr>the_lock = \<lparr>locked = 0, holding_cpu = 0\<rparr>, pc = (\<lambda>_. Outside)\<rparr>"

inductive smp_lock_step :: "smp_lock \<Rightarrow> smp_lock \<Rightarrow> bool" where
  disable: "i < 8 \<Longrightarrow> pc s i = Outside \<Longrightarrow>
     smp_lock_step s (s\<lparr>pc := (pc s)(i := LockCheck)\<rparr>)"
| load_locked: "i < 8 \<Longrightarrow> pc s i = LockCheck \<Longrightarrow>
     smp_lock_step s (s\<lparr>pc := (pc s)(i := if locked (the_lock s) \<noteq> 0 then LockCheckHolder else Spinning)\<rparr>)"
| load_holder: "i < 8 \<Longrightarrow> pc s i = LockCheckHolder \<Longrightarrow>
     smp_lock_step s (s\<lparr>pc := (pc s)(i := if holding_cpu (the_lock s) = of_nat i
                                            then Panicked ''deadlock'' else Spinning)\<rparr>)"
| test_and_set: "i < 8 \<Longrightarrow> pc s i = Spinning \<Longrightarrow>
     smp_lock_step s (s\<lparr>pc := (pc s)(i := if locked (the_lock s) \<noteq> 0 then Spinning else Acquired),
                        the_lock := (the_lock s)\<lparr>locked := 1\<rparr>\<rparr>)"
| set_holder: "i < 8 \<Longrightarrow> pc s i = Acquired \<Longrightarrow>
     smp_lock_step s (s\<lparr>pc := (pc s)(i := Critical),
                        the_lock := (the_lock s)\<lparr>holding_cpu := of_nat i\<rparr>\<rparr>)"
| unlock_load_locked: "i < 8 \<Longrightarrow> pc s i = Critical \<Longrightarrow>
     smp_lock_step s (s\<lparr>pc := (pc s)(i := if locked (the_lock s) \<noteq> 0 then UnlockCheckHolder
                                            else Panicked ''cpu not holding lock'')\<rparr>)"
| unlock_load_holder: "i < 8 \<Longrightarrow> pc s i = UnlockCheckHolder \<Longrightarrow>
     smp_lock_step s (s\<lparr>pc := (pc s)(i := if holding_cpu (the_lock s) = of_nat i then ClearHolder
                                            else Panicked ''cpu not holding lock'')\<rparr>)"
| clear_holder: "i < 8 \<Longrightarrow> pc s i = ClearHolder \<Longrightarrow>
     smp_lock_step s (s\<lparr>pc := (pc s)(i := Release),
                        the_lock := (the_lock s)\<lparr>holding_cpu := 0\<rparr>\<rparr>)"
| release: "i < 8 \<Longrightarrow> pc s i = Release \<Longrightarrow>
     smp_lock_step s (s\<lparr>pc := (pc s)(i := Outside),
                        the_lock := (the_lock s)\<lparr>locked := 0\<rparr>\<rparr>)"

inductive smp_lock_reachable :: "smp_lock \<Rightarrow> bool" where
  start: "smp_lock_reachable smp_lock_init"
| step: "smp_lock_reachable s \<Longrightarrow> smp_lock_step s t \<Longrightarrow> smp_lock_reachable t"

definition owns :: "lock_pc \<Rightarrow> bool" where
  "owns p \<longleftrightarrow> p \<in> {Acquired, Critical, UnlockCheckHolder, ClearHolder, Release}"

definition named_holder :: "lock_pc \<Rightarrow> bool" where
  "named_holder p \<longleftrightarrow> p \<in> {Critical, UnlockCheckHolder, ClearHolder}"

section \<open>Interrupt nesting\<close>

text \<open>
  What a balanced pair of disable and restore leaves behind: the flag and the depth are as before,
  and at depth zero \<open>was_enabled\<close> has been overwritten with the flag.
\<close>

definition settled :: "cpu \<Rightarrow> cpu" where
  "settled c = (if depth c = 0 then c\<lparr>was_enabled := rflags_IF c\<rparr> else c)"

text \<open>The core's state is as the kernel keeps it between critical sections.\<close>

definition cpu_ok :: "cpu \<Rightarrow> bool" where
  "cpu_ok c \<longleftrightarrow> unat (depth c) < 65000 \<and> (depth c \<noteq> 0 \<longrightarrow> \<not> rflags_IF c)"

definition unlocked_lock :: spinlock where
  "unlocked_lock = \<lparr>locked = 0, holding_cpu = 0\<rparr>"

definition held_lock :: "cpu \<Rightarrow> spinlock" where
  "held_lock c = \<lparr>locked = 1, holding_cpu = ucast (cpuid c)\<rparr>"

lemma depth_Suc_nonzero: "unat (d::16 word) < 65535 \<Longrightarrow> d + 1 \<noteq> 0"
proof
  assume l: "unat d < 65535" and "d + 1 = 0"
  then have "d = -1" by (simp add: eq_neg_iff_add_eq_0)
  with l show False by (simp add: unsigned_minus_1_eq_mask mask_eq_exp_minus_1)
qed

lemma save_depth [simp]: "depth (save_and_disable_interrupts c) = depth c + 1"
  and save_IF [simp]: "\<not> rflags_IF (save_and_disable_interrupts c)"
  and save_cpuid [simp]: "cpuid (save_and_disable_interrupts c) = cpuid c"
  and save_running [simp]: "running_process (save_and_disable_interrupts c) = running_process c"
  by (simp_all add: save_and_disable_interrupts_def Let_def)

lemma restore_save:
  "cpu_ok c \<Longrightarrow> restore_interrupts (save_and_disable_interrupts c) = settled c"
  by (cases c)
    (auto simp: save_and_disable_interrupts_def restore_interrupts_def settled_def cpu_ok_def Let_def)

lemma restore_save_nested:
  "unat (depth c) < 65535 \<Longrightarrow>
   restore_interrupts (save_and_disable_interrupts (save_and_disable_interrupts c))
     = save_and_disable_interrupts c"
  using depth_Suc_nonzero [of "depth c"]
  by (cases c)
    (auto simp: save_and_disable_interrupts_def restore_interrupts_def Let_def)

lemma settled_simps [simp]:
  "depth (settled c) = depth c" "rflags_IF (settled c) = rflags_IF c" "cpuid (settled c) = cpuid c"
  "running_process (settled c) = running_process c" "settled (settled c) = settled c"
  by (simp_all add: settled_def)

lemma cpu_ok_settled [simp]: "cpu_ok (settled c) = cpu_ok c"
  by (simp add: cpu_ok_def)

lemma spinlock_lock_free:
  assumes "cpu_ok c" and "locked l = 0"
  shows "spinlock_lock l c = Ok (held_lock c, save_and_disable_interrupts c)"
proof -
  have "unat (depth c) < 65535" using assms(1) by (simp add: cpu_ok_def)
  with assms(2) show ?thesis
    by (cases l) (simp add: spinlock_lock_def this_cpu_holding_lock_def restore_save_nested
      held_lock_def Let_def)
qed

lemma spinlock_lock_self:
  "unat (depth c) < 65534 \<Longrightarrow> spinlock_lock (held_lock c) (save_and_disable_interrupts c) = Panic ''deadlock''"
  by (simp add: spinlock_lock_def this_cpu_holding_lock_def held_lock_def Let_def)

lemma spinlock_unlock_held:
  assumes "cpu_ok c" and "cpuid c' = cpuid c"
  shows "spinlock_unlock (held_lock c') (save_and_disable_interrupts c) = Ok (unlocked_lock, settled c)"
proof -
  have "unat (depth c) < 65535" using assms(1) by (simp add: cpu_ok_def)
  with assms show ?thesis
    by (simp add: spinlock_unlock_def this_cpu_holding_lock_def restore_save_nested restore_save
      held_lock_def unlocked_lock_def Let_def)
qed

lemma spinlock_unlock_not_held:
  "locked l = 0 \<or> holding_cpu l \<noteq> ucast (cpuid c) \<Longrightarrow>
   spinlock_unlock l c = Panic ''cpu not holding lock''"
  by (auto simp: spinlock_unlock_def this_cpu_holding_lock_def Let_def)

section \<open>Mutual exclusion\<close>

text \<open>The invariant, with the core that owns the lock named by \<open>ow\<close>.\<close>

definition lock_inv :: "nat option \<Rightarrow> smp_lock \<Rightarrow> bool" where
  "lock_inv ow s \<longleftrightarrow>
     (\<forall>i. owns (pc s i) \<longleftrightarrow> ow = Some i) \<and>
     (locked (the_lock s) \<noteq> 0 \<longleftrightarrow> ow \<noteq> None) \<and>
     holding_cpu (the_lock s) =
       (case ow of None \<Rightarrow> 0 | Some i \<Rightarrow> if named_holder (pc s i) then of_nat i else 0) \<and>
     (\<forall>i\<ge>8. pc s i = Outside) \<and>
     (\<forall>i e. pc s i = Panicked e \<longrightarrow> i = 0 \<and> e = ''deadlock'')"

lemma lock_inv_init: "lock_inv None smp_lock_init"
  by (simp add: lock_inv_def smp_lock_init_def owns_def)

lemma named_holder_owns: "named_holder p \<Longrightarrow> owns p"
  by (auto simp: named_holder_def owns_def)

lemma owns_simps [simp]:
  "\<not> owns Outside" "\<not> owns LockCheck" "\<not> owns LockCheckHolder" "\<not> owns Spinning" "owns Acquired"
  "owns Critical" "owns UnlockCheckHolder" "owns ClearHolder" "owns Release" "\<not> owns (Panicked e)"
  by (simp_all add: owns_def)

lemma named_holder_simps [simp]:
  "\<not> named_holder Outside" "\<not> named_holder LockCheck" "\<not> named_holder LockCheckHolder"
  "\<not> named_holder Spinning" "\<not> named_holder Acquired" "named_holder Critical"
  "named_holder UnlockCheckHolder" "named_holder ClearHolder" "\<not> named_holder Release"
  "\<not> named_holder (Panicked e)"
  by (simp_all add: named_holder_def)

lemma core_number_inj: "i < 8 \<Longrightarrow> j < 8 \<Longrightarrow> (of_nat i :: u32) = of_nat j \<longleftrightarrow> i = j"
  by (auto simp: word_unat_eq_iff unat_of_nat)

lemma lock_inv_holder:
  assumes inv: "lock_inv ow s" and i: "i < 8" "\<not> named_holder (pc s i)"
    and h: "holding_cpu (the_lock s) = of_nat i"
  shows "i = 0"
proof (cases "\<exists>j. ow = Some j \<and> named_holder (pc s j)")
  case True
  then obtain j where j: "ow = Some j" "named_holder (pc s j)" by blast
  then have "j < 8" using inv unfolding lock_inv_def by (metis not_less named_holder_simps(1))
  moreover have "(of_nat j :: u32) = of_nat i" using inv j h by (simp add: lock_inv_def)
  ultimately have "j = i" using i(1) by (simp add: core_number_inj)
  with i(2) j show ?thesis by simp
next
  case False
  then have "(of_nat i :: u32) = of_nat 0"
    using inv h by (cases ow) (auto simp: lock_inv_def)
  then show ?thesis using i(1) core_number_inj [of i 0] by simp
qed

lemma lock_inv_outsider:
  assumes "lock_inv ow s" and "i < 8" and "\<not> owns (pc s i)" and "\<not> owns p"
    and "\<And>e. p = Panicked e \<Longrightarrow> i = 0 \<and> e = ''deadlock''"
  shows "lock_inv ow (s\<lparr>pc := (pc s)(i := p)\<rparr>)"
proof -
  have "ow \<noteq> Some i" using assms(1,3) by (metis lock_inv_def)
  with assms show ?thesis by (auto simp: lock_inv_def split: option.splits)
qed

text \<open>The owner after a step: taken on a successful test-and-set, given up by the release.\<close>

lemma lock_inv_step:
  assumes "smp_lock_step s t" and "lock_inv ow s"
  shows "\<exists>ow'. lock_inv ow' t"
  using assms
proof (induction rule: smp_lock_step.induct)
  case (disable i s)
  then show ?case by (intro exI [of _ ow] lock_inv_outsider) auto
next
  case (load_locked i s)
  then show ?case by (intro exI [of _ ow] lock_inv_outsider) (auto split: if_splits)
next
  case (load_holder i s)
  then show ?case
    by (intro exI [of _ ow] lock_inv_outsider) (auto dest: lock_inv_holder split: if_splits)
next
  case (test_and_set i s)
  then have "ow \<noteq> Some i" by (metis lock_inv_def owns_simps(4))
  with test_and_set have "lock_inv (if locked (the_lock s) \<noteq> 0 then ow else Some i)
     (s\<lparr>pc := (pc s)(i := if locked (the_lock s) \<noteq> 0 then Spinning else Acquired),
        the_lock := (the_lock s)\<lparr>locked := 1\<rparr>\<rparr>)"
    by (auto simp: lock_inv_def split: option.splits)
  then show ?case ..
next
  case (release i s)
  then have "ow = Some i" by (metis lock_inv_def owns_simps(9))
  with release have "lock_inv None (s\<lparr>pc := (pc s)(i := Outside), the_lock := (the_lock s)\<lparr>locked := 0\<rparr>\<rparr>)"
    by (auto simp: lock_inv_def split: option.splits)
  then show ?case ..
next
  case (set_holder i s)
  then have "ow = Some i" by (metis lock_inv_def owns_simps(5))
  with set_holder show ?case by (intro exI [of _ ow]) (auto simp: lock_inv_def)
next
  case (unlock_load_locked i s)
  then have "ow = Some i" by (metis lock_inv_def owns_simps(6))
  with unlock_load_locked show ?case by (intro exI [of _ ow]) (auto simp: lock_inv_def)
next
  case (unlock_load_holder i s)
  then have "ow = Some i" by (metis lock_inv_def owns_simps(7))
  with unlock_load_holder show ?case by (intro exI [of _ ow]) (auto simp: lock_inv_def)
next
  case (clear_holder i s)
  then have "ow = Some i" by (metis lock_inv_def owns_simps(8))
  with clear_holder show ?case by (intro exI [of _ ow]) (auto simp: lock_inv_def)
qed

lemma lock_inv_reachable: "smp_lock_reachable s \<Longrightarrow> \<exists>ow. lock_inv ow s"
  by (induction rule: smp_lock_reachable.induct) (auto intro: lock_inv_init lock_inv_step)

text \<open>
  C2. Mutual exclusion: in every interleaving of up to eight cores that use the lock, no two cores
  are between their successful test-and-set and their release at the same time.
\<close>

theorem spinlock_mutual_exclusion:
  assumes "smp_lock_reachable s" and "owns (pc s i)" and "owns (pc s j)"
  shows "i = j"
proof -
  from lock_inv_reachable [OF assms(1)] obtain ow where "lock_inv ow s" ..
  with assms(2,3) show ?thesis by (auto simp: lock_inv_def)
qed

text \<open>A run in which core 1 takes the lock while core 0 is about to check for a deadlock.\<close>

definition race_lock :: "lock_pc \<Rightarrow> smp_lock" where
  "race_lock p = \<lparr>the_lock = \<lparr>locked = 1, holding_cpu = 0\<rparr>, pc = (\<lambda>_. Outside)(1 := Acquired, 0 := p)\<rparr>"

lemma race_lock_Outside:
  "race_lock Outside = \<lparr>the_lock = \<lparr>locked = 1, holding_cpu = 0\<rparr>, pc = (\<lambda>_. Outside)(1 := Acquired)\<rparr>"
  by (simp add: race_lock_def fun_eq_iff)

lemma race_lock_acquired: "smp_lock_reachable (race_lock Outside)"
proof -
  let ?s = "\<lambda>p. smp_lock_init\<lparr>pc := (\<lambda>_. Outside)(1 := p)\<rparr>"
  have "smp_lock_step smp_lock_init (?s LockCheck)"
    using smp_lock_step.disable [of 1 smp_lock_init] by (simp add: smp_lock_init_def)
  with smp_lock_reachable.start have "smp_lock_reachable (?s LockCheck)"
    by (rule smp_lock_reachable.step)
  moreover have "smp_lock_step (?s LockCheck) (?s Spinning)"
    using smp_lock_step.load_locked [of 1 "?s LockCheck"] by (simp add: smp_lock_init_def)
  ultimately have "smp_lock_reachable (?s Spinning)"
    by (rule smp_lock_reachable.step)
  moreover have "smp_lock_step (?s Spinning) (race_lock Outside)"
    using smp_lock_step.test_and_set [of 1 "?s Spinning"]
    by (simp add: smp_lock_init_def race_lock_Outside)
  ultimately show ?thesis
    by (rule smp_lock_reachable.step)
qed

theorem spinlock_mutual_exclusion_witness:
  "smp_lock_reachable (race_lock Outside) \<and> {j. owns (pc (race_lock Outside) j)} = {1}"
proof
  have own: "owns (pc (race_lock Outside) 1)" by (simp add: race_lock_def)
  show "{j. owns (pc (race_lock Outside) j)} = {1}"
  proof (intro equalityI subsetI)
    fix j assume "j \<in> {j. owns (pc (race_lock Outside) j)}"
    then have "1 = j" by (intro spinlock_mutual_exclusion [OF race_lock_acquired own]) simp
    then show "j \<in> {1}" by simp
  qed (use own in simp)
qed (rule race_lock_acquired)

text \<open>
  C3. The sanity checks of the lock are sound for every core but core 0: a core that panics is
  core 0, and the panic is the deadlock check, never the holder check of the unlock.
\<close>

theorem spinlock_checks_sound:
  assumes "smp_lock_reachable s" and "pc s i = Panicked e"
  shows "i = 0 \<and> e = ''deadlock''"
proof -
  from lock_inv_reachable [OF assms(1)] obtain ow where "lock_inv ow s" ..
  with assms(2) show ?thesis by (simp add: lock_inv_def)
qed

lemma race_lock_panic: "smp_lock_reachable (race_lock (Panicked ''deadlock''))"
proof -
  have "smp_lock_step (race_lock Outside) (race_lock LockCheck)"
    using smp_lock_step.disable [of 0 "race_lock Outside"] by (simp add: race_lock_def)
  with race_lock_acquired have "smp_lock_reachable (race_lock LockCheck)"
    by (rule smp_lock_reachable.step)
  moreover have "smp_lock_step (race_lock LockCheck) (race_lock LockCheckHolder)"
    using smp_lock_step.load_locked [of 0 "race_lock LockCheck"] by (simp add: race_lock_def)
  ultimately have "smp_lock_reachable (race_lock LockCheckHolder)"
    by (rule smp_lock_reachable.step)
  moreover have "smp_lock_step (race_lock LockCheckHolder) (race_lock (Panicked ''deadlock''))"
    using smp_lock_step.load_holder [of 0 "race_lock LockCheckHolder"] by (simp add: race_lock_def)
  ultimately show ?thesis
    by (rule smp_lock_reachable.step)
qed

theorem spinlock_checks_sound_witness:
  "smp_lock_reachable (race_lock (Panicked ''deadlock'')) \<and>
   {(i, e). pc (race_lock (Panicked ''deadlock'')) i = Panicked e} = {(0, ''deadlock'')}"
proof
  let ?P = "{(i, e). pc (race_lock (Panicked ''deadlock'')) i = Panicked e}"
  have "(0, ''deadlock'') \<in> ?P" by (simp add: race_lock_def)
  moreover have "x = (0, ''deadlock'')" if "x \<in> ?P" for x
    using spinlock_checks_sound [OF race_lock_panic, of "fst x" "snd x"] that
    by (cases x) simp
  ultimately show "?P = {(0, ''deadlock'')}" by blast
qed (rule race_lock_panic)

text \<open>
  C4. The deadlock check has a false alarm: some interleaving brings core 0 into the ``deadlock''
  panic although it does not hold the lock. A lock that another core has just taken still names
  core 0 as its holder, because 0 is also the value that means no holder.
\<close>

theorem spinlock_false_deadlock:
  "\<exists>s. smp_lock_reachable s \<and> pc s 0 = Panicked ''deadlock'' \<and> owns (pc s 1)"
  using race_lock_panic by (intro exI [of _ "race_lock (Panicked ''deadlock'')"]) (simp add: race_lock_def)

end
