(* ===== verification/KState.thy ===== *)
theory KState
  imports CMem Spinlock
begin

text \<open>
  The state the low-level kernel works on: the global variables of
  \<^verbatim>\<open>src/kernel/mem/mem.c\<close>, \<^verbatim>\<open>vmm.c\<close>,
  \<^verbatim>\<open>pagecache.c\<close> and \<^verbatim>\<open>src/kernel/device/nvme.c\<close>, the memory
  they point into, the core that runs, and the NVMe controller behind its registers. Pointers are
  the kernel's virtual addresses; \<open>NULL\<close> is 0.
\<close>

section \<open>State\<close>

record nvme_queue =
  submission_queue :: u64
  completion_queue :: u64
  submission_queue_tail :: u32
  completion_queue_head :: u32
  queue_index :: u32
  queue_size :: u32
  completion_queue_current_phase :: u8

text \<open>
  The controller is hardware: a value of any type \<open>'d\<close>, and what a 32-bit store to one of its
  registers does to it and, by DMA, to memory.
\<close>

record limine_kernel_address_response =
  revision :: u64
  physical_base :: u64
  virtual_base :: u64

record 'd kernel =
  mem :: mem
  cpu :: cpu
  hhdm_offset :: u64
  freepages :: u64
  freepages_lock :: spinlock
  kernel_pagetable :: u64
  kernel_address :: limine_kernel_address_response
  io_memmap_current_address :: u64
  cr3 :: u64
  first_pagecache_entries :: u64
  pagecache_entries_lock :: spinlock
  victim_entry_frames :: u64
  victim_entry_index :: u32
  nvme_cap :: u64
  admin_queue :: nvme_queue
  io_queue :: nvme_queue
  total_blocks :: u64
  block_size :: u32
  next_command_id :: u16
  nvme_ctrl :: 'd
  nvme_store4 :: "u64 \<Rightarrow> u32 \<Rightarrow> 'd \<times> mem \<Rightarrow> 'd \<times> mem"

text \<open>\<open>V2P\<close> and \<open>P2V\<close> of \<^verbatim>\<open>src/kernel/mem/mem.h\<close>.\<close>

definition V2P :: "('d, 'z) kernel_scheme \<Rightarrow> u64 \<Rightarrow> u64" where
  "V2P s ptr = ptr - hhdm_offset s"

definition P2V :: "('d, 'z) kernel_scheme \<Rightarrow> u64 \<Rightarrow> u64" where
  "P2V s ptr = ptr + hhdm_offset s"

definition PAGE_SIZE :: u64 where
  "PAGE_SIZE = 4096"

definition PAGE_ROUND_UP :: "u64 \<Rightarrow> u64" where
  "PAGE_ROUND_UP sz = (sz + PAGE_SIZE - 1) AND NOT (PAGE_SIZE - 1)"

section \<open>Locks that are global variables\<close>

text \<open>The lock is named by its field: how to read it and how to change it.\<close>

definition klock ::
  "(('d, 'z) kernel_scheme \<Rightarrow> spinlock) \<Rightarrow>
   ((spinlock \<Rightarrow> spinlock) \<Rightarrow> ('d, 'z) kernel_scheme \<Rightarrow> ('d, 'z) kernel_scheme) \<Rightarrow>
   (('d, 'z) kernel_scheme, unit) kern" where
  "klock get upd s =
     (case spinlock_lock (get s) (cpu s) of
        Ok (l, c) \<Rightarrow> Ok ((), (upd (\<lambda>_. l) s)\<lparr>cpu := c\<rparr>)
      | Panic e \<Rightarrow> Panic e | Hang \<Rightarrow> Hang | Undef \<Rightarrow> Undef)"

definition kunlock ::
  "(('d, 'z) kernel_scheme \<Rightarrow> spinlock) \<Rightarrow>
   ((spinlock \<Rightarrow> spinlock) \<Rightarrow> ('d, 'z) kernel_scheme \<Rightarrow> ('d, 'z) kernel_scheme) \<Rightarrow>
   (('d, 'z) kernel_scheme, unit) kern" where
  "kunlock get upd s =
     (case spinlock_unlock (get s) (cpu s) of
        Ok (l, c) \<Rightarrow> Ok ((), (upd (\<lambda>_. l) s)\<lparr>cpu := c\<rparr>)
      | Panic e \<Rightarrow> Panic e | Hang \<Rightarrow> Hang | Undef \<Rightarrow> Undef)"

text \<open>
  What a lock field promises to the code that brackets a critical section with it: reading and
  writing it are independent of the core.
\<close>

locale lock_field =
  fixes get :: "('d, 'z) kernel_scheme \<Rightarrow> spinlock"
    and upd :: "(spinlock \<Rightarrow> spinlock) \<Rightarrow> ('d, 'z) kernel_scheme \<Rightarrow> ('d, 'z) kernel_scheme"
  assumes get_upd [simp]: "get (upd f s) = f (get s)"
    and upd_upd [simp]: "upd f (upd g s) = upd (f \<circ> g) s"
    and upd_get: "f (get s) = get s \<Longrightarrow> upd f s = s"
    and cpu_upd [simp]: "cpu (upd f s) = cpu s"
    and get_cpu [simp]: "get (cpu_update h s) = get s"
    and upd_cpu: "upd f (cpu_update h s) = cpu_update h (upd f s)"
begin

definition entered :: "('d, 'z) kernel_scheme \<Rightarrow> ('d, 'z) kernel_scheme" where
  "entered s = (upd (\<lambda>_. held_lock (cpu s)) s)\<lparr>cpu := save_and_disable_interrupts (cpu s)\<rparr>"

lemma lock_free:
  "cpu_ok (cpu s) \<Longrightarrow> get s = unlocked_lock \<Longrightarrow> klock get upd s = Ok ((), entered s)"
  by (simp add: klock_def spinlock_lock_free entered_def unlocked_lock_def)

lemma unlock_entered:
  assumes "cpu_ok (cpu s)" and "get s1 = held_lock (cpu s)"
    and "cpu s1 = save_and_disable_interrupts (cpu s)"
  shows "kunlock get upd s1 = Ok ((), (upd (\<lambda>_. unlocked_lock) s1)\<lparr>cpu := settled (cpu s)\<rparr>)"
  using assms by (simp add: kunlock_def spinlock_unlock_held)

lemma leave_entered:
  assumes "cpu_ok (cpu s)" and "get s = unlocked_lock"
  shows "kunlock get upd (entered s) = Ok ((), s\<lparr>cpu := settled (cpu s)\<rparr>)"
proof -
  have "upd (\<lambda>_. unlocked_lock) (entered s) = (upd (\<lambda>_. unlocked_lock) s)\<lparr>cpu := save_and_disable_interrupts (cpu s)\<rparr>"
    by (simp add: entered_def upd_cpu comp_def)
  also have "upd (\<lambda>_. unlocked_lock) s = s" using assms(2) by (intro upd_get) simp
  finally show ?thesis
    using unlock_entered [OF assms(1), of "entered s"] by (simp add: entered_def)
qed

lemma bracket:
  assumes "cpu_ok (cpu s)" and "get s = unlocked_lock"
    and "body (entered s) = Ok (r, s1)"
    and "get s1 = held_lock (cpu s)" and "cpu s1 = save_and_disable_interrupts (cpu s)"
  shows "kbind (klock get upd) (\<lambda>_. kbind body (\<lambda>r. kbind (kunlock get upd) (\<lambda>_. kret r))) s =
    Ok (r, (upd (\<lambda>_. unlocked_lock) s1)\<lparr>cpu := settled (cpu s)\<rparr>)"
  using assms by (simp add: lock_free unlock_entered)

end

interpretation fpl: lock_field freepages_lock freepages_lock_update
  by unfold_locales simp_all

interpretation pcl: lock_field pagecache_entries_lock pagecache_entries_lock_update
  by unfold_locales simp_all

section \<open>A small machine\<close>

text \<open>
  The state of the kernel before \<open>init_mem\<close>, on a machine whose memory is zero and whose NVMe
  controller does nothing; theorems with hypotheses are instantiated at it.
\<close>

definition boot_cpu :: cpu where
  "boot_cpu = \<lparr>scratchpad = 0, cpuid = 0, depth = 0, was_enabled = False, lapic = 0,
     running_process = None, last_running_process = None, rflags_IF = False\<rparr>"

definition idle_queue :: nvme_queue where
  "idle_queue = \<lparr>submission_queue = 0, completion_queue = 0, submission_queue_tail = 0,
     completion_queue_head = 0, queue_index = 0, queue_size = 0,
     completion_queue_current_phase = 0\<rparr>"

definition boot_kernel :: "unit kernel" where
  "boot_kernel = \<lparr>mem = (\<lambda>_. 0), cpu = boot_cpu, hhdm_offset = 0xffff800000000000, freepages = 0,
     freepages_lock = unlocked_lock, kernel_pagetable = 0,
     kernel_address = \<lparr>revision = 0, physical_base = 0, virtual_base = 0\<rparr>,
     io_memmap_current_address = 0xfffffffff0000000, cr3 = 0,
     first_pagecache_entries = 0xffffffff80100000, pagecache_entries_lock = unlocked_lock,
     victim_entry_frames = 0, victim_entry_index = 0, nvme_cap = 0, admin_queue = idle_queue,
     io_queue = idle_queue, total_blocks = 0, block_size = 512, next_command_id = 0,
     nvme_ctrl = (), nvme_store4 = (\<lambda>_ _ x. x)\<rparr>"

lemma cpu_ok_boot_cpu [simp]: "cpu_ok boot_cpu" "settled boot_cpu = boot_cpu"
  by (simp_all add: boot_cpu_def cpu_ok_def settled_def)

end
