(* ===== verification/Mem.thy ===== *)
theory Mem
  imports Lib KState
begin

text \<open>
  The physical page allocator, \<^verbatim>\<open>src/kernel/mem/mem.c\<close>: free pages form a linked
  list whose links are stored in the first eight bytes of the pages themselves. \<open>kalloc\<close> falls
  back on stealing a page from the page cache; that routine is an argument here and is supplied in
  \<^verbatim>\<open>Pagecache\<close>, where the cycle between the two files is closed.
\<close>

section \<open>Definitions\<close>

definition kfree :: "u64 \<Rightarrow> (('d, 'z) kernel_scheme, unit) kern" where
  "kfree page =
     kbind (kgets (\<lambda>s. V2P s page)) (\<lambda>physical_address.
     kbind (kassert (physical_address mod PAGE_SIZE = 0) ''kfree'') (\<lambda>_.
     kbind (klock freepages_lock freepages_lock_update) (\<lambda>_.
     kbind (kmodify (\<lambda>s. s\<lparr>mem := store64 (mem s) page (freepages s)\<rparr>)) (\<lambda>_.
     kbind (kmodify (\<lambda>s. s\<lparr>freepages := page\<rparr>)) (\<lambda>_.
     kunlock freepages_lock freepages_lock_update)))))"

definition kalloc_for_page_cache :: "(('d, 'z) kernel_scheme, u64) kern" where
  "kalloc_for_page_cache =
     kbind (klock freepages_lock freepages_lock_update) (\<lambda>_.
     kbind (kgets freepages) (\<lambda>page.
     kbind (if page \<noteq> 0 then kmodify (\<lambda>s. s\<lparr>freepages := load64 (mem s) (freepages s)\<rparr>)
            else kret ()) (\<lambda>_.
     kbind (kunlock freepages_lock freepages_lock_update) (\<lambda>_.
     kret page))))"

definition kalloc_with ::
  "(('d, 'z) kernel_scheme, u64) kern \<Rightarrow> (('d, 'z) kernel_scheme, u64) kern" where
  "kalloc_with pagecache_steal =
     kbind kalloc_for_page_cache (\<lambda>page0.
     kbind (if page0 = 0 then pagecache_steal else kret page0) (\<lambda>page.
     kbind (if page \<noteq> 0 then kmodify (\<lambda>s. s\<lparr>mem := memset page 2 PAGE_SIZE (mem s)\<rparr>)
            else kret ()) (\<lambda>_.
     kret page)))"

text \<open>An entry of the memory map the boot loader hands over.\<close>

record limine_memmap_entry =
  entry_base :: u64
  entry_length :: u64
  entry_type :: u64

definition LIMINE_MEMMAP_USABLE :: u64 where
  "LIMINE_MEMMAP_USABLE = 0"

text \<open>The inner loop of \<open>init_mem\<close>, by the number of pages left; it counts them.\<close>

primrec init_mem_pages :: "nat \<Rightarrow> u64 \<Rightarrow> u64 \<Rightarrow> (('d, 'z) kernel_scheme, u64) kern" where
  "init_mem_pages 0 current_page total_free_pages = kret total_free_pages"
| "init_mem_pages (Suc k) current_page total_free_pages =
     kbind (kgets (\<lambda>s. P2V s current_page)) (\<lambda>page.
     kbind (kfree page) (\<lambda>_.
     init_mem_pages k (current_page + PAGE_SIZE) (total_free_pages + 1)))"

primrec init_mem_entries ::
  "limine_memmap_entry list \<Rightarrow> u64 \<Rightarrow> (('d, 'z) kernel_scheme, u64) kern" where
  "init_mem_entries [] total_free_pages = kret total_free_pages"
| "init_mem_entries (entry # entries) total_free_pages =
     kbind (if entry_type entry = LIMINE_MEMMAP_USABLE
            then kbind (kassert (\<not> (entry_base entry mod PAGE_SIZE \<noteq> 0 \<or> entry_length entry mod PAGE_SIZE \<noteq> 0))
                          ''init_mem align'') (\<lambda>_.
                 init_mem_pages (unat (entry_length entry div PAGE_SIZE)) (entry_base entry) total_free_pages)
            else kret total_free_pages) (\<lambda>total.
     init_mem_entries entries total)"

definition init_mem ::
  "u64 \<Rightarrow> limine_memmap_entry list \<Rightarrow> (('d, 'z) kernel_scheme, u64) kern" where
  "init_mem hhdm_offset_local memory_map =
     kbind (kmodify (\<lambda>s. s\<lparr>hhdm_offset := hhdm_offset_local\<rparr>)) (\<lambda>_.
     init_mem_entries memory_map 0)"

section \<open>The free list\<close>

primrec free_list :: "mem \<Rightarrow> u64 \<Rightarrow> u64 list \<Rightarrow> bool" where
  "free_list m p [] \<longleftrightarrow> p = 0"
| "free_list m p (a # as) \<longleftrightarrow> p = a \<and> a \<noteq> 0 \<and> page_aligned a \<and> free_list m (load64 m a) as"

definition pool :: "u64 list \<Rightarrow> ('d, 'z) kernel_scheme \<Rightarrow> bool" where
  "pool fl s \<longleftrightarrow> free_list (mem s) (freepages s) fl \<and> freepages_lock s = unlocked_lock \<and>
     cpu_ok (cpu s) \<and> page_aligned (hhdm_offset s)"

lemma free_list_unique: "free_list m p as \<Longrightarrow> free_list m p bs \<Longrightarrow> as = bs"
proof (induction as arbitrary: p bs)
  case Nil
  then show ?case by (cases bs) auto
next
  case (Cons a as)
  then show ?case by (cases bs) auto
qed

lemma free_list_suffix: "free_list m p (as @ bs) \<Longrightarrow> \<exists>q. free_list m q bs"
  by (induction as arbitrary: p) auto

lemma free_list_distinct: "free_list m p as \<Longrightarrow> distinct as"
proof (induction as arbitrary: p)
  case (Cons a as)
  have "a \<notin> set as"
  proof
    assume "a \<in> set as"
    then obtain xs ys where s: "as = xs @ a # ys" by (meson split_list)
    with Cons.prems obtain q where "free_list m q (a # ys)"
      using free_list_suffix [of m p "a # xs" "a # ys"] by auto
    then have "free_list m (load64 m a) ys" by simp
    moreover have "free_list m (load64 m a) as" using Cons.prems by simp
    ultimately have "as = ys" by (rule free_list_unique [symmetric])
    then have "length as = length ys" by simp
    with s show False by simp
  qed
  with Cons.IH [of "load64 m a"] Cons.prems show ?case by simp
qed simp

lemma free_list_aligned: "free_list m p as \<Longrightarrow> a \<in> set as \<Longrightarrow> page_aligned a \<and> a \<noteq> 0"
  by (induction as arbitrary: p) auto

lemma free_list_cong:
  "(\<And>a. a \<in> set as \<Longrightarrow> load64 m a = load64 m' a) \<Longrightarrow> free_list m p as = free_list m' p as"
  by (induction as arbitrary: p) auto

lemma free_list_same_page:
  assumes "free_list m p as" and "\<And>a. a \<in> set as \<Longrightarrow> same_page m m' (pageno a)"
  shows "free_list m' p as"
proof -
  have "load64 m a = load64 m' a" if "a \<in> set as" for a
    using assms that by (intro load64_same_page page_aligned_8) (auto dest: free_list_aligned)
  then show ?thesis using assms(1) free_list_cong by blast
qed

section \<open>Freeing and allocating\<close>

lemma V2P_aligned:
  "page_aligned (hhdm_offset s) \<Longrightarrow> V2P s page mod PAGE_SIZE = 0 \<longleftrightarrow> page_aligned page"
  by (simp add: V2P_def PAGE_SIZE_def page_aligned_diff flip: page_aligned_mod)

lemma kfree_eq:
  assumes "pool fl s" and "page_aligned page"
  shows "kfree page s = Ok ((), s\<lparr>mem := store64 (mem s) page (freepages s), freepages := page,
     cpu := settled (cpu s)\<rparr>)"
  using assms
  by (cases s) (simp add: kfree_def pool_def V2P_aligned fpl.lock_free fpl.unlock_entered [of s]
     fpl.entered_def)

lemma kfree_misaligned:
  "page_aligned (hhdm_offset s) \<Longrightarrow> \<not> page_aligned page \<Longrightarrow> kfree page s = Panic ''kfree''"
  by (simp add: kfree_def V2P_aligned)

lemma kalloc_for_page_cache_eq:
  assumes "pool fl s"
  shows "kalloc_for_page_cache s = (case fl of
      [] \<Rightarrow> Ok (0, s\<lparr>cpu := settled (cpu s)\<rparr>)
    | p # _ \<Rightarrow> Ok (p, s\<lparr>freepages := load64 (mem s) p, cpu := settled (cpu s)\<rparr>))"
  using assms
  by (cases s; cases fl)
    (auto simp: kalloc_for_page_cache_def pool_def fpl.lock_free fpl.unlock_entered [of s]
      fpl.entered_def)

lemma free_list_store_link:
  assumes "free_list m p fl" and "page_aligned a" and "a \<notin> set fl"
  shows "free_list (store64 m a v) p fl"
  using assms(1)
proof (rule free_list_same_page)
  fix b assume "b \<in> set fl"
  with assms have "page_aligned b" "a \<noteq> b" by (auto dest: free_list_aligned)
  then show "same_page m (store64 m a v) (pageno b)"
    using assms(2) by (simp add: same_page_store64 page_aligned_8 page_aligned_eq)
qed

lemma pool_kfree:
  assumes "pool fl s" and "page_aligned page" and "page \<noteq> 0" and "page \<notin> set fl"
  shows "\<exists>s'. kfree page s = Ok ((), s') \<and> pool (page # fl) s' \<and> hhdm_offset s' = hhdm_offset s"
  using assms free_list_store_link [of "mem s" "freepages s" fl page]
  by (simp add: kfree_eq [OF assms(1,2)]) (simp add: pool_def)

lemma pool_kalloc_for_page_cache:
  assumes "pool (p # fl) s"
  shows "\<exists>s'. kalloc_for_page_cache s = Ok (p, s') \<and> pool fl s'"
  using assms by (simp add: kalloc_for_page_cache_eq [OF assms]) (simp add: pool_def)

lemma pool_kalloc_for_page_cache_Nil:
  assumes "pool [] s"
  shows "\<exists>s'. kalloc_for_page_cache s = Ok (0, s') \<and> pool [] s'"
  using assms by (simp add: kalloc_for_page_cache_eq [OF assms]) (simp add: pool_def)

section \<open>The contract of a pool of pages\<close>

text \<open>
  What the allocator promises to its clients: a pool is a list of page addresses, freeing pushes and
  allocating pops. The pages freed one after the other come back in the opposite order.
\<close>

primrec free_all :: "('p \<Rightarrow> 's \<Rightarrow> (unit \<times> 's) outcome) \<Rightarrow> 'p list \<Rightarrow> ('s, unit) kern" where
  "free_all free [] = kret ()"
| "free_all free (p # ps) = kbind (free p) (\<lambda>_. free_all free ps)"

primrec grab_many :: "('s \<Rightarrow> ('p \<times> 's) outcome) \<Rightarrow> nat \<Rightarrow> ('s, 'p list) kern" where
  "grab_many grab 0 = kret []"
| "grab_many grab (Suc n) = kbind grab (\<lambda>p. kbind (grab_many grab n) (\<lambda>ps. kret (p # ps)))"

locale page_pool =
  fixes holds :: "'p list \<Rightarrow> 's \<Rightarrow> bool"
    and is_page :: "'p \<Rightarrow> bool"
    and free :: "'p \<Rightarrow> 's \<Rightarrow> (unit \<times> 's) outcome"
    and grab :: "'s \<Rightarrow> ('p \<times> 's) outcome"
  assumes free_pushes: "holds fl s \<Longrightarrow> is_page p \<Longrightarrow> p \<notin> set fl \<Longrightarrow>
      \<exists>s'. free p s = Ok ((), s') \<and> holds (p # fl) s'"
    and grab_pops: "holds (p # fl) s \<Longrightarrow> \<exists>s'. grab s = Ok (p, s') \<and> holds fl s'"
    and holds_distinct: "holds fl s \<Longrightarrow> distinct fl"
    and holds_pages: "holds fl s \<Longrightarrow> p \<in> set fl \<Longrightarrow> is_page p"
begin

lemma free_all_pushes:
  "holds fl s \<Longrightarrow> distinct ps \<Longrightarrow> set ps \<inter> set fl = {} \<Longrightarrow> \<forall>p\<in>set ps. is_page p \<Longrightarrow>
   \<exists>s'. free_all free ps s = Ok ((), s') \<and> holds (rev ps @ fl) s'"
proof (induction ps arbitrary: fl s)
  case (Cons p ps)
  then obtain s1 where s1: "free p s = Ok ((), s1)" "holds (p # fl) s1"
    using free_pushes [of fl s p] by auto
  with Cons.prems Cons.IH [of "p # fl" s1] show ?case by auto
qed simp

lemma grab_many_pops:
  "holds (ps @ fl) s \<Longrightarrow> \<exists>s'. grab_many grab (length ps) s = Ok (ps, s') \<and> holds fl s'"
proof (induction ps arbitrary: s)
  case (Cons p ps)
  then obtain s1 where "grab s = Ok (p, s1)" "holds (ps @ fl) s1"
    using grab_pops [of p "ps @ fl" s] by auto
  with Cons.IH [of s1] show ?case by auto
qed simp

lemma grabbed_pages: "holds (ps @ fl) s \<Longrightarrow> distinct ps \<and> set ps \<inter> set fl = {} \<and> (\<forall>p\<in>set ps. is_page p)"
  using holds_distinct [of "ps @ fl" s] holds_pages [of "ps @ fl" s] by auto

end

definition is_free_page :: "u64 \<Rightarrow> bool" where
  "is_free_page p \<longleftrightarrow> page_aligned p \<and> p \<noteq> 0"

interpretation kpool: page_pool pool is_free_page kfree kalloc_for_page_cache
proof
  fix fl :: "u64 list" and s :: "('d, 'z) kernel_scheme" and p
  show "pool fl s \<Longrightarrow> is_free_page p \<Longrightarrow> p \<notin> set fl \<Longrightarrow>
      \<exists>s'. kfree p s = Ok ((), s') \<and> pool (p # fl) s'"
    using pool_kfree [of fl s p] by (auto simp: is_free_page_def)
  show "pool (p # fl) s \<Longrightarrow> \<exists>s'. kalloc_for_page_cache s = Ok (p, s') \<and> pool fl s'"
    by (rule pool_kalloc_for_page_cache)
  show "pool fl s \<Longrightarrow> distinct fl"
    by (auto simp: pool_def dest: free_list_distinct)
  show "pool fl s \<Longrightarrow> p \<in> set fl \<Longrightarrow> is_free_page p"
    by (auto simp: pool_def is_free_page_def dest: free_list_aligned)
qed

lemma pool_boot_kernel: "pool [] boot_kernel"
  by (simp add: pool_def boot_kernel_def page_aligned_def)

text \<open>
  C5. Freeing and allocating are inverse: pages freed into a well-formed pool come back from as many
  allocations, the last one freed first, and the pool is then what it was. No page is lost, invented
  or handed out twice, and every lock is released again.
\<close>

theorem kfree_then_kalloc:
  assumes "pool fl s" and "distinct ps" and "set ps \<inter> set fl = {}" and "\<forall>p\<in>set ps. is_free_page p"
  shows "\<exists>s1 s2. free_all kfree ps s = Ok ((), s1) \<and> pool (rev ps @ fl) s1 \<and>
     grab_many kalloc_for_page_cache (length ps) s1 = Ok (rev ps, s2) \<and> pool fl s2"
proof -
  from kpool.free_all_pushes [OF assms] obtain s1
    where s1: "free_all kfree ps s = Ok ((), s1)" "pool (rev ps @ fl) s1" by blast
  moreover from kpool.grab_many_pops [OF s1(2)] obtain s2
    where "grab_many kalloc_for_page_cache (length ps) s1 = Ok (rev ps, s2)" "pool fl s2" by auto
  ultimately show ?thesis by blast
qed

theorem kfree_then_kalloc_witness:
  "\<exists>s1 s2. free_all kfree [0xffff800000001000, 0xffff800000002000] boot_kernel = Ok ((), s1) \<and>
     pool (rev [0xffff800000001000, 0xffff800000002000] @ []) s1 \<and>
     grab_many kalloc_for_page_cache (length [0xffff800000001000, 0xffff800000002000 :: u64]) s1
       = Ok (rev [0xffff800000001000, 0xffff800000002000], s2) \<and> pool [] s2"
  by (rule kfree_then_kalloc)
    (simp_all add: pool_boot_kernel is_free_page_def page_aligned_def)

section \<open>Initialisation\<close>

text \<open>The pages of a region, and of the usable regions of a memory map, in the order they are freed.\<close>

primrec page_range :: "nat \<Rightarrow> u64 \<Rightarrow> u64 \<Rightarrow> u64 list" where
  "page_range 0 hhdm current_page = []"
| "page_range (Suc k) hhdm current_page = (current_page + hhdm) # page_range k hhdm (current_page + 4096)"

definition usable_pages :: "u64 \<Rightarrow> limine_memmap_entry list \<Rightarrow> u64 list" where
  "usable_pages hhdm es = concat (map
     (\<lambda>e. page_range (unat (entry_length e div 4096)) hhdm (entry_base e))
     (filter (\<lambda>e. entry_type e = LIMINE_MEMMAP_USABLE) es))"

definition map_aligned :: "limine_memmap_entry list \<Rightarrow> bool" where
  "map_aligned es \<longleftrightarrow> (\<forall>e\<in>set es. entry_type e = LIMINE_MEMMAP_USABLE \<longrightarrow>
     page_aligned (entry_base e) \<and> page_aligned (entry_length e))"

lemma page_range_length [simp]: "length (page_range k hhdm p) = k"
  by (induction k arbitrary: p) auto

lemma init_mem_pages_pool:
  assumes "pool fl s" and "page_aligned p" and "distinct (page_range k (hhdm_offset s) p @ fl)"
    and "0 \<notin> set (page_range k (hhdm_offset s) p)"
  shows "\<exists>s'. init_mem_pages k p t s = Ok (t + of_nat k, s') \<and>
     pool (rev (page_range k (hhdm_offset s) p) @ fl) s' \<and> hhdm_offset s' = hhdm_offset s"
  using assms
proof (induction k arbitrary: fl s p t)
  case (Suc k)
  let ?q = "p + hhdm_offset s"
  have h: "page_aligned (hhdm_offset s)" using Suc.prems(1) by (simp add: pool_def)
  then have "page_aligned ?q" using Suc.prems(2) by (simp add: page_aligned_add)
  then obtain s1 where s1: "kfree ?q s = Ok ((), s1)" "pool (?q # fl) s1" "hhdm_offset s1 = hhdm_offset s"
    using pool_kfree [of fl s ?q] Suc.prems by auto
  have "page_aligned (p + 4096)"
    using Suc.prems(2) page_aligned_add [of 4096 p] by (simp add: page_aligned_def)
  then have "\<exists>s'. init_mem_pages k (p + 4096) (t + 1) s1 = Ok (t + 1 + of_nat k, s') \<and>
     pool (rev (page_range k (hhdm_offset s1) (p + 4096)) @ (?q # fl)) s' \<and>
     hhdm_offset s' = hhdm_offset s1"
    using s1 Suc.prems by (intro Suc.IH) auto
  with s1 show ?case by (auto simp: P2V_def PAGE_SIZE_def add_ac)
qed simp

lemma init_mem_entries_pool:
  assumes "pool fl s" and "map_aligned es" and "distinct (usable_pages (hhdm_offset s) es @ fl)"
    and "0 \<notin> set (usable_pages (hhdm_offset s) es)"
  shows "\<exists>s'. init_mem_entries es t s = Ok (t + of_nat (length (usable_pages (hhdm_offset s) es)), s') \<and>
     pool (rev (usable_pages (hhdm_offset s) es) @ fl) s' \<and> hhdm_offset s' = hhdm_offset s"
  using assms
proof (induction es arbitrary: fl s t)
  case Nil
  then show ?case by (simp add: usable_pages_def)
next
  case (Cons e es)
  show ?case
  proof (cases "entry_type e = LIMINE_MEMMAP_USABLE")
    case True
    let ?k = "unat (entry_length e div 4096)" and ?h = "hhdm_offset s"
    let ?r = "page_range ?k ?h (entry_base e)"
    have u: "usable_pages ?h (e # es) = ?r @ usable_pages ?h es"
      using True by (simp add: usable_pages_def)
    have al: "page_aligned (entry_base e)" "page_aligned (entry_length e)" "map_aligned es"
      using Cons.prems(2) True by (auto simp: map_aligned_def)
    have "\<exists>s1. init_mem_pages ?k (entry_base e) t s = Ok (t + of_nat ?k, s1) \<and>
        pool (rev ?r @ fl) s1 \<and> hhdm_offset s1 = ?h"
      using Cons.prems al u by (intro init_mem_pages_pool) auto
    then obtain s1 where s1: "init_mem_pages ?k (entry_base e) t s = Ok (t + of_nat ?k, s1)"
      "pool (rev ?r @ fl) s1" "hhdm_offset s1 = ?h" by blast
    have "\<exists>s'. init_mem_entries es (t + of_nat ?k) s1 =
        Ok (t + of_nat ?k + of_nat (length (usable_pages (hhdm_offset s1) es)), s') \<and>
        pool (rev (usable_pages (hhdm_offset s1) es) @ (rev ?r @ fl)) s' \<and>
        hhdm_offset s' = hhdm_offset s1"
      using s1 Cons.prems al u by (intro Cons.IH) auto
    with s1 True al u show ?thesis
      by (auto simp: PAGE_SIZE_def add_ac simp flip: page_aligned_mod)
  next
    case False
    then have "usable_pages (hhdm_offset s) (e # es) = usable_pages (hhdm_offset s) es"
      by (simp add: usable_pages_def)
    with False Cons show ?thesis by (simp add: map_aligned_def)
  qed
qed

text \<open>
  C6. \<open>init_mem\<close> puts exactly the pages of the usable regions of the boot loader's memory map on the
  free list, each once, and counts them; no other page is on it.
\<close>

theorem init_mem_correct:
  assumes "pool [] s" and "page_aligned hhdm" and "map_aligned es"
    and "distinct (usable_pages hhdm es)" and "0 \<notin> set (usable_pages hhdm es)"
  shows "\<exists>s'. init_mem hhdm es s = Ok (of_nat (length (usable_pages hhdm es)), s') \<and>
     pool (rev (usable_pages hhdm es)) s' \<and> hhdm_offset s' = hhdm"
proof -
  have "pool [] (s\<lparr>hhdm_offset := hhdm\<rparr>)" using assms(1,2) by (simp add: pool_def)
  from init_mem_entries_pool [OF this assms(3), of 0] assms(4,5) show ?thesis
    by (simp add: init_mem_def)
qed

definition small_map :: "limine_memmap_entry list" where
  "small_map = [\<lparr>entry_base = 0x1000, entry_length = 0x2000, entry_type = 0\<rparr>,
     \<lparr>entry_base = 0x3000, entry_length = 0x123, entry_type = 1\<rparr>]"

lemma usable_small_map:
  "usable_pages 0xffff800000000000 small_map = [0xffff800000001000, 0xffff800000002000]"
proof -
  have "page_range 2 h p = [p + h, p + 4096 + h]" for h p
    by (simp add: numeral_2_eq_2)
  then show ?thesis
    by (simp add: usable_pages_def small_map_def LIMINE_MEMMAP_USABLE_def)
qed

theorem init_mem_correct_witness:
  "\<exists>s'. init_mem 0xffff800000000000 small_map boot_kernel =
       Ok (of_nat (length (usable_pages 0xffff800000000000 small_map)), s') \<and>
     pool (rev (usable_pages 0xffff800000000000 small_map)) s' \<and> hhdm_offset s' = 0xffff800000000000"
proof (rule init_mem_correct [OF pool_boot_kernel])
  show "map_aligned small_map"
    by (simp add: map_aligned_def small_map_def LIMINE_MEMMAP_USABLE_def page_aligned_def)
qed (simp_all add: usable_small_map page_aligned_def)

end
