(* ===== verification/Nvme.thy ===== *)
theory Nvme
  imports Mem
begin

text \<open>
  The command path of the NVMe driver, \<^verbatim>\<open>src/kernel/device/nvme.c\<close>: how a command is
  built in the submission queue, how the doorbells are rung and the completion queue is polled, and
  block reads and writes. The page allocator is an argument of the reads and writes, because
  \<open>kalloc\<close> itself can end up writing a cached block; \<^verbatim>\<open>Pagecache\<close> closes the cycle.
\<close>

section \<open>Registers and queue entries\<close>

definition NVME_CAP_DSTRD :: "u64 \<Rightarrow> u32" where
  "NVME_CAP_DSTRD x = push_bit (unat (2 + (drop_bit 32 x AND 0xf))) 1"

definition NVME_SQTDBL_OFFSET :: "u32 \<Rightarrow> u32 \<Rightarrow> u32" where
  "NVME_SQTDBL_OFFSET QID DSTRD = 0x1000 + (2 * QID) * DSTRD"

definition NVME_CQHDBL_OFFSET :: "u32 \<Rightarrow> u32 \<Rightarrow> u32" where
  "NVME_CQHDBL_OFFSET QID DSTRD = 0x1000 + (2 * QID + 1) * DSTRD"

text \<open>
  A submission queue entry has 64 bytes: \<open>opc\<close> at 0, \<open>cid\<close> at 2, \<open>nsid\<close> at 4, \<open>prp[0]\<close> at 24,
  \<open>cdw10\<close>, \<open>cdw11\<close>, \<open>cdw12\<close> at 40, 44, 48. A completion queue entry has 16, with \<open>flags\<close> at 14.
\<close>

definition sq_slot :: "nvme_queue \<Rightarrow> u64" where
  "sq_slot q = submission_queue q + 64 * ucast (submission_queue_tail q)"

definition cq_flags :: "mem \<Rightarrow> nvme_queue \<Rightarrow> u16" where
  "cq_flags m q = load16 m (completion_queue q + 16 * ucast (completion_queue_head q) + 14)"

definition io_sq_entry :: "u64 \<Rightarrow> u8 \<Rightarrow> u16 \<Rightarrow> u64 \<Rightarrow> u32 \<Rightarrow> u64 \<Rightarrow> mem \<Rightarrow> mem" where
  "io_sq_entry sq opc cid lba cdw12 prp m =
     (let m1 = memset sq 0 64 m;
          m2 = m1(sq := opc);
          m3 = store16 m2 (sq + 2) cid;
          m4 = store32 m3 (sq + 4) 1;
          m5 = store32 m4 (sq + 40) (ucast lba);
          m6 = store32 m5 (sq + 44) (ucast (drop_bit 32 lba));
          m7 = store32 m6 (sq + 48) cdw12
      in store64 m7 (sq + 24) prp)"

definition next_command :: "(('d, 'z) kernel_scheme, u16) kern" where
  "next_command = (\<lambda>s. Ok (next_command_id s, s\<lparr>next_command_id := next_command_id s + 1\<rparr>))"

definition nvme_reg4_store :: "u32 \<Rightarrow> u32 \<Rightarrow> (('d, 'z) kernel_scheme, unit) kern" where
  "nvme_reg4_store off v = (\<lambda>s. case nvme_store4 s (ucast off) v (nvme_ctrl s, mem s) of
     (d, m) \<Rightarrow> Ok ((), s\<lparr>nvme_ctrl := d, mem := m\<rparr>))"

section \<open>One command, synchronously\<close>

text \<open>The indices move forward and wrap at the queue size; the head flips the expected phase.\<close>

definition advance_tail :: "nvme_queue \<Rightarrow> nvme_queue" where
  "advance_tail q =
     (let q1 = q\<lparr>submission_queue_tail := submission_queue_tail q + 1\<rparr>
      in if queue_size q1 - 1 < submission_queue_tail q1 then q1\<lparr>submission_queue_tail := 0\<rparr> else q1)"

definition advance_head :: "nvme_queue \<Rightarrow> nvme_queue" where
  "advance_head q =
     (let q1 = q\<lparr>completion_queue_head := completion_queue_head q + 1\<rparr>
      in if queue_size q1 - 1 < completion_queue_head q1
         then q1\<lparr>completion_queue_head := 0,
                 completion_queue_current_phase := completion_queue_current_phase q1 XOR 1\<rparr>
         else q1)"

definition left_commands :: "nvme_queue \<Rightarrow> u32" where
  "left_commands q =
     (if completion_queue_head q < submission_queue_tail q
      then submission_queue_tail q - completion_queue_head q
      else (queue_size q - completion_queue_head q) + submission_queue_tail q)"

text \<open>
  Polling: the controller has acted when its doorbell was rung, so an entry whose phase has not
  changed by then keeps the driver waiting for ever.
\<close>

primrec poll_completions ::
  "nat \<Rightarrow> (('d, 'z) kernel_scheme \<Rightarrow> nvme_queue) \<Rightarrow>
   ((nvme_queue \<Rightarrow> nvme_queue) \<Rightarrow> ('d, 'z) kernel_scheme \<Rightarrow> ('d, 'z) kernel_scheme) \<Rightarrow>
   (('d, 'z) kernel_scheme, unit) kern" where
  "poll_completions 0 get upd = kret ()"
| "poll_completions (Suc k) get upd =
     kbind (kgets (\<lambda>s. cq_flags (mem s) (get s) AND 1 = ucast (completion_queue_current_phase (get s))))
       (\<lambda>pending.
     if pending then khang
     else kbind (kmodify (upd advance_head)) (\<lambda>_. poll_completions k get upd))"

definition nvme_do_one_cmd_synchronous ::
  "(('d, 'z) kernel_scheme \<Rightarrow> nvme_queue) \<Rightarrow>
   ((nvme_queue \<Rightarrow> nvme_queue) \<Rightarrow> ('d, 'z) kernel_scheme \<Rightarrow> ('d, 'z) kernel_scheme) \<Rightarrow>
   (('d, 'z) kernel_scheme, unit) kern" where
  "nvme_do_one_cmd_synchronous get upd =
     kbind (kmodify (upd advance_tail)) (\<lambda>_.
     kbind (kgets (\<lambda>s. NVME_CAP_DSTRD (nvme_cap s))) (\<lambda>dstrd.
     kbind (kgets get) (\<lambda>q.
     kbind (nvme_reg4_store (NVME_SQTDBL_OFFSET (queue_index q) dstrd) (submission_queue_tail q)) (\<lambda>_.
     kbind (poll_completions (unat (left_commands q)) get upd) (\<lambda>_.
     kbind (kgets get) (\<lambda>q'.
     nvme_reg4_store (NVME_CQHDBL_OFFSET (queue_index q') dstrd) (completion_queue_head q')))))))"

section \<open>Block reads and writes\<close>

text \<open>A null buffer would be written through; that is undefined behaviour.\<close>

definition nvme_write_with ::
  "(('d, 'z) kernel_scheme, u64) kern \<Rightarrow> u64 \<Rightarrow> u32 \<Rightarrow> u64 \<Rightarrow> (('d, 'z) kernel_scheme, unit) kern" where
  "nvme_write_with kalloc lba block_count buffer =
     kbind (kgets (\<lambda>s. block_count * block_size s)) (\<lambda>bytes.
     kbind (kassert (\<not> 4096 < bytes) ''nvme: huge write'') (\<lambda>_.
     kbind kalloc (\<lambda>aligned_buffer.
     if aligned_buffer = 0 then kundef else
     kbind (kmodify (\<lambda>s. s\<lparr>mem := memcpy aligned_buffer buffer (ucast bytes) (mem s)\<rparr>)) (\<lambda>_.
     kbind (kgets (\<lambda>s. sq_slot (io_queue s))) (\<lambda>sq.
     kbind next_command (\<lambda>cid.
     kbind (kmodify (\<lambda>s. s\<lparr>mem := io_sq_entry sq 1 cid lba ((block_count - 1) AND 0xFFFF)
                                     (V2P s aligned_buffer) (mem s)\<rparr>)) (\<lambda>_.
     kbind (nvme_do_one_cmd_synchronous io_queue io_queue_update) (\<lambda>_.
     kfree aligned_buffer))))))))"

definition nvme_read_with ::
  "(('d, 'z) kernel_scheme, u64) kern \<Rightarrow> u64 \<Rightarrow> u32 \<Rightarrow> u64 \<Rightarrow> (('d, 'z) kernel_scheme, unit) kern" where
  "nvme_read_with kalloc lba block_count buffer =
     kbind (kgets (\<lambda>s. block_count * block_size s)) (\<lambda>bytes.
     kbind (kassert (\<not> 4096 < bytes) ''nvme: huge write'') (\<lambda>_.
     kbind kalloc (\<lambda>aligned_buffer.
     if aligned_buffer = 0 then kundef else
     kbind (kgets (\<lambda>s. sq_slot (io_queue s))) (\<lambda>sq.
     kbind next_command (\<lambda>cid.
     kbind (kmodify (\<lambda>s. s\<lparr>mem := io_sq_entry sq 2 cid lba (block_count - 1)
                                     (V2P s aligned_buffer) (mem s)\<rparr>)) (\<lambda>_.
     kbind (nvme_do_one_cmd_synchronous io_queue io_queue_update) (\<lambda>_.
     kbind (kmodify (\<lambda>s. s\<lparr>mem := memcpy buffer aligned_buffer (ucast bytes) (mem s)\<rparr>)) (\<lambda>_.
     kfree aligned_buffer))))))))"

definition nvme_block_size :: "('d, 'z) kernel_scheme \<Rightarrow> u32" where
  "nvme_block_size s = block_size s"

end
