(* ===== verification/Pagecache.thy ===== *)
theory Pagecache
  imports Nvme
begin

text \<open>
  The page cache between the file system and the disk, \<^verbatim>\<open>src/kernel/mem/pagecache.c\<close>, with its
  entries in memory as the C structures lay them out, and the rest of
  \<^verbatim>\<open>src/kernel/mem/mem.c\<close>: \<open>kalloc\<close> steals a page from the cache, stealing writes the block back,
  and writing a block allocates a page, so the three are tied together here.
\<close>

section \<open>Layout\<close>

text \<open>
  A \<open>struct pagecache_entry\<close> has 24 bytes: \<open>cache\<close> at 0, \<open>lock\<close> at 8, \<open>disk_block\<close> at 16, then the
  bytes \<open>dirty\<close>, \<open>valid\<close> and \<open>second_chance\<close>. A \<open>struct pagecache_entries\<close> has 170 of them and the
  pointer to the next one, 4088 bytes in all.
\<close>

definition entry_size :: u64 where
  "entry_size = 24"

definition entries_size :: u64 where
  "entries_size = 4088"

definition PAGECACHE_ENTRY_COUNT :: nat where
  "PAGECACHE_ENTRY_COUNT = 170"

definition entry_at :: "u64 \<Rightarrow> nat \<Rightarrow> u64" where
  "entry_at frame i = frame + entry_size * of_nat i"

definition entry_cache :: "mem \<Rightarrow> u64 \<Rightarrow> u64" where
  "entry_cache m e = load64 m e"

definition entry_disk_block :: "mem \<Rightarrow> u64 \<Rightarrow> u32" where
  "entry_disk_block m e = load32 m (e + 16)"

definition entry_valid :: "mem \<Rightarrow> u64 \<Rightarrow> bool" where
  "entry_valid m e = (m (e + 21) \<noteq> 0)"

definition entry_second_chance :: "mem \<Rightarrow> u64 \<Rightarrow> bool" where
  "entry_second_chance m e = (m (e + 22) \<noteq> 0)"

definition next_entries :: "mem \<Rightarrow> u64 \<Rightarrow> u64" where
  "next_entries m frame = load64 m (frame + 4080)"

definition set_mem :: "(mem \<Rightarrow> mem) \<Rightarrow> (('d, 'z) kernel_scheme, unit) kern" where
  "set_mem f = kmodify (\<lambda>s. s\<lparr>mem := f (mem s)\<rparr>)"

definition set_cache :: "u64 \<Rightarrow> u64 \<Rightarrow> mem \<Rightarrow> mem" where
  "set_cache e p m = store64 m e p"

definition set_disk_block :: "u64 \<Rightarrow> u32 \<Rightarrow> mem \<Rightarrow> mem" where
  "set_disk_block e b m = store32 m (e + 16) b"

definition set_dirty :: "u64 \<Rightarrow> bool \<Rightarrow> mem \<Rightarrow> mem" where
  "set_dirty e b m = m(e + 20 := of_bool b)"

definition set_valid :: "u64 \<Rightarrow> bool \<Rightarrow> mem \<Rightarrow> mem" where
  "set_valid e b m = m(e + 21 := of_bool b)"

definition set_second_chance :: "u64 \<Rightarrow> bool \<Rightarrow> mem \<Rightarrow> mem" where
  "set_second_chance e b m = m(e + 22 := of_bool b)"

definition entry_lock :: "u64 \<Rightarrow> ('d, 'z) kernel_scheme \<Rightarrow> spinlock" where
  "entry_lock e s = \<lparr>locked = load32 (mem s) (e + 8), holding_cpu = load32 (mem s) (e + 12)\<rparr>"

definition entry_lock_update ::
  "u64 \<Rightarrow> (spinlock \<Rightarrow> spinlock) \<Rightarrow> ('d, 'z) kernel_scheme \<Rightarrow> ('d, 'z) kernel_scheme" where
  "entry_lock_update e f s = (let l = f (entry_lock e s) in
     s\<lparr>mem := store32 (store32 (mem s) (e + 8) (locked l)) (e + 12) (holding_cpu l)\<rparr>)"

section \<open>Operations\<close>

text \<open>Dividing by a block size of zero is undefined.\<close>

definition pagecache_nvme_read_with ::
  "(u64 \<Rightarrow> u32 \<Rightarrow> u64 \<Rightarrow> (('d, 'z) kernel_scheme, unit) kern) \<Rightarrow>
   u32 \<Rightarrow> u64 \<Rightarrow> (('d, 'z) kernel_scheme, unit) kern" where
  "pagecache_nvme_read_with nvme_read block_index data =
     kbind (kgets nvme_block_size) (\<lambda>bs.
     if bs = 0 then kundef else nvme_read (ucast block_index) (4096 div bs) data)"

definition pagecache_nvme_write_with ::
  "(u64 \<Rightarrow> u32 \<Rightarrow> u64 \<Rightarrow> (('d, 'z) kernel_scheme, unit) kern) \<Rightarrow>
   u32 \<Rightarrow> u64 \<Rightarrow> (('d, 'z) kernel_scheme, unit) kern" where
  "pagecache_nvme_write_with nvme_write block_index data =
     kbind (kgets nvme_block_size) (\<lambda>bs.
     if bs = 0 then kundef else nvme_write (ucast block_index) (4096 div bs) data)"

text \<open>
  The clock. The loop may run for ever, which is the result \<open>None\<close>; otherwise it ends at an entry
  to evict or, after wrapping around three times, at \<open>NULL\<close>.
\<close>

definition victim_entry :: "('d, 'z) kernel_scheme \<Rightarrow> u64" where
  "victim_entry s = victim_entry_frames s + entry_size * scast (victim_entry_index s)"

definition advance_victim ::
  "u32 \<Rightarrow> ('d, 'z) kernel_scheme \<Rightarrow> u32 \<times> ('d, 'z) kernel_scheme" where
  "advance_victim wrap_around_counter s =
     (if victim_entry_index s = of_nat PAGECACHE_ENTRY_COUNT - 1
      then let s1 = s\<lparr>victim_entry_index := 0,
                      victim_entry_frames := next_entries (mem s) (victim_entry_frames s)\<rparr>
           in if victim_entry_frames s1 = 0
              then (wrap_around_counter + 1, s1\<lparr>victim_entry_frames := first_pagecache_entries s1\<rparr>)
              else (wrap_around_counter, s1)
      else (wrap_around_counter, s\<lparr>victim_entry_frames := victim_entry_frames s + entries_size\<rparr>))"

partial_function (option) clock_loop ::
  "u32 \<Rightarrow> ('d, 'z) kernel_scheme \<Rightarrow> (u64 \<times> ('d, 'z) kernel_scheme) option" where
  "clock_loop wrap_around_counter s =
     (let (wrap, s1) = advance_victim wrap_around_counter s; e = victim_entry s1 in
      if wrap_around_counter < wrap \<and> 2 < wrap then Some (0, s1)
      else if \<not> entry_valid (mem s1) e then clock_loop wrap s1
      else if entry_second_chance (mem s1) e then Some (e, s1)
      else clock_loop wrap (s1\<lparr>mem := set_second_chance e True (mem s1)\<rparr>))"

definition pagecache_do_steal_with ::
  "(u32 \<Rightarrow> u64 \<Rightarrow> (('d, 'z) kernel_scheme, unit) kern) \<Rightarrow> (('d, 'z) kernel_scheme, u64) kern" where
  "pagecache_do_steal_with pagecache_nvme_write =
     kbind (kgets victim_entry_frames) (\<lambda>entry_frames.
     kbind (kassert (entry_frames \<noteq> 0) ''next_eviction_victim.entry_frame is null'') (\<lambda>_.
     kbind (\<lambda>s. case clock_loop 0 s of None \<Rightarrow> Hang | Some r \<Rightarrow> Ok r) (\<lambda>current_frame.
     if current_frame = 0 then kret 0 else
     kbind (set_mem (set_valid current_frame False)) (\<lambda>_.
     kbind (kgets (\<lambda>s. entry_disk_block (mem s) current_frame)) (\<lambda>disk_block.
     kbind (kgets (\<lambda>s. entry_cache (mem s) current_frame)) (\<lambda>cache.
     kbind (pagecache_nvme_write disk_block cache) (\<lambda>_.
     kgets (\<lambda>s. entry_cache (mem s) current_frame))))))))"

definition pagecache_steal_with ::
  "(u32 \<Rightarrow> u64 \<Rightarrow> (('d, 'z) kernel_scheme, unit) kern) \<Rightarrow> (('d, 'z) kernel_scheme, u64) kern" where
  "pagecache_steal_with pagecache_nvme_write =
     kbind (klock pagecache_entries_lock pagecache_entries_lock_update) (\<lambda>_.
     kbind (pagecache_do_steal_with pagecache_nvme_write) (\<lambda>result.
     kbind (kunlock pagecache_entries_lock pagecache_entries_lock_update) (\<lambda>_.
     kret result)))"

text \<open>
  The cycle \<open>kalloc\<close>, \<open>pagecache_steal\<close>, \<open>nvme_write\<close>, \<open>kalloc\<close>, unfolded \<open>n\<close> times. Twice is
  enough, whatever the state (lemma \<open>kalloc_n_enough\<close>): the inner \<open>kalloc\<close> runs with
  \<open>pagecache_entries_lock\<close> held and stops there if it, too, wants to steal.
\<close>

primrec kalloc_n :: "nat \<Rightarrow> (('d, 'z) kernel_scheme, u64) kern" where
  "kalloc_n 0 = kundef"
| "kalloc_n (Suc n) =
     kalloc_with (pagecache_steal_with (pagecache_nvme_write_with (nvme_write_with (kalloc_n n))))"

definition kalloc :: "(('d, 'z) kernel_scheme, u64) kern" where
  "kalloc = kalloc_n 2"

definition kcalloc :: "(('d, 'z) kernel_scheme, u64) kern" where
  "kcalloc =
     kbind kalloc (\<lambda>page.
     kbind (if page \<noteq> 0 then set_mem (memset page 0 PAGE_SIZE) else kret ()) (\<lambda>_.
     kret page))"

definition nvme_write :: "u64 \<Rightarrow> u32 \<Rightarrow> u64 \<Rightarrow> (('d, 'z) kernel_scheme, unit) kern" where
  "nvme_write = nvme_write_with kalloc"

definition nvme_read :: "u64 \<Rightarrow> u32 \<Rightarrow> u64 \<Rightarrow> (('d, 'z) kernel_scheme, unit) kern" where
  "nvme_read = nvme_read_with kalloc"

definition pagecache_steal :: "(('d, 'z) kernel_scheme, u64) kern" where
  "pagecache_steal = pagecache_steal_with (pagecache_nvme_write_with nvme_write)"

text \<open>
  Looking an entry up: a frame is scanned until its entry for the block is found, remembering the
  last free entry seen; the walk goes on to the next frame in either case.
\<close>

primrec scan_entries :: "nat \<Rightarrow> mem \<Rightarrow> u64 \<Rightarrow> u32 \<Rightarrow> nat \<Rightarrow> u64 \<times> u64 \<Rightarrow> u64 \<times> u64" where
  "scan_entries 0 m current_entries block_index i r = r"
| "scan_entries (Suc k) m current_entries block_index i r =
     (let e = entry_at current_entries i in
      if entry_valid m e \<and> entry_disk_block m e = block_index then (e, snd r)
      else scan_entries k m current_entries block_index (Suc i)
             (if \<not> entry_valid m e then (fst r, e) else r))"

partial_function (option) scan_frames ::
  "mem \<Rightarrow> u32 \<Rightarrow> u64 \<Rightarrow> u64 \<times> u64 \<Rightarrow> (u64 \<times> u64) option" where
  "scan_frames m block_index current_entries r =
     (if current_entries = 0 then Some r
      else scan_frames m block_index (next_entries m current_entries)
             (scan_entries PAGECACHE_ENTRY_COUNT m current_entries block_index 0 r))"

partial_function (option) last_entries :: "mem \<Rightarrow> u64 \<Rightarrow> u64 option" where
  "last_entries m current_entries =
     (if next_entries m current_entries = 0 then Some current_entries
      else last_entries m (next_entries m current_entries))"

definition or_hang :: "('s \<Rightarrow> 'a option) \<Rightarrow> ('s, 'a) kern" where
  "or_hang f = (\<lambda>s. case f s of None \<Rightarrow> Hang | Some x \<Rightarrow> Ok (x, s))"

definition new_entries_frame :: "(('d, 'z) kernel_scheme, u64) kern" where
  "new_entries_frame =
     kbind kalloc_for_page_cache (\<lambda>new_entries.
     if new_entries = 0 then kret 0 else
     kbind (set_mem (memset new_entries 0 entries_size)) (\<lambda>_.
     kbind (or_hang (\<lambda>s. last_entries (mem s) (first_pagecache_entries s))) (\<lambda>current_entries.
     kbind (set_mem (\<lambda>m. store64 m (current_entries + 4080) new_entries)) (\<lambda>_.
     kret (entry_at new_entries 0)))))"

definition fill_entry ::
  "(('d, 'z) kernel_scheme, u64) kern \<Rightarrow> u32 \<Rightarrow> bool \<Rightarrow> u64 \<Rightarrow> (('d, 'z) kernel_scheme, u64 \<times> bool) kern" where
  "fill_entry pagecache_do_steal block_index populate free_entry =
     kbind kalloc_for_page_cache (\<lambda>page.
     kbind (set_mem (set_cache free_entry page)) (\<lambda>_.
     kbind (if page = 0
            then kbind pagecache_do_steal (\<lambda>stolen.
                 kbind (set_mem (set_cache free_entry stolen)) (\<lambda>_. kret (stolen \<noteq> 0)))
            else kret False) (\<lambda>give_up.
     if give_up then kret (0, False) else
     kbind (set_mem (set_valid free_entry True)) (\<lambda>_.
     kbind (set_mem (set_disk_block free_entry block_index)) (\<lambda>_.
     kbind (set_mem (set_second_chance free_entry False)) (\<lambda>_.
     kbind (klock (entry_lock free_entry) (entry_lock_update free_entry)) (\<lambda>_.
     kret (free_entry, populate))))))))"

definition get_pagecache_entry_of_index ::
  "u32 \<Rightarrow> bool \<Rightarrow> (('d, 'z) kernel_scheme, u64) kern" where
  "get_pagecache_entry_of_index block_index populate =
     kbind (klock pagecache_entries_lock pagecache_entries_lock_update) (\<lambda>_.
     kbind (or_hang (\<lambda>s. scan_frames (mem s) block_index (first_pagecache_entries s) (0, 0))) (\<lambda>(entry, free_entry).
     kbind (if entry \<noteq> 0
            then kbind (klock (entry_lock entry) (entry_lock_update entry)) (\<lambda>_.
                 kbind (set_mem (set_second_chance entry True)) (\<lambda>_.
                 kret (entry, False)))
            else kbind (if free_entry = 0 then new_entries_frame else kret free_entry) (\<lambda>free_entry.
                 if free_entry = 0 then kret (0, False)
                 else fill_entry (pagecache_do_steal_with (pagecache_nvme_write_with nvme_write))
                        block_index populate free_entry)) (\<lambda>(entry, should_populate).
     kbind (kunlock pagecache_entries_lock pagecache_entries_lock_update) (\<lambda>_.
     kbind (if should_populate
            then kbind (kgets (\<lambda>s. entry_cache (mem s) entry)) (\<lambda>cache.
                 pagecache_nvme_read_with nvme_read block_index cache)
            else kret ()) (\<lambda>_.
     kret entry)))))"

definition pagecache_read :: "u32 \<Rightarrow> u64 \<Rightarrow> (('d, 'z) kernel_scheme, unit) kern" where
  "pagecache_read block_index data =
     kbind (get_pagecache_entry_of_index block_index True) (\<lambda>entry.
     if entry = 0 then pagecache_nvme_read_with nvme_read block_index data else
     kbind (set_mem (set_second_chance entry False)) (\<lambda>_.
     kbind (set_mem (\<lambda>m. memcpy data (entry_cache m entry) PAGE_SIZE m)) (\<lambda>_.
     kunlock (entry_lock entry) (entry_lock_update entry))))"

definition pagecache_write :: "u32 \<Rightarrow> u64 \<Rightarrow> (('d, 'z) kernel_scheme, unit) kern" where
  "pagecache_write block_index data =
     kbind (get_pagecache_entry_of_index block_index False) (\<lambda>entry.
     if entry = 0 then pagecache_nvme_write_with nvme_write block_index data else
     kbind (set_mem (set_second_chance entry False)) (\<lambda>_.
     kbind (set_mem (set_dirty entry True)) (\<lambda>_.
     kbind (set_mem (\<lambda>m. memcpy (entry_cache m entry) data PAGE_SIZE m)) (\<lambda>_.
     kunlock (entry_lock entry) (entry_lock_update entry)))))"

section \<open>Allocation\<close>

text \<open>The core that runs holds the lock of the cache.\<close>

definition pcl_mine :: "('d, 'z) kernel_scheme \<Rightarrow> bool" where
  "pcl_mine s \<longleftrightarrow> locked (pagecache_entries_lock s) \<noteq> 0 \<and>
     holding_cpu (pagecache_entries_lock s) = ucast (cpuid (cpu s))"

lemma cpuid_spinlock:
  "spinlock_lock l c = Ok (l', c') \<Longrightarrow> cpuid c' = cpuid c"
  "spinlock_unlock l c = Ok (l', c') \<Longrightarrow> cpuid c' = cpuid c"
  by (auto simp: spinlock_lock_def spinlock_unlock_def this_cpu_holding_lock_def
      restore_interrupts_def Let_def split: if_splits)

lemma pcl_mine_klock: "klock pagecache_entries_lock pagecache_entries_lock_update s = Ok ((), s') \<Longrightarrow> pcl_mine s'"
  by (auto simp: klock_def pcl_mine_def spinlock_lock_def this_cpu_holding_lock_def
      restore_interrupts_def Let_def split: outcome.splits if_splits)

lemma pcl_mine_deadlock:
  "pcl_mine s \<Longrightarrow> klock pagecache_entries_lock pagecache_entries_lock_update s = Panic ''deadlock''"
  by (simp add: klock_def pcl_mine_def spinlock_lock_def this_cpu_holding_lock_def Let_def)

lemma pcl_mine_alloc: "preserves pcl_mine kalloc_for_page_cache"
proof -
  have "preserves pcl_mine (klock freepages_lock freepages_lock_update)"
    and "preserves pcl_mine (kunlock freepages_lock freepages_lock_update)"
    by (auto simp: preserves_def klock_def kunlock_def pcl_mine_def cpuid_spinlock
        split: outcome.splits)
  then show ?thesis
    unfolding kalloc_for_page_cache_def
    by (intro preserving preserves_kmodify) (auto simp: pcl_mine_def)
qed

lemma pcl_mine_advance: "advance_victim w s = (w', s') \<Longrightarrow> pcl_mine s' = pcl_mine s"
  by (auto simp: advance_victim_def pcl_mine_def Let_def split: if_splits)

lemma pcl_mine_clock_loop: "clock_loop w s = Some r \<Longrightarrow> pcl_mine s \<longrightarrow> pcl_mine (snd r)"
proof (erule clock_loop.raw_induct [where P = "\<lambda>w s r. pcl_mine s \<longrightarrow> pcl_mine (snd r)", rotated])
  fix f :: "u32 \<Rightarrow> ('a, 'b) kernel_scheme \<Rightarrow> (u64 \<times> ('a, 'b) kernel_scheme) option" and w s r
  assume IH: "\<And>w s r. f w s = Some r \<Longrightarrow> pcl_mine s \<longrightarrow> pcl_mine (snd r)"
    and body: "(let (wrap, s1) = advance_victim w s; e = victim_entry s1 in
      if w < wrap \<and> 2 < wrap then Some (0, s1)
      else if \<not> entry_valid (mem s1) e then f wrap s1
      else if entry_second_chance (mem s1) e then Some (e, s1)
      else f wrap (s1\<lparr>mem := set_second_chance e True (mem s1)\<rparr>)) = Some r"
  obtain w1 s1 where a: "advance_victim w s = (w1, s1)" by fastforce
  have "pcl_mine (s1\<lparr>mem := m\<rparr>) = pcl_mine s1" for m by (simp add: pcl_mine_def)
  with body IH [of w1 s1 r] IH [of w1 "s1\<lparr>mem := set_second_chance (victim_entry s1) True (mem s1)\<rparr>" r]
  show "pcl_mine s \<longrightarrow> pcl_mine (snd r)"
    using pcl_mine_advance [OF a] by (auto simp: a Let_def split: if_splits)
qed

lemma kalloc_with_cong:
  assumes "pcl_mine s"
  shows "kalloc_with (pagecache_steal_with w) s = kalloc_with (pagecache_steal_with w') s"
proof (cases "kalloc_for_page_cache s")
  case (Ok r)
  then obtain p s1 where r: "kalloc_for_page_cache s = Ok (p, s1)" by (cases r) auto
  then have "pcl_mine s1" using assms preservesD [OF pcl_mine_alloc] by blast
  then have "pagecache_steal_with w s1 = pagecache_steal_with w' s1"
    by (simp add: pagecache_steal_with_def pcl_mine_deadlock)
  with r show ?thesis by (simp add: kalloc_with_def kbind_def)
qed (simp_all add: kalloc_with_def)

lemma kalloc_n_cong: "pcl_mine s \<Longrightarrow> kalloc_n (Suc j) s = kalloc_n (Suc k) s"
  using kalloc_with_cong by simp

lemma nvme_write_with_cong:
  "f s = g s \<Longrightarrow> nvme_write_with f lba n buf s = nvme_write_with g lba n buf s"
  by (auto simp: nvme_write_with_def kbind_def kern_defs)

lemma pagecache_do_steal_with_cong:
  assumes "pcl_mine s" and "\<And>s. pcl_mine s \<Longrightarrow> w s = w' s"
  shows "pagecache_do_steal_with (pagecache_nvme_write_with (nvme_write_with w)) s =
    pagecache_do_steal_with (pagecache_nvme_write_with (nvme_write_with w')) s"
proof (cases "clock_loop 0 s")
  case (Some r)
  then obtain e s1 where r: "clock_loop 0 s = Some (e, s1)" by (cases r) auto
  with pcl_mine_clock_loop assms(1) have "pcl_mine s1" by fastforce
  then have "w (s1\<lparr>mem := m\<rparr>) = w' (s1\<lparr>mem := m\<rparr>)" for m
    using assms(2) by (simp add: pcl_mine_def)
  then have "nvme_write_with w b n c (s1\<lparr>mem := m\<rparr>) = nvme_write_with w' b n c (s1\<lparr>mem := m\<rparr>)" for b n c m
    by (rule nvme_write_with_cong)
  with r show ?thesis
    by (simp add: pagecache_do_steal_with_def pagecache_nvme_write_with_def set_mem_def kbind_def kern_defs)
qed (simp add: pagecache_do_steal_with_def kbind_def kern_defs)

lemma pagecache_steal_with_cong:
  assumes "\<And>s. pcl_mine s \<Longrightarrow> w s = w' s"
  shows "pagecache_steal_with (pagecache_nvme_write_with (nvme_write_with w)) =
    pagecache_steal_with (pagecache_nvme_write_with (nvme_write_with w'))"
proof
  fix s :: "('a, 'b) kernel_scheme"
  show "pagecache_steal_with (pagecache_nvme_write_with (nvme_write_with w)) s =
    pagecache_steal_with (pagecache_nvme_write_with (nvme_write_with w')) s"
  proof (cases "klock pagecache_entries_lock pagecache_entries_lock_update s")
    case (Ok r)
    then obtain s1 where "klock pagecache_entries_lock pagecache_entries_lock_update s = Ok ((), s1)"
      by (cases r) auto
    with pcl_mine_klock pagecache_do_steal_with_cong [of s1 w w'] assms show ?thesis
      by (fastforce simp: pagecache_steal_with_def kbind_def)
  qed (simp_all add: pagecache_steal_with_def)
qed

lemma kalloc_n_enough: "kalloc_n (Suc (Suc n)) = (kalloc :: (('d, 'z) kernel_scheme, u64) kern)"
proof -
  have "pagecache_steal_with (pagecache_nvme_write_with (nvme_write_with (kalloc_n (Suc n)))) =
      (pagecache_steal_with (pagecache_nvme_write_with (nvme_write_with (kalloc_n (Suc 0))))
        :: (('d, 'z) kernel_scheme, u64) kern)"
    by (rule pagecache_steal_with_cong) (rule kalloc_n_cong)
  then show ?thesis
    unfolding kalloc_def numeral_2_eq_2 kalloc_n.simps(2) [of "Suc n"] kalloc_n.simps(2) [of "Suc 0"]
    by (rule arg_cong)
qed

text \<open>So the mutually recursive routines satisfy the equations of the source.\<close>

lemma kalloc_eq: "kalloc = kalloc_with pagecache_steal"
proof -
  have "kalloc = kalloc_n (Suc (Suc (Suc 0)))" by (rule kalloc_n_enough [symmetric])
  also have "\<dots> = kalloc_with (pagecache_steal_with (pagecache_nvme_write_with
      (nvme_write_with (kalloc_n (Suc (Suc 0))))))" by (simp only: kalloc_n.simps)
  finally show ?thesis
    by (simp only: kalloc_n_enough pagecache_steal_def nvme_write_def)
qed

lemma free_list_memset:
  assumes "free_list m q fl" and "page_aligned p" and "p \<notin> set fl"
  shows "free_list (memset p c PAGE_SIZE m) q fl"
  using assms(1)
proof (rule free_list_same_page)
  fix a assume "a \<in> set fl"
  with assms have "page_aligned a" "a \<noteq> p" by (auto dest: free_list_aligned)
  then show "same_page m (memset p c PAGE_SIZE m) (pageno a)"
    using assms(2) by (auto simp: same_page_def memset_apply PAGE_SIZE_def in_page_iff page_aligned_eq)
qed

lemma kalloc_page:
  assumes "pool (p # fl) s"
  shows "kalloc s = Ok (p, s\<lparr>mem := memset p 2 PAGE_SIZE (mem s), freepages := load64 (mem s) p,
     cpu := settled (cpu s)\<rparr>)"
proof -
  have "p \<noteq> 0" using assms by (simp add: pool_def)
  then show ?thesis
    by (simp add: kalloc_eq kalloc_with_def kalloc_for_page_cache_eq [OF assms])
qed

lemma pool_kalloc:
  assumes "pool (p # fl) s"
  shows "pool fl (s\<lparr>mem := memset p c PAGE_SIZE (mem s), freepages := load64 (mem s) p,
     cpu := settled (cpu s)\<rparr>)"
  using assms free_list_distinct [of "mem s" p "p # fl"]
  by (auto simp: pool_def intro!: free_list_memset)

lemma memset_memset: "memset p c n (memset p d n m) = memset p c n m"
  by (rule ext) (simp add: memset_apply)

lemma kcalloc_page:
  assumes "pool (p # fl) s"
  shows "kcalloc s = Ok (p, s\<lparr>mem := memset p 0 PAGE_SIZE (mem s), freepages := load64 (mem s) p,
     cpu := settled (cpu s)\<rparr>)"
proof -
  have "p \<noteq> 0" using assms by (simp add: pool_def)
  then show ?thesis
    by (simp add: kcalloc_def kalloc_page [OF assms] set_mem_def memset_memset)
qed

lemma pool_nonempty: "pool fl s \<Longrightarrow> fl = [] \<longleftrightarrow> freepages s = 0"
  by (cases fl) (auto simp: pool_def)

section \<open>Running out of memory\<close>

definition no_victim :: "('d, 'z) kernel_scheme \<Rightarrow> bool" where
  "no_victim s \<longleftrightarrow> victim_entry_frames s = 0"

named_theorems no_victim_keep "routines that leave the eviction pointer null"

lemma no_victim_update [simp]:
  "no_victim (s\<lparr>mem := m\<rparr>) = no_victim s" "no_victim (s\<lparr>cpu := c\<rparr>) = no_victim s"
  "no_victim (s\<lparr>freepages := p\<rparr>) = no_victim s" "no_victim (s\<lparr>nvme_ctrl := d\<rparr>) = no_victim s"
  "no_victim (s\<lparr>next_command_id := i\<rparr>) = no_victim s"
  "no_victim (freepages_lock_update f s) = no_victim s"
  "no_victim (pagecache_entries_lock_update f s) = no_victim s"
  "no_victim (io_queue_update g s) = no_victim s"
  "no_victim (entry_lock_update e f s) = no_victim s"
  by (simp_all add: no_victim_def entry_lock_update_def Let_def)

lemma no_victim_lock [no_victim_keep]:
  "preserves no_victim (klock freepages_lock freepages_lock_update)"
  "preserves no_victim (klock pagecache_entries_lock pagecache_entries_lock_update)"
  "preserves no_victim (klock (entry_lock e) (entry_lock_update e))"
  by (auto simp: preserves_def klock_def split: outcome.splits)

lemma no_victim_unlock [no_victim_keep]:
  "preserves no_victim (kunlock freepages_lock freepages_lock_update)"
  "preserves no_victim (kunlock pagecache_entries_lock pagecache_entries_lock_update)"
  "preserves no_victim (kunlock (entry_lock e) (entry_lock_update e))"
  by (auto simp: preserves_def kunlock_def split: outcome.splits)

lemma no_victim_basic [no_victim_keep]:
  "preserves no_victim (set_mem f)"
  "preserves no_victim next_command"
  "preserves no_victim (nvme_reg4_store off v)"
  "preserves no_victim (or_hang g)"
  by (auto simp: preserves_def set_mem_def next_command_def nvme_reg4_store_def or_hang_def
      split: prod.splits option.splits)

lemma do_steal_no_victim: "no_victim s \<Longrightarrow>
   pagecache_do_steal_with w s = Panic ''next_eviction_victim.entry_frame is null''"
  by (simp add: no_victim_def pagecache_do_steal_with_def)

lemma no_victim_steal [no_victim_keep]: "preserves no_victim (pagecache_do_steal_with w)"
  by (simp add: preserves_def do_steal_no_victim)

lemma steal_no_victim: "no_victim s \<Longrightarrow> pagecache_steal_with w s \<noteq> Ok r"
proof
  assume "no_victim s" and "pagecache_steal_with w s = Ok r"
  then show False
    unfolding pagecache_steal_with_def
    by (cases r) (auto elim!: kbind_OkE dest: preservesD [OF no_victim_lock(2)] simp: do_steal_no_victim)
qed

lemma no_victim_alloc [no_victim_keep]:
  "preserves no_victim kalloc_for_page_cache" "preserves no_victim kalloc" "preserves no_victim kcalloc"
  "preserves no_victim (kfree p)"
proof -
  show a: "preserves no_victim kalloc_for_page_cache"
    unfolding kalloc_for_page_cache_def
    by (intro preserving no_victim_keep preserves_kmodify) simp_all
  have "preserves no_victim pagecache_steal"
    using steal_no_victim by (fastforce simp: preserves_def pagecache_steal_def)
  then show k: "preserves no_victim kalloc"
    unfolding kalloc_eq kalloc_with_def
    by (intro preserving a preserves_kmodify) simp_all
  show "preserves no_victim kcalloc"
    unfolding kcalloc_def by (intro preserving no_victim_keep k)
  show "preserves no_victim (kfree p)"
    unfolding kfree_def by (intro preserving no_victim_keep preserves_kmodify) simp_all
qed

lemma no_victim_poll [no_victim_keep]: "preserves no_victim (poll_completions n io_queue io_queue_update)"
proof (induction n)
  case (Suc n)
  then show ?case
    by (simp only: poll_completions.simps) (intro preserving preserves_kmodify; simp)
qed (simp only: poll_completions.simps preserving)

lemma no_victim_nvme [no_victim_keep]:
  "preserves no_victim (nvme_read lba n buf)" "preserves no_victim (nvme_write lba n buf)"
  unfolding nvme_read_def nvme_write_def nvme_read_with_def nvme_write_with_def
    nvme_do_one_cmd_synchronous_def
  by (intro preserving no_victim_keep preserves_kmodify; simp)+

lemma no_victim_nvme_block [no_victim_keep]:
  "preserves no_victim (pagecache_nvme_read_with nvme_read b d)"
  "preserves no_victim (pagecache_nvme_write_with nvme_write b d)"
  unfolding pagecache_nvme_read_with_def pagecache_nvme_write_with_def
  by (intro preserving no_victim_keep)+

lemma no_victim_get_entry [no_victim_keep]: "preserves no_victim (get_pagecache_entry_of_index b pop)"
  unfolding get_pagecache_entry_of_index_def new_entries_frame_def fill_entry_def
  by (intro preserving no_victim_keep)

lemma no_victim_cache [no_victim_keep]:
  "preserves no_victim (pagecache_read b d)" "preserves no_victim (pagecache_write b d)"
  unfolding pagecache_read_def pagecache_write_def by (intro preserving no_victim_keep)+

text \<open>The calls other parts of the kernel make to the allocator and to the cache.\<close>

datatype mem_call = Kalloc | Kcalloc | Kfree u64 | Pagecache_read u32 u64 | Pagecache_write u32 u64

primrec do_call :: "mem_call \<Rightarrow> (('d, 'z) kernel_scheme, unit) kern" where
  "do_call Kalloc = kbind kalloc (\<lambda>_. kret ())"
| "do_call Kcalloc = kbind kcalloc (\<lambda>_. kret ())"
| "do_call (Kfree p) = kfree p"
| "do_call (Pagecache_read b d) = pagecache_read b d"
| "do_call (Pagecache_write b d) = pagecache_write b d"

primrec do_calls :: "mem_call list \<Rightarrow> (('d, 'z) kernel_scheme, unit) kern" where
  "do_calls [] = kret ()"
| "do_calls (c # cs) = kbind (do_call c) (\<lambda>_. do_calls cs)"

lemma no_victim_do_calls: "preserves no_victim (do_calls cs)"
proof (induction cs)
  case (Cons c cs)
  moreover have "preserves no_victim (do_call c)"
    by (cases c) (simp_all only: do_call.simps, (intro preserving no_victim_keep)+)
  ultimately show ?case by (simp only: do_calls.simps) (intro preserving)
qed (simp only: do_calls.simps preserving)

text \<open>
  C7. On a pool with a free page, \<open>kalloc\<close> returns its first page filled with the byte 2 and
  \<open>kcalloc\<close> returns it filled with zeros. The rest of memory is untouched and the pool keeps its
  other pages.
\<close>

theorem kalloc_correct:
  assumes "pool (p # fl) s"
  shows "(\<exists>s1. kalloc s = Ok (p, s1) \<and> pool fl s1 \<and>
      (\<forall>x. mem s1 x = (if in_region p 4096 x then 2 else mem s x))) \<and>
    (\<exists>s2. kcalloc s = Ok (p, s2) \<and> pool fl s2 \<and>
      (\<forall>x. mem s2 x = (if in_region p 4096 x then 0 else mem s x)))"
  using pool_kalloc [OF assms]
  by (simp add: kalloc_page [OF assms] kcalloc_page [OF assms] memset_apply PAGE_SIZE_def)

definition one_page_kernel :: "unit kernel" where
  "one_page_kernel = boot_kernel\<lparr>freepages := 0xffff800000001000\<rparr>"

lemma load64_zero_mem [simp]: "load64 (\<lambda>_. 0) a = 0"
  by (simp add: load64_def eval_nat_numeral)

lemma pool_one_page: "pool [0xffff800000001000] one_page_kernel"
  by (simp add: pool_def one_page_kernel_def boot_kernel_def page_aligned_def)

theorem kalloc_correct_witness:
  "(\<exists>s1. kalloc one_page_kernel = Ok (0xffff800000001000, s1) \<and> pool [] s1 \<and>
      (\<forall>x. mem s1 x = (if in_region 0xffff800000001000 4096 x then 2 else mem one_page_kernel x))) \<and>
   (\<exists>s2. kcalloc one_page_kernel = Ok (0xffff800000001000, s2) \<and> pool [] s2 \<and>
      (\<forall>x. mem s2 x = (if in_region 0xffff800000001000 4096 x then 0 else mem one_page_kernel x)))"
  by (rule kalloc_correct [OF pool_one_page])

text \<open>
  C8. The kernel never gets a page back from the page cache. Nothing sets the pointer at which the
  clock starts, so after any sequence of allocations, frees and cached reads and writes from boot, a
  \<open>kalloc\<close> that finds the free list empty panics. It does not return \<open>NULL\<close>, and it does not evict
  a cached block.
\<close>

theorem kalloc_out_of_memory:
  assumes "victim_entry_frames s = 0" and "do_calls cs s = Ok ((), s')"
    and "pool [] s'" and "pagecache_entries_lock s' = unlocked_lock"
  shows "kalloc s' = Panic ''next_eviction_victim.entry_frame is null''"
proof -
  have n: "no_victim s'"
    using preservesD [OF no_victim_do_calls _ assms(2)] assms(1) by (simp add: no_victim_def)
  let ?s = "s'\<lparr>cpu := settled (cpu s')\<rparr>"
  have "cpu_ok (cpu ?s)" using assms(3) by (simp add: pool_def)
  then have "klock pagecache_entries_lock pagecache_entries_lock_update ?s = Ok ((), pcl.entered ?s)"
    using assms(4) by (intro pcl.lock_free) simp_all
  moreover have "no_victim (pcl.entered ?s)" using n by (simp add: pcl.entered_def)
  ultimately show ?thesis
    using kalloc_for_page_cache_eq [OF assms(3)]
    by (simp add: kalloc_eq kalloc_with_def pagecache_steal_def pagecache_steal_with_def
        do_steal_no_victim)
qed

definition drained_kernel :: "unit kernel" where
  "drained_kernel = (case do_calls [Kalloc] one_page_kernel of Ok (_, s) \<Rightarrow> s | _ \<Rightarrow> one_page_kernel)"

lemma drained_kernel:
  "do_calls [Kalloc] one_page_kernel = Ok ((), drained_kernel)" "pool [] drained_kernel"
  "pagecache_entries_lock drained_kernel = unlocked_lock"
  using pool_kalloc [OF pool_one_page, of 2]
  by (simp_all add: drained_kernel_def kalloc_page [OF pool_one_page])
    (simp add: one_page_kernel_def boot_kernel_def)

theorem kalloc_out_of_memory_witness:
  "kalloc drained_kernel = Panic ''next_eviction_victim.entry_frame is null''"
  using kalloc_out_of_memory [OF _ drained_kernel]
  by (simp add: one_page_kernel_def boot_kernel_def)

end
