(* ===== verification/Vmm.thy ===== *)
theory Vmm
  imports Pagecache
begin

text \<open>
  The virtual memory manager, \<^verbatim>\<open>src/kernel/mem/vmm.c\<close> and \<^verbatim>\<open>vmm.h\<close>: four-level page tables
  whose entries are 64-bit words in memory, walked through the direct map.
\<close>

section \<open>Page table entries\<close>

definition VA_MAX :: u64 where
  "VA_MAX = push_bit 46 1"

definition VA_MIN :: u64 where
  "VA_MIN = push_bit 22 1"

definition USER_STACK_TOP :: u64 where
  "USER_STACK_TOP = push_bit 45 1"

definition USER_STACK_BOTTOM :: u64 where
  "USER_STACK_BOTTOM = USER_STACK_TOP - PAGE_SIZE"

definition INTSTACK_VIRTUAL_ADDRESS_TOP :: u64 where
  "INTSTACK_VIRTUAL_ADDRESS_TOP = VA_MAX"

definition INTSTACK_VIRTUAL_ADDRESS_BOTTOM :: u64 where
  "INTSTACK_VIRTUAL_ADDRESS_BOTTOM = INTSTACK_VIRTUAL_ADDRESS_TOP - PAGE_SIZE"

definition SYSCALLSTACK_VIRTUAL_ADDRESS_TOP :: u64 where
  "SYSCALLSTACK_VIRTUAL_ADDRESS_TOP = INTSTACK_VIRTUAL_ADDRESS_BOTTOM"

definition SYSCALLSTACK_VIRTUAL_ADDRESS_BOTTOM :: u64 where
  "SYSCALLSTACK_VIRTUAL_ADDRESS_BOTTOM = SYSCALLSTACK_VIRTUAL_ADDRESS_TOP - PAGE_SIZE"

record pte_permissions =
  writable :: bool
  executable :: bool
  userspace :: bool

text \<open>
  The bit-fields of \<open>struct pte_t\<close>: \<open>present\<close> is bit 0, \<open>rw\<close> 1, \<open>us\<close> 2, \<open>pwt\<close> 3, \<open>pct\<close> 4,
  \<open>huge_page\<close> 7, \<open>address\<close> the 34 bits from 12 on and \<open>xd\<close> 63.
\<close>

definition pte_present :: "u64 \<Rightarrow> bool" where
  "pte_present pte = bit pte 0"

definition pte_rw :: "u64 \<Rightarrow> bool" where
  "pte_rw pte = bit pte 1"

definition pte_us :: "u64 \<Rightarrow> bool" where
  "pte_us pte = bit pte 2"

definition pte_huge_page :: "u64 \<Rightarrow> bool" where
  "pte_huge_page pte = bit pte 7"

definition pte_xd :: "u64 \<Rightarrow> bool" where
  "pte_xd pte = bit pte 63"

definition pte_address :: "u64 \<Rightarrow> u64" where
  "pte_address pte = take_bit 34 (drop_bit 12 pte)"

definition set_flag :: "nat \<Rightarrow> bool \<Rightarrow> u64 \<Rightarrow> u64" where
  "set_flag n b pte = (if b then set_bit n pte else unset_bit n pte)"

definition set_address :: "u64 \<Rightarrow> u64 \<Rightarrow> u64" where
  "set_address a pte = (pte AND NOT (push_bit 12 (mask 34))) OR push_bit 12 (take_bit 34 a)"

definition PTE_INDEX_FROM_VA :: "u64 \<Rightarrow> nat \<Rightarrow> u64" where
  "PTE_INDEX_FROM_VA va level = drop_bit (level * 9) (drop_bit 12 va) AND (push_bit 9 1 - 1)"

definition PTE_GET_PHY_ADDRESS :: "u64 \<Rightarrow> u64" where
  "PTE_GET_PHY_ADDRESS addr = drop_bit 12 addr"

definition PAGETABLE_PTE_COUNT :: nat where
  "PAGETABLE_PTE_COUNT = 512"

definition PAGE_ROUND_DOWN :: "u64 \<Rightarrow> u64" where
  "PAGE_ROUND_DOWN a = a AND NOT (PAGE_SIZE - 1)"

definition pte_follow :: "u64 \<Rightarrow> u64" where
  "pte_follow pte = push_bit 12 (pte_address pte)"

definition pte_slot :: "u64 \<Rightarrow> u64 \<Rightarrow> u64" where
  "pte_slot pagetable i = pagetable + 8 * i"

definition get_pte :: "u64 \<Rightarrow> (('d, 'z) kernel_scheme, u64) kern" where
  "get_pte p = kgets (\<lambda>s. load64 (mem s) p)"

definition change_pte :: "u64 \<Rightarrow> (u64 \<Rightarrow> u64) \<Rightarrow> (('d, 'z) kernel_scheme, unit) kern" where
  "change_pte p f = set_mem (\<lambda>m. store64 m p (f (load64 m p)))"

section \<open>Walking and mapping\<close>

primrec walk_from :: "nat \<Rightarrow> u64 \<Rightarrow> u64 \<Rightarrow> bool \<Rightarrow> (('d, 'z) kernel_scheme, u64) kern" where
  "walk_from 0 pagetable va alloc = kret (pte_slot pagetable (PTE_INDEX_FROM_VA va 0))"
| "walk_from (Suc l) pagetable va alloc =
     (let p = pte_slot pagetable (PTE_INDEX_FROM_VA va (Suc l)) in
      kbind (get_pte p) (\<lambda>pte.
      if pte_present pte
      then kbind (kgets (\<lambda>s. P2V s (pte_follow pte))) (\<lambda>next. walk_from l next va alloc)
      else if \<not> alloc then kret 0
      else kbind kalloc (\<lambda>next.
           if next = 0 then kret 0 else
           kbind (set_mem (memset next 0 PAGE_SIZE)) (\<lambda>_.
           kbind (kgets (\<lambda>s. V2P s next)) (\<lambda>physical.
           kbind (change_pte p (\<lambda>w. set_address (PTE_GET_PHY_ADDRESS physical)
                    (set_flag 2 True (set_flag 1 True (set_flag 63 False (set_flag 0 True w))))))
             (\<lambda>_.
           walk_from l next va alloc))))))"

definition walk :: "u64 \<Rightarrow> u64 \<Rightarrow> bool \<Rightarrow> bool \<Rightarrow> (('d, 'z) kernel_scheme, u64) kern" where
  "walk pagetable va alloc io =
     kbind (kassert (\<not> ((\<not> io \<and> VA_MAX \<le> va) \<or> va < VA_MIN)) ''walk'') (\<lambda>_.
     walk_from 3 pagetable va alloc)"

text \<open>
  A loop over the entries of a table, with \<open>k\<close> entries left; it stops at the first one whose
  body does not return 0.
\<close>

primrec for_entries :: "nat \<Rightarrow> (u64 \<Rightarrow> ('s, u32) kern) \<Rightarrow> ('s, u32) kern" where
  "for_entries 0 body = kret 0"
| "for_entries (Suc k) body =
     kbind (body (of_nat (PAGETABLE_PTE_COUNT - Suc k))) (\<lambda>r.
     if r \<noteq> 0 then kret r else for_entries k body)"

definition copy_entry ::
  "(u64 \<Rightarrow> u64 \<Rightarrow> (('d, 'z) kernel_scheme, u32) kern) \<Rightarrow> u64 \<Rightarrow> u64 \<Rightarrow> (('d, 'z) kernel_scheme, u32) kern" where
  "copy_entry copy_inner src i =
     kbind (get_pte (pte_slot src i)) (\<lambda>pte_src.
     if pte_present pte_src \<and> \<not> pte_huge_page pte_src
     then kbind kalloc (\<lambda>dst_inner_pagetable.
          if dst_inner_pagetable = 0 then kret 1 else
          kbind (kgets (\<lambda>s. P2V s (pte_follow pte_src))) (\<lambda>src_inner_pagetable.
          kbind (copy_inner dst_inner_pagetable src_inner_pagetable) (\<lambda>r.
          kret (if r \<noteq> 0 then 1 else 0))))
     else kret 0)"

primrec copy_pagetable :: "nat \<Rightarrow> u64 \<Rightarrow> u64 \<Rightarrow> (('d, 'z) kernel_scheme, u32) kern" where
  "copy_pagetable 0 dst src =
     kbind (set_mem (memcpy dst src PAGE_SIZE)) (\<lambda>_. kret 0)"
| "copy_pagetable (Suc l) dst src =
     kbind (set_mem (memcpy dst src PAGE_SIZE)) (\<lambda>_.
     for_entries PAGETABLE_PTE_COUNT (copy_entry (copy_pagetable l) src))"

definition get_installed_pagetable :: "('d, 'z) kernel_scheme \<Rightarrow> u64" where
  "get_installed_pagetable s = cr3 s AND 0xFFFFFFFFFFFFF000"

definition install_pagetable :: "u64 \<Rightarrow> (('d, 'z) kernel_scheme, unit) kern" where
  "install_pagetable pagetable_address =
     kmodify (\<lambda>s. s\<lparr>cr3 := pagetable_address AND 0xFFFFFFFFFFFFF000\<rparr>)"

definition vmm_init_kernel ::
  "limine_kernel_address_response \<Rightarrow> (('d, 'z) kernel_scheme, unit) kern" where
  "vmm_init_kernel address =
     kbind (kmodify (\<lambda>s. s\<lparr>kernel_address := address\<rparr>)) (\<lambda>_.
     kmodify (\<lambda>s. s\<lparr>kernel_pagetable := P2V s (get_installed_pagetable s)\<rparr>))"

text \<open>
  The result of \<open>vmm_walkaddr\<close> is \<open>pte->address << 12\<close> without a cast. The compiler of the
  \<^verbatim>\<open>Makefile\<close>, gcc, computes on a bit-field that is wider than \<open>int\<close> in a type of the
  bit-field's width, so the shifted address is cut to 34 bits. (\<open>pte_follow\<close> casts first.)
\<close>

definition vmm_walkaddr :: "u64 \<Rightarrow> u64 \<Rightarrow> bool \<Rightarrow> (('d, 'z) kernel_scheme, u64) kern" where
  "vmm_walkaddr pagetable va user =
     (if VA_MAX \<le> va then kret 0 else
      kbind (walk pagetable va False False) (\<lambda>p.
      if p = 0 then kret 0 else
      kbind (get_pte p) (\<lambda>pte.
      if \<not> pte_present pte then kret 0
      else if pte_us pte \<noteq> user then kret 0
      else kret (take_bit 34 (push_bit 12 (pte_address pte))))))"

definition new_pte :: "pte_permissions \<Rightarrow> u64 \<Rightarrow> u64 \<Rightarrow> u64" where
  "new_pte permissions pa w =
     set_address (PTE_GET_PHY_ADDRESS pa)
       (set_flag 2 (userspace permissions) (set_flag 63 (\<not> executable permissions)
         (set_flag 1 (writable permissions) (set_flag 0 True w))))"

text \<open>Mapping the pages one by one, by the number of pages left. \<open>-1\<close> means out of memory.\<close>

primrec map_pages_loop ::
  "nat \<Rightarrow> u64 \<Rightarrow> u64 \<Rightarrow> u64 \<Rightarrow> pte_permissions \<Rightarrow> (('d, 'z) kernel_scheme, u32) kern" where
  "map_pages_loop 0 pagetable current_va current_pa permissions = kret 0"
| "map_pages_loop (Suc k) pagetable current_va current_pa permissions =
     kbind (walk pagetable current_va True False) (\<lambda>p.
     if p = 0 then kret (-1) else
     kbind (get_pte p) (\<lambda>pte.
     kbind (kassert (\<not> pte_present pte) ''vmm_map_pages: remap'') (\<lambda>_.
     kbind (change_pte p (new_pte permissions current_pa)) (\<lambda>_.
     map_pages_loop k pagetable (current_va + PAGE_SIZE) (current_pa + PAGE_SIZE) permissions))))"

definition vmm_map_pages ::
  "u64 \<Rightarrow> u64 \<Rightarrow> u64 \<Rightarrow> u64 \<Rightarrow> pte_permissions \<Rightarrow> (('d, 'z) kernel_scheme, u32) kern" where
  "vmm_map_pages pagetable va sz pa permissions =
     kbind (kassert (pa mod PAGE_SIZE = 0) ''vmm_map_pages: pa not aligned'') (\<lambda>_.
     kbind (kassert (va mod PAGE_SIZE = 0) ''vmm_map_pages: va not aligned'') (\<lambda>_.
     kbind (kassert (sz mod PAGE_SIZE = 0) ''vmm_map_pages: size not aligned'') (\<lambda>_.
     kbind (kassert (sz \<noteq> 0) ''vmm_map_pages: size'') (\<lambda>_.
     map_pages_loop (unat (sz div PAGE_SIZE)) pagetable va pa permissions))))"

primrec allocate_loop ::
  "nat \<Rightarrow> u64 \<Rightarrow> u64 \<Rightarrow> pte_permissions \<Rightarrow> bool \<Rightarrow> (('d, 'z) kernel_scheme, u32) kern" where
  "allocate_loop 0 pagetable current_va permissions clear = kret 0"
| "allocate_loop (Suc k) pagetable current_va permissions clear =
     kbind (if clear then kcalloc else kalloc) (\<lambda>frame.
     if frame = 0 then kret (-1) else
     kbind (walk pagetable current_va True False) (\<lambda>p.
     if p = 0 then kret (-1) else
     kbind (get_pte p) (\<lambda>pte.
     kbind (kassert (\<not> pte_present pte) ''vmm_allocate: remap'') (\<lambda>_.
     kbind (kgets (\<lambda>s. V2P s frame)) (\<lambda>physical.
     kbind (change_pte p (new_pte permissions physical)) (\<lambda>_.
     kbind (set_mem (memset frame 0 PAGE_SIZE)) (\<lambda>_.
     allocate_loop k pagetable (current_va + PAGE_SIZE) permissions clear)))))))"

definition vmm_allocate ::
  "u64 \<Rightarrow> u64 \<Rightarrow> u64 \<Rightarrow> pte_permissions \<Rightarrow> bool \<Rightarrow> (('d, 'z) kernel_scheme, u32) kern" where
  "vmm_allocate pagetable va sz permissions clear =
     kbind (kassert (va mod PAGE_SIZE = 0) ''vmm_allocate: va not aligned'') (\<lambda>_.
     kbind (kassert (sz mod PAGE_SIZE = 0) ''vmm_allocate: size not aligned'') (\<lambda>_.
     kbind (kassert (sz \<noteq> 0) ''vmm_allocate: size'') (\<lambda>_.
     allocate_loop (unat (sz div PAGE_SIZE)) pagetable va permissions clear)))"

definition io_pte :: "u64 \<Rightarrow> u64 \<Rightarrow> u64" where
  "io_pte pa w =
     set_address (PTE_GET_PHY_ADDRESS pa)
       (set_flag 4 True (set_flag 3 True (set_flag 2 False
         (set_flag 63 True (set_flag 1 True (set_flag 0 True w))))))"

primrec io_memmap_loop :: "nat \<Rightarrow> u64 \<Rightarrow> u64 \<Rightarrow> (('d, 'z) kernel_scheme, bool) kern" where
  "io_memmap_loop 0 current_va current_pa = kret True"
| "io_memmap_loop (Suc k) current_va current_pa =
     kbind (kgets kernel_pagetable) (\<lambda>pagetable.
     kbind (walk pagetable current_va True True) (\<lambda>p.
     if p = 0 then kret False else
     kbind (get_pte p) (\<lambda>pte.
     kbind (kassert (\<not> pte_present pte) ''vmm_io_memmap: remap'') (\<lambda>_.
     kbind (change_pte p (io_pte current_pa)) (\<lambda>_.
     io_memmap_loop k (current_va + PAGE_SIZE) (current_pa + PAGE_SIZE))))))"

definition vmm_io_memmap :: "u64 \<Rightarrow> u64 \<Rightarrow> (('d, 'z) kernel_scheme, u64) kern" where
  "vmm_io_memmap pa sz =
     kbind (kassert (pa mod PAGE_SIZE = 0) ''vmm_io_memmap: pa not aligned'') (\<lambda>_.
     kbind (kassert (sz mod PAGE_SIZE = 0) ''vmm_io_memmap: size not aligned'') (\<lambda>_.
     kbind (kassert (sz \<noteq> 0) ''vmm_io_memmap: size'') (\<lambda>_.
     kbind (kgets io_memmap_current_address) (\<lambda>va.
     kbind (kmodify (\<lambda>s. s\<lparr>io_memmap_current_address := va + sz\<rparr>)) (\<lambda>_.
     kbind (io_memmap_loop (unat (sz div PAGE_SIZE)) va pa) (\<lambda>ok.
     kret (if ok then va else 0)))))))"

section \<open>User page tables\<close>

definition kfree_nonnull :: "u64 \<Rightarrow> (('d, 'z) kernel_scheme, unit) kern" where
  "kfree_nonnull p = (if p \<noteq> 0 then kfree p else kret ())"

definition new_failed :: "u64 \<Rightarrow> u64 \<Rightarrow> u64 \<Rightarrow> (('d, 'z) kernel_scheme, u64) kern" where
  "new_failed user_stack int_stack syscall_stack =
     kbind (kfree_nonnull user_stack) (\<lambda>_.
     kbind (kfree_nonnull int_stack) (\<lambda>_.
     kbind (kfree_nonnull syscall_stack) (\<lambda>_.
     kret 0)))"

definition vmm_user_pagetable_new :: "(('d, 'z) kernel_scheme, u64) kern" where
  "vmm_user_pagetable_new =
     kbind kalloc (\<lambda>pagetable.
     if pagetable = 0 then kret 0 else
     kbind (set_mem (memset pagetable 0 PAGE_SIZE)) (\<lambda>_.
     kbind (kgets kernel_pagetable) (\<lambda>kernel_pt.
     kbind (copy_pagetable 3 pagetable kernel_pt) (\<lambda>r.
     if r \<noteq> 0 then kret 0 else
     kbind kalloc (\<lambda>user_stack.
     if user_stack = 0 then new_failed 0 0 0 else
     kbind kalloc (\<lambda>int_stack.
     if int_stack = 0 then new_failed user_stack 0 0 else
     kbind kalloc (\<lambda>syscall_stack.
     if syscall_stack = 0 then new_failed user_stack int_stack 0 else
     kbind (kgets (\<lambda>s. V2P s)) (\<lambda>v2p.
     kbind (vmm_map_pages pagetable USER_STACK_BOTTOM PAGE_SIZE (v2p user_stack)
              \<lparr>writable = True, executable = False, userspace = True\<rparr>) (\<lambda>_.
     kbind (vmm_map_pages pagetable INTSTACK_VIRTUAL_ADDRESS_BOTTOM PAGE_SIZE (v2p int_stack)
              \<lparr>writable = True, executable = False, userspace = False\<rparr>) (\<lambda>_.
     kbind (vmm_map_pages pagetable SYSCALLSTACK_VIRTUAL_ADDRESS_BOTTOM PAGE_SIZE (v2p syscall_stack)
              \<lparr>writable = True, executable = False, userspace = False\<rparr>) (\<lambda>_.
     kret pagetable)))))))))))"

primrec vmm_user_pagetable_free_recursive ::
    "nat \<Rightarrow> u64 \<Rightarrow> u64 \<Rightarrow> (('d, 'z) kernel_scheme, unit) kern" where
  "vmm_user_pagetable_free_recursive 0 pagetable initial_va = kfree pagetable"
| "vmm_user_pagetable_free_recursive (Suc l) pagetable initial_va =
     kbind (for_entries PAGETABLE_PTE_COUNT (\<lambda>i.
       let current_va_low = initial_va OR push_bit (Suc l * 9 + 12) i;
           current_va_high = initial_va OR push_bit (Suc l * 9 + 12) (i + 1)
       in kbind (get_pte (pte_slot pagetable i)) (\<lambda>pte.
          if \<not> pte_present pte then kret 0 else
          kbind (kassert (\<not> pte_huge_page pte) ''vmm_user_pagetable_free_recursive: huge page'') (\<lambda>_.
          if VA_MAX \<le> current_va_high \<and> VA_MAX \<le> current_va_low \<or>
             current_va_high < VA_MIN \<and> current_va_low < VA_MIN
          then kret 0
          else kbind (kgets (\<lambda>s. P2V s (pte_follow pte))) (\<lambda>src_inner_pagetable.
               kbind (vmm_user_pagetable_free_recursive l src_inner_pagetable current_va_low) (\<lambda>_.
               kret 0)))))) (\<lambda>_.
     kfree pagetable)"

definition free_stack :: "u64 \<Rightarrow> u64 \<Rightarrow> bool \<Rightarrow> string \<Rightarrow> (('d, 'z) kernel_scheme, unit) kern" where
  "free_stack pagetable va user msg =
     kbind (vmm_walkaddr pagetable va user) (\<lambda>stack.
     kbind (kassert (stack \<noteq> 0) msg) (\<lambda>_.
     kbind (kgets (\<lambda>s. P2V s stack)) (\<lambda>p. kfree p)))"

definition vmm_user_pagetable_free :: "u64 \<Rightarrow> (('d, 'z) kernel_scheme, unit) kern" where
  "vmm_user_pagetable_free pagetable =
     kbind (free_stack pagetable USER_STACK_BOTTOM True ''vmm_user_pagetable_free: user stack'') (\<lambda>_.
     kbind (free_stack pagetable INTSTACK_VIRTUAL_ADDRESS_BOTTOM False
              ''vmm_user_pagetable_free: interrupt stack'') (\<lambda>_.
     kbind (free_stack pagetable SYSCALLSTACK_VIRTUAL_ADDRESS_BOTTOM False
              ''vmm_user_pagetable_free: syscall stack'') (\<lambda>_.
     vmm_user_pagetable_free_recursive 3 pagetable 0)))"

section \<open>The heap of a process and copies into it\<close>

partial_function (option) sbrk_allocate_loop ::
  "u64 \<Rightarrow> u64 \<Rightarrow> u64 \<Rightarrow> ('d, 'z) kernel_scheme \<Rightarrow> (unit \<times> ('d, 'z) kernel_scheme) outcome option" where
  "sbrk_allocate_loop pagetable new_sbrk currently_allocating s =
     (if currently_allocating < new_sbrk
      then (case vmm_allocate pagetable currently_allocating PAGE_SIZE
                   \<lparr>writable = True, executable = False, userspace = True\<rparr> True s of
              Ok (r, s1) \<Rightarrow>
                if sint r < 0 then Some (Panic ''sbrk: OOM'')
                else sbrk_allocate_loop pagetable new_sbrk (currently_allocating + PAGE_SIZE) s1
            | Panic e \<Rightarrow> Some (Panic e) | Hang \<Rightarrow> Some Hang | Undef \<Rightarrow> Some Undef)
      else Some (Ok ((), s)))"

definition vmm_user_sbrk_allocate :: "u64 \<Rightarrow> u64 \<Rightarrow> u64 \<Rightarrow> (('d, 'z) kernel_scheme, u64) kern" where
  "vmm_user_sbrk_allocate pagetable old_sbrk delta =
     kbind (lift_loop (sbrk_allocate_loop pagetable (old_sbrk + delta) (PAGE_ROUND_UP old_sbrk))) (\<lambda>_.
     kret (old_sbrk + delta))"

definition sbrk_free_page :: "u64 \<Rightarrow> u64 \<Rightarrow> (('d, 'z) kernel_scheme, unit) kern" where
  "sbrk_free_page pagetable currently_deallocating =
     kbind (walk pagetable currently_deallocating False False) (\<lambda>p.
     kbind (kassert (p \<noteq> 0) ''vmm_user_sbrk_deallocate: non-existant page'') (\<lambda>_.
     kbind (change_pte p (set_flag 0 False)) (\<lambda>_.
     kbind (get_pte p) (\<lambda>pte.
     kbind (kgets (\<lambda>s. P2V s (pte_follow pte))) (\<lambda>frame.
     kfree frame)))))"

partial_function (option) sbrk_deallocate_loop ::
  "u64 \<Rightarrow> u64 \<Rightarrow> u64 \<Rightarrow> ('d, 'z) kernel_scheme \<Rightarrow> (unit \<times> ('d, 'z) kernel_scheme) outcome option" where
  "sbrk_deallocate_loop pagetable new_sbrk currently_deallocating s =
     (if new_sbrk < currently_deallocating
      then (case sbrk_free_page pagetable currently_deallocating s of
              Ok (_, s1) \<Rightarrow> sbrk_deallocate_loop pagetable new_sbrk (currently_deallocating - PAGE_SIZE) s1
            | Panic e \<Rightarrow> Some (Panic e) | Hang \<Rightarrow> Some Hang | Undef \<Rightarrow> Some Undef)
      else Some (Ok ((), s)))"

definition vmm_user_sbrk_deallocate :: "u64 \<Rightarrow> u64 \<Rightarrow> u64 \<Rightarrow> (('d, 'z) kernel_scheme, u64) kern" where
  "vmm_user_sbrk_deallocate pagetable old_sbrk delta =
     kbind (lift_loop (sbrk_deallocate_loop pagetable (old_sbrk - delta) (PAGE_ROUND_DOWN old_sbrk))) (\<lambda>_.
     kret (old_sbrk - delta))"

lemma round_down_mask: "PAGE_ROUND_DOWN a = a AND NOT (mask 12)"
  by (simp add: PAGE_ROUND_DOWN_def PAGE_SIZE_def mask_eq_exp_minus_1)

lemma round_down_offset: "a - PAGE_ROUND_DOWN a = take_bit 12 a"
proof -
  have "(a AND NOT (mask 12)) + take_bit 12 a = (a AND NOT (mask 12)) OR take_bit 12 a"
    by (rule disjunctive_add_eq_or) (auto simp: bit_simps intro!: bit_word_eqI)
  also have "\<dots> = a"
    by (rule bit_word_eqI) (auto simp: bit_simps)
  finally show ?thesis unfolding round_down_mask by (metis add_diff_cancel_left')
qed

lemma unat_page_offset: "unat (take_bit 12 a) < 4096"
  using take_bit_nat_less_exp [of 12 "unat a"] by (simp add: unsigned_take_bit_eq)

lemma memcpy_step:
  assumes "len \<noteq> 0"
  shows "unat (len - (if len < PAGE_SIZE - take_bit 12 a then len else PAGE_SIZE - take_bit 12 a)) < unat len"
proof -
  have "unat (PAGE_SIZE - take_bit 12 a) = 4096 - unat (take_bit 12 a)"
    using unat_page_offset [of a] by (simp add: unat_sub_if' PAGE_SIZE_def)
  moreover have "0 < unat len" using assms by (simp add: unat_gt_0)
  ultimately show ?thesis
    using unat_page_offset [of a] by (auto simp: unat_sub_if' word_less_nat_alt)
qed

function vmm_memcpy ::
  "u64 \<Rightarrow> u64 \<Rightarrow> u64 \<Rightarrow> u64 \<Rightarrow> bool \<Rightarrow> ('d, 'z) kernel_scheme \<Rightarrow> (u32 \<times> ('d, 'z) kernel_scheme) outcome" where
  "vmm_memcpy pagetable destination_virtual_address source len user s =
     (if len = 0 then Ok (0, s) else
      let va0 = PAGE_ROUND_DOWN destination_virtual_address in
      if VA_MAX \<le> va0 \<or> va0 < VA_MIN then Ok (-1, s) else
      case walk pagetable va0 False False s of
        Ok (p, s1) \<Rightarrow>
          (let pte = load64 (mem s1) p in
           if p = 0 \<or> \<not> pte_present pte \<or> pte_us pte \<noteq> user \<or> \<not> pte_rw pte then Ok (-1, s1)
           else let pa0 = P2V s1 (pte_follow pte);
                    n0 = PAGE_SIZE - (destination_virtual_address - va0);
                    n = (if len < n0 then len else n0);
                    s2 = s1\<lparr>mem := memmove (pa0 + (destination_virtual_address - va0)) source n (mem s1)\<rparr>
                in vmm_memcpy pagetable (va0 + PAGE_SIZE) (source + n) (len - n) user s2)
      | Panic e \<Rightarrow> Panic e | Hang \<Rightarrow> Hang | Undef \<Rightarrow> Undef)"
  by pat_completeness auto

termination
  by (relation "measure (\<lambda>(_, _, _, len, _, _). unat len)")
    (simp_all only: in_measure wf_measure case_prod_conv round_down_offset memcpy_step not_False_eq_True)

section \<open>Facts on entries and indices\<close>

lemma bit_set_flag: "bit (set_flag n b w) k = (if k = n \<and> n < 64 then b else bit w k)"
  by (auto simp: set_flag_def bit_simps dest: bit_imp_le_length)

lemma bit_set_address: "bit (set_address a w) k = (if 12 \<le> k \<and> k < 46 then bit a (k - 12) else bit w k)"
  by (auto simp: set_address_def bit_simps dest: bit_imp_le_length)

lemma bit_new_pte: "bit (new_pte perm pa w) k =
   (if 12 \<le> k \<and> k < 46 then bit pa k
    else if k = 0 then True else if k = 1 then writable perm
    else if k = 2 then userspace perm else if k = 63 then \<not> executable perm else bit w k)"
  by (auto simp: new_pte_def bit_set_address bit_set_flag PTE_GET_PHY_ADDRESS_def bit_simps)

lemma new_pte_simps [simp]:
  "pte_present (new_pte perm pa w)" "pte_rw (new_pte perm pa w) = writable perm"
  "pte_us (new_pte perm pa w) = userspace perm" "pte_xd (new_pte perm pa w) = (\<not> executable perm)"
  by (simp_all add: pte_present_def pte_rw_def pte_us_def pte_xd_def bit_new_pte)

lemma pte_zero [simp]: "\<not> pte_present 0"
  by (simp add: pte_present_def)

text \<open>A physical address fits an entry if it is page aligned and has at most 46 bits.\<close>

definition fits_pte :: "u64 \<Rightarrow> bool" where
  "fits_pte pa \<longleftrightarrow> page_aligned pa \<and> unat pa < 2 ^ 46"

lemma bit_beyond: "unat (w::u64) < 2 ^ n \<Longrightarrow> n \<le> k \<Longrightarrow> \<not> bit w k"
proof -
  assume "unat w < 2 ^ n" and "n \<le> k"
  then have "take_bit n (unat w) = unat w" by (simp add: take_bit_nat_eq_self)
  then have "take_bit n w = w" by (metis unsigned_take_bit_eq word_unat_eq_iff)
  then show ?thesis using \<open>n \<le> k\<close> by (metis bit_take_bit_iff leD)
qed

lemma page_aligned_bit: "page_aligned w \<Longrightarrow> k < 12 \<Longrightarrow> \<not> bit w k"
proof -
  assume a: "page_aligned w" and k: "k < 12"
  have "take_bit 12 (unat w) = 0" using a by (simp add: page_aligned_def take_bit_eq_mod)
  then have "take_bit 12 w = 0" by (metis unsigned_take_bit_eq unat_eq_zero)
  then show ?thesis using k by (metis bit_0_eq bit_take_bit_iff bot_apply bot_bool_def)
qed

lemma pte_follow_eqI:
  assumes "fits_pte pa" and "\<And>k. 12 \<le> k \<Longrightarrow> k < 46 \<Longrightarrow> bit w k = bit pa k"
  shows "pte_follow w = pa"
proof (rule bit_word_eqI)
  fix k assume "k < LENGTH(64)"
  with assms page_aligned_bit [of pa k] bit_beyond [of pa 46 k]
  show "bit (pte_follow w) k = bit pa k"
    by (cases "k < 12"; cases "k < 46") (auto simp: fits_pte_def pte_follow_def pte_address_def bit_simps)
qed

lemma pte_follow_new_pte [simp]: "fits_pte pa \<Longrightarrow> pte_follow (new_pte perm pa w) = pa"
  by (rule pte_follow_eqI) (simp_all add: bit_new_pte)

lemma unat_index: "unat (PTE_INDEX_FROM_VA va l) = unat va div 2 ^ (12 + 9 * l) mod 512"
proof -
  have "PTE_INDEX_FROM_VA va l = take_bit 9 (drop_bit (12 + 9 * l) va)"
    by (simp add: PTE_INDEX_FROM_VA_def take_bit_eq_mask mask_eq_exp_minus_1 algebra_simps)
  then have "unat (PTE_INDEX_FROM_VA va l) = take_bit 9 (drop_bit (12 + 9 * l) (unat va))"
    using take_bit_nat_eq_self [of "unat va" 64]
    by (simp only: unsigned_take_bit_eq unsigned_drop_bit_eq) simp
  then show ?thesis
    by (simp add: take_bit_eq_mod drop_bit_eq_div)
qed

lemma index_less: "unat (PTE_INDEX_FROM_VA va l) < 512"
  by (simp add: unat_index)

text \<open>The number of the region of \<open>va\<close> that one entry of a level \<open>l\<close> table covers.\<close>

definition region :: "nat \<Rightarrow> u64 \<Rightarrow> nat" where
  "region l va = unat va div 2 ^ (12 + 9 * l)"

lemma region_split: "region l va = region (Suc l) va * 512 + unat (PTE_INDEX_FROM_VA va l)"
proof -
  have "unat va div 2 ^ (12 + 9 * Suc l) = unat va div 2 ^ (12 + 9 * l) div 512"
    by (simp add: div_mult2_eq [symmetric] power_add mult.commute)
  then show ?thesis by (simp add: region_def unat_index)
qed

lemma region_0: "region 0 va = pageno va"
  by (simp add: region_def pageno_def)

lemma region_4: "unat va < 2 ^ 46 \<Longrightarrow> region 4 va = 0"
  by (simp add: region_def)

lemma slot_page:
  assumes "page_aligned t" and "unat i < 512"
  shows "pageno (pte_slot t i) = pageno t" "aligned8 (pte_slot t i)"
proof -
  have u: "unat (8 * i) = 8 * unat i" using assms(2) by (simp add: unat_word_ariths)
  with assms show "pageno (pte_slot t i) = pageno t"
    unfolding pte_slot_def by (intro page_offset_pageno) auto
  from assms(1) obtain k where k: "unat t = 4096 * k" by (rule page_alignedE)
  have "unat (t + 8 * i) = 4096 * k + 8 * unat i"
    using page_offset_unat [OF assms(1), of "8 * i"] u k assms(2) by simp
  then show "aligned8 (pte_slot t i)"
    by (simp add: pte_slot_def aligned8_def)
qed

lemma slot_inject:
  assumes "page_aligned t" "page_aligned t'" "unat i < 512" "unat i' < 512"
  shows "pte_slot t i = pte_slot t' i' \<longleftrightarrow> t = t' \<and> i = i'"
proof
  assume eq: "pte_slot t i = pte_slot t' i'"
  then have "pageno t = pageno t'" using slot_page(1) assms by metis
  then have t: "t = t'" using assms page_aligned_eq by blast
  have "unat (8 * i) = unat (8 * i')" using eq t by (simp add: pte_slot_def)
  then have "8 * unat i = 8 * unat i'" using assms by (simp add: unat_word_ariths)
  with t show "t = t' \<and> i = i'" by (simp add: word_unat_eq_iff)
qed simp

section \<open>Page tables as trees\<close>

text \<open>What the hardware finds for \<open>va\<close> in the table \<open>t\<close> of level \<open>l\<close>: the last entry, if all are present.\<close>

primrec pt_lookup :: "nat \<Rightarrow> mem \<Rightarrow> u64 \<Rightarrow> u64 \<Rightarrow> u64 \<Rightarrow> u64 option" where
  "pt_lookup 0 m h t va =
     (let w = load64 m (pte_slot t (PTE_INDEX_FROM_VA va 0)) in if pte_present w then Some w else None)"
| "pt_lookup (Suc l) m h t va =
     (let w = load64 m (pte_slot t (PTE_INDEX_FROM_VA va (Suc l)))
      in if pte_present w then pt_lookup l m h (pte_follow w + h) va else None)"

definition translate :: "('d, 'z) kernel_scheme \<Rightarrow> u64 \<Rightarrow> u64 \<Rightarrow> u64 option" where
  "translate s root va = pt_lookup 3 (mem s) (hhdm_offset s) root va"

text \<open>
  The tables of a tree: \<open>Q t = Some (l, n)\<close> says that page \<open>t\<close> is the table of level \<open>l\<close> for the
  region \<open>n\<close> of the address space. Entries below \<open>VA_MAX\<close> point to the table of their region, so no
  table is shared by two regions.
\<close>

type_synonym tables = "u64 \<Rightarrow> (nat \<times> nat) option"

definition pt_tree :: "tables \<Rightarrow> mem \<Rightarrow> u64 \<Rightarrow> bool" where
  "pt_tree Q m h \<longleftrightarrow> (\<forall>t l n. Q t = Some (l, n) \<longrightarrow> page_aligned t \<and> t \<noteq> 0) \<and>
     (\<forall>t l n i. Q t = Some (Suc l, n) \<longrightarrow> unat i < 512 \<longrightarrow>
        (n * 512 + unat i) * 2 ^ (9 * Suc l) < 2 ^ 34 \<longrightarrow>
        pte_present (load64 m (pte_slot t i)) \<longrightarrow>
        Q (pte_follow (load64 m (pte_slot t i)) + h) = Some (l, n * 512 + unat i))"

definition pt_ok :: "tables \<Rightarrow> u64 list \<Rightarrow> ('d, 'z) kernel_scheme \<Rightarrow> bool" where
  "pt_ok Q fl s \<longleftrightarrow> pool fl s \<and> pt_tree Q (mem s) (hhdm_offset s) \<and> dom Q \<inter> set fl = {} \<and>
     (\<forall>p\<in>set fl. unat (p - hhdm_offset s) < 2 ^ 46)"

lemma pt_ok_disjoint: "pt_ok Q fl s \<Longrightarrow> Q t = Some x \<Longrightarrow> t \<notin> set fl"
  by (auto simp: pt_ok_def)

lemma pt_tree_aligned: "pt_tree Q m h \<Longrightarrow> Q t = Some (l, n) \<Longrightarrow> page_aligned t \<and> t \<noteq> 0"
  by (auto simp: pt_tree_def)

lemma region_bound: "unat va < 2 ^ 46 \<Longrightarrow> region (Suc l) va * 2 ^ (9 * Suc l) < 2 ^ 34"
proof -
  assume "unat va < 2 ^ 46"
  have "region (Suc l) va * 2 ^ (9 * Suc l) * 2 ^ 12 \<le> unat va"
    by (simp add: region_def power_add mult.assoc flip: power_add) (simp add: mult.commute power_add)
  then show ?thesis using \<open>unat va < 2 ^ 46\<close> by simp
qed

lemma pt_tree_step:
  assumes "pt_tree Q m h" and "Q t = Some (Suc l, region (Suc (Suc l)) va)" and "unat va < 2 ^ 46"
    and "pte_present (load64 m (pte_slot t (PTE_INDEX_FROM_VA va (Suc l))))"
  shows "Q (pte_follow (load64 m (pte_slot t (PTE_INDEX_FROM_VA va (Suc l)))) + h) = Some (l, region (Suc l) va)"
  using assms region_bound [OF assms(3), of l] index_less [of va "Suc l"]
  unfolding pt_tree_def region_split [of "Suc l" va] by blast

text \<open>Two memories with the same table pages have the same translations.\<close>

lemma pt_lookup_cong:
  assumes "pt_tree Q m h" and "Q t = Some (l, region (Suc l) va)" and "unat va < 2 ^ 46"
    and "\<And>t l n. Q t = Some (l, n) \<Longrightarrow> same_page m m' (pageno t)"
  shows "pt_lookup l m' h t va = pt_lookup l m h t va"
  using assms(2)
proof (induction l arbitrary: t)
  case 0
  then have "page_aligned t" using assms(1) pt_tree_aligned by blast
  with 0 assms(4) show ?case
    using load64_same_page [of m m' "pte_slot t (PTE_INDEX_FROM_VA va 0)"]
    by (simp add: slot_page index_less)
next
  case (Suc l)
  then have "page_aligned t" using assms(1) pt_tree_aligned by blast
  with Suc.prems assms(4) have
    "load64 m (pte_slot t (PTE_INDEX_FROM_VA va (Suc l))) = load64 m' (pte_slot t (PTE_INDEX_FROM_VA va (Suc l)))"
    by (intro load64_same_page) (simp_all add: slot_page index_less)
  with Suc.IH pt_tree_step [OF assms(1) Suc.prems assms(3)] show ?case
    by (simp add: Let_def)
qed

section \<open>Changing one entry\<close>

primrec pt_reach :: "nat \<Rightarrow> mem \<Rightarrow> u64 \<Rightarrow> u64 \<Rightarrow> u64 \<Rightarrow> u64 option" where
  "pt_reach 0 m h t va = Some (pte_slot t (PTE_INDEX_FROM_VA va 0))"
| "pt_reach (Suc l) m h t va =
     (let w = load64 m (pte_slot t (PTE_INDEX_FROM_VA va (Suc l)))
      in if pte_present w then pt_reach l m h (pte_follow w + h) va else None)"

lemma pt_lookup_reach:
  "pt_lookup l m h t va = (case pt_reach l m h t va of None \<Rightarrow> None
     | Some a \<Rightarrow> if pte_present (load64 m a) then Some (load64 m a) else None)"
  by (induction l arbitrary: t) (auto simp: Let_def)

lemma walk_from_no_alloc:
  "walk_from l t va False s =
     Ok (case pt_reach l (mem s) (hhdm_offset s) t va of None \<Rightarrow> 0 | Some a \<Rightarrow> a, s)"
  by (induction l arbitrary: t) (auto simp: Let_def get_pte_def P2V_def)

lemma pt_reach_slot:
  assumes "pt_tree Q m h" and "unat va < 2 ^ 46"
  shows "Q t = Some (l, region (Suc l) va) \<Longrightarrow> pt_reach l m h t va = Some a \<Longrightarrow>
    \<exists>t0. Q t0 = Some (0, region (Suc 0) va) \<and> a = pte_slot t0 (PTE_INDEX_FROM_VA va 0)"
proof (induction l arbitrary: t)
  case (Suc l)
  then show ?case using pt_tree_step [OF assms(1) Suc.prems(1) assms(2)]
    by (auto simp: Let_def split: if_splits)
qed auto

lemma pt_reach_pageno: "pageno va' = pageno va \<Longrightarrow> pt_reach l m h t va' = pt_reach l m h t va"
proof -
  assume "pageno va' = pageno va"
  then have "PTE_INDEX_FROM_VA va' k = PTE_INDEX_FROM_VA va k" for k
    by (simp add: word_unat_eq_iff unat_index pageno_def power_add div_mult2_eq)
  then show ?thesis by (induction l arbitrary: t) (simp_all add: Let_def)
qed

lemma load_store_slot:
  assumes "page_aligned t" "page_aligned t'" "unat i < 512" "unat i' < 512" "\<not> (t = t' \<and> i = i')"
  shows "load64 (store64 m (pte_slot t i) w) (pte_slot t' i') = load64 m (pte_slot t' i')"
  using assms by (intro load64_store64_other) (simp_all add: slot_page slot_inject)

lemma same_page_store_slot:
  "page_aligned t \<Longrightarrow> unat i < 512 \<Longrightarrow> n \<noteq> pageno t \<Longrightarrow> same_page m (store64 m (pte_slot t i) w) n"
  by (intro same_page_store64) (simp_all add: slot_page)

text \<open>A change of a last-level entry changes the translation of its page and of no other page.\<close>

lemma pt_tree_store_leaf:
  assumes "pt_tree Q m h" and "Q t = Some (0, n)" and "unat i < 512"
  shows "pt_tree Q (store64 m (pte_slot t i) w) h"
proof -
  have "load64 (store64 m (pte_slot t i) w) (pte_slot t' i') = load64 m (pte_slot t' i')"
    if "Q t' = Some (Suc l', n')" and "unat i' < 512" for t' i' l' n'
    using assms that by (intro load_store_slot) (auto dest: pt_tree_aligned)
  then show ?thesis using assms(1) by (simp add: pt_tree_def)
qed

lemma pt_reach_store_leaf:
  assumes "pt_tree Q m h" and "Q t = Some (0, n)" and "unat i < 512" and "unat va < 2 ^ 46"
  shows "Q r = Some (l, region (Suc l) va) \<Longrightarrow>
    pt_reach l (store64 m (pte_slot t i) w) h r va = pt_reach l m h r va"
proof (induction l arbitrary: r)
  case (Suc l)
  then have "load64 (store64 m (pte_slot t i) w) (pte_slot r (PTE_INDEX_FROM_VA va (Suc l))) =
      load64 m (pte_slot r (PTE_INDEX_FROM_VA va (Suc l)))"
    using assms by (intro load_store_slot) (auto simp: index_less dest: pt_tree_aligned)
  with Suc.IH pt_tree_step [OF assms(1) Suc.prems assms(4)] show ?case
    by (simp add: Let_def)
qed simp

lemma pt_lookup_store_leaf:
  assumes tree: "pt_tree Q m h" and root: "Q r = Some (l, region (Suc l) va)" "Q r = Some (l, region (Suc l) va')"
    and va: "unat va < 2 ^ 46" "unat va' < 2 ^ 46"
    and reach: "pt_reach l m h r va = Some a" and w: "pte_present w"
  shows "pt_lookup l (store64 m a w) h r va' =
    (if pageno va' = pageno va then Some w else pt_lookup l m h r va')"
proof -
  from pt_reach_slot [OF tree va(1) root(1) reach] obtain t
    where t: "Q t = Some (0, region (Suc 0) va)" "a = pte_slot t (PTE_INDEX_FROM_VA va 0)" by auto
  have keep: "pt_reach l (store64 m a w) h r v = pt_reach l m h r v"
    if "unat v < 2 ^ 46" "Q r = Some (l, region (Suc l) v)" for v
    using t that by (simp add: pt_reach_store_leaf [OF tree t(1) index_less that])
  show ?thesis
  proof (cases "pt_reach l m h r va'")
    case None
    moreover have "pageno va' \<noteq> pageno va"
      using None reach pt_reach_pageno [of va' va] by auto
    ultimately show ?thesis using keep [OF va(2) root(2)] by (simp add: pt_lookup_reach)
  next
    case (Some a')
    from pt_reach_slot [OF tree va(2) root(2) Some] obtain t'
      where t': "Q t' = Some (0, region (Suc 0) va')" "a' = pte_slot t' (PTE_INDEX_FROM_VA va' 0)" by auto
    have al: "page_aligned t" "page_aligned t'" using t(1) t'(1) pt_tree_aligned [OF tree] by blast+
    have "a' = a \<longleftrightarrow> pageno va' = pageno va"
    proof
      assume "a' = a"
      then have "t' = t" "PTE_INDEX_FROM_VA va' 0 = PTE_INDEX_FROM_VA va 0"
        using slot_inject [OF al(2,1) index_less index_less] t(2) t'(2) by auto
      then show "pageno va' = pageno va"
        using t(1) t'(1) region_split [of 0 va] region_split [of 0 va'] by (simp add: region_0)
    next
      assume "pageno va' = pageno va"
      with reach Some show "a' = a" using pt_reach_pageno [of va' va] by auto
    qed
    moreover have "load64 (store64 m a w) a' = load64 m a'" if "a' \<noteq> a"
      unfolding t(2) t'(2) using al that t(2) t'(2) index_less by (intro load_store_slot) auto
    ultimately show ?thesis
      using keep [OF va(2) root(2)] Some w by (auto simp: pt_lookup_reach)
  qed
qed

text \<open>Linking a zeroed page as a new table changes no translation.\<close>

definition link_pte :: "u64 \<Rightarrow> u64 \<Rightarrow> u64" where
  "link_pte physical w = set_address (PTE_GET_PHY_ADDRESS physical)
     (set_flag 2 True (set_flag 1 True (set_flag 63 False (set_flag 0 True w))))"

lemma link_pte_simps [simp]:
  "pte_present (link_pte pa w)" "fits_pte pa \<Longrightarrow> pte_follow (link_pte pa w) = pa"
  by (simp add: pte_present_def link_pte_def bit_set_address bit_set_flag)
    (rule pte_follow_eqI, simp_all add: link_pte_def bit_set_address bit_set_flag
      PTE_GET_PHY_ADDRESS_def bit_simps)

lemma load64_zeroed:
  assumes "page_aligned p" and "unat i < 512"
  shows "load64 (memset p 0 PAGE_SIZE m) (pte_slot p i) = 0"
proof -
  have "load64 (memset p 0 PAGE_SIZE m) (pte_slot p i) = load64 (\<lambda>_. 0) (pte_slot p i)"
  proof (rule load64_cong)
    fix x assume "in_region (pte_slot p i) 8 x"
    then have "pageno x = pageno p"
      using in_region8_pageno slot_page [OF assms] by metis
    then show "memset p 0 PAGE_SIZE m x = 0"
      using assms(1) by (simp add: memset_apply PAGE_SIZE_def in_page_iff)
  qed
  then show ?thesis by simp
qed

lemma same_page_memset: "page_aligned p \<Longrightarrow> n \<noteq> pageno p \<Longrightarrow> same_page m (memset p c PAGE_SIZE m) n"
  by (auto simp: same_page_def memset_apply PAGE_SIZE_def in_page_iff)

definition linked :: "mem \<Rightarrow> u64 \<Rightarrow> u64 \<Rightarrow> u64 \<Rightarrow> u64 \<Rightarrow> mem" where
  "linked m p t i w = store64 (memset p 0 PAGE_SIZE m) (pte_slot t i) w"

definition link_ok :: "tables \<Rightarrow> mem \<Rightarrow> u64 \<Rightarrow> u64 \<Rightarrow> u64 \<Rightarrow> nat \<Rightarrow> nat \<Rightarrow> u64 \<Rightarrow> u64 \<Rightarrow> bool" where
  "link_ok Q m h p t l n i w \<longleftrightarrow> pt_tree Q m h \<and> page_aligned p \<and> p \<noteq> 0 \<and> Q p = None \<and>
     Q t = Some (Suc l, n) \<and> unat i < 512 \<and> \<not> pte_present (load64 m (pte_slot t i)) \<and>
     pte_present w \<and> pte_follow w + h = p"

lemma linked_load:
  assumes "link_ok Q m h p t l n i w" and "Q t' = Some x" and "unat i' < 512"
  shows "load64 (linked m p t i w) (pte_slot t' i') =
    (if t' = t \<and> i' = i then w else load64 m (pte_slot t' i'))"
proof -
  have al: "page_aligned t" "page_aligned t'" "page_aligned p" "t' \<noteq> p" "unat i < 512"
    using assms(1,2) by (cases x; auto simp: link_ok_def dest: pt_tree_aligned)+
  have "load64 (memset p 0 PAGE_SIZE m) (pte_slot t' i') = load64 m (pte_slot t' i')"
    using al assms(3)
    by (intro load64_same_page [symmetric] same_page_memset) (simp_all add: slot_page page_aligned_eq)
  then show ?thesis
    using load_store_slot [OF al(1,2,5) assms(3)] by (auto simp: linked_def)
qed

lemma linked_load_new:
  assumes "link_ok Q m h p t l n i w" and "unat i' < 512"
  shows "load64 (linked m p t i w) (pte_slot p i') = 0"
proof -
  have al: "page_aligned t" "page_aligned p" "t \<noteq> p" "unat i < 512"
    using assms(1) by (auto simp: link_ok_def dest: pt_tree_aligned)
  then show ?thesis
    using load_store_slot [OF al(1,2,4) assms(2)] load64_zeroed [OF al(2) assms(2)]
    by (simp add: linked_def)
qed

lemma pt_tree_linked:
  assumes "link_ok Q m h p t l n i w"
  shows "pt_tree (Q(p \<mapsto> (l, n * 512 + unat i))) (linked m p t i w) h"
proof -
  let ?Q = "Q(p \<mapsto> (l, n * 512 + unat i))" and ?m = "linked m p t i w"
  have "?Q (pte_follow (load64 ?m (pte_slot t' i')) + h) = Some (l', n' * 512 + unat i')"
    if a: "?Q t' = Some (Suc l', n')" "unat i' < 512"
      and b: "(n' * 512 + unat i') * 2 ^ (9 * Suc l') < 2 ^ 34" "pte_present (load64 ?m (pte_slot t' i'))"
    for t' l' n' i'
  proof (cases "t' = p")
    case True
    with b(2) linked_load_new [OF assms a(2)] show ?thesis by simp
  next
    case False
    then have q: "Q t' = Some (Suc l', n')" using a(1) by simp
    show ?thesis
    proof (cases "t' = t \<and> i' = i")
      case True
      with q assms linked_load [OF assms q a(2)] show ?thesis by (simp add: link_ok_def)
    next
      case False
      then have "load64 ?m (pte_slot t' i') = load64 m (pte_slot t' i')"
        using linked_load [OF assms q a(2)] by auto
      with q a b assms have "Q (pte_follow (load64 ?m (pte_slot t' i')) + h) = Some (l', n' * 512 + unat i')"
        unfolding link_ok_def pt_tree_def by auto
      with assms show ?thesis by (auto simp: link_ok_def)
    qed
  qed
  then show ?thesis
    using assms unfolding link_ok_def pt_tree_def by auto
qed

lemma pt_lookup_linked:
  assumes ok: "link_ok Q m h p t l n i w" and va: "unat va < 2 ^ 46"
  shows "Q r = Some (k, region (Suc k) va) \<Longrightarrow> pt_lookup k (linked m p t i w) h r va = pt_lookup k m h r va"
proof (induction k arbitrary: r)
  case 0
  with ok have "r \<noteq> t" by (auto simp: link_ok_def)
  with linked_load [OF ok 0 index_less] show ?case by simp
next
  case (Suc k)
  let ?j = "PTE_INDEX_FROM_VA va (Suc k)"
  show ?case
  proof (cases "r = t \<and> ?j = i")
    case True
    have "pt_lookup k (linked m p t i w) h p va = None"
      using linked_load_new [OF ok index_less] by (cases k) simp_all
    with True ok linked_load [OF ok Suc.prems index_less [of va "Suc k"]] show ?thesis
      by (simp add: link_ok_def Let_def)
  next
    case False
    then have "load64 (linked m p t i w) (pte_slot r ?j) = load64 m (pte_slot r ?j)"
      using linked_load [OF ok Suc.prems index_less] by auto
    moreover have tree: "pt_tree Q m h" using ok by (simp add: link_ok_def)
    ultimately show ?thesis
      using Suc.IH pt_tree_step [OF tree Suc.prems va] by (simp add: Let_def)
  qed
qed

lemma same_page_linked:
  assumes "link_ok Q m h p t l n i w" and "k \<noteq> pageno p" and "k \<noteq> pageno t"
  shows "same_page m (linked m p t i w) k"
  using assms unfolding linked_def
  by (intro same_page_trans [OF same_page_memset same_page_store_slot])
    (auto simp: link_ok_def dest: pt_tree_aligned)

section \<open>Walking with allocation\<close>

text \<open>
  The tables may grow by pages taken from the pool: every translation stays, and memory outside the
  tables and the pages taken is untouched.
\<close>

definition pt_grow ::
  "tables \<Rightarrow> u64 list \<Rightarrow> ('d, 'z) kernel_scheme \<Rightarrow> tables \<Rightarrow> u64 list \<Rightarrow> ('d, 'z) kernel_scheme \<Rightarrow> bool" where
  "pt_grow Q fl s Q' fl' s' \<longleftrightarrow> pt_ok Q' fl' s' \<and> Q \<subseteq>\<^sub>m Q' \<and> hhdm_offset s' = hhdm_offset s \<and>
     (\<exists>used. fl = used @ fl' \<and> dom Q' = dom Q \<union> set used) \<and>
     (\<forall>k va r. unat va < 2 ^ 46 \<longrightarrow> Q r = Some (k, region (Suc k) va) \<longrightarrow>
        pt_lookup k (mem s') (hhdm_offset s) r va = pt_lookup k (mem s) (hhdm_offset s) r va) \<and>
     (\<forall>t x i. Q t = Some x \<longrightarrow> unat i < 512 \<longrightarrow> pte_present (load64 (mem s) (pte_slot t i)) \<longrightarrow>
        load64 (mem s') (pte_slot t i) = load64 (mem s) (pte_slot t i)) \<and>
     (\<forall>k. k \<notin> pageno ` dom Q' \<longrightarrow> same_page (mem s) (mem s') k)"

lemma pt_grow_refl: "pt_ok Q fl s \<Longrightarrow> pt_grow Q fl s Q fl s"
  by (simp add: pt_grow_def)

lemma pt_growD:
  assumes "pt_grow Q fl s Q' fl' s'"
  shows pt_grow_ok: "pt_ok Q' fl' s'" and pt_grow_le: "Q \<subseteq>\<^sub>m Q'"
    and pt_grow_hhdm: "hhdm_offset s' = hhdm_offset s"
    and pt_grow_used: "\<exists>used. fl = used @ fl' \<and> dom Q' = dom Q \<union> set used"
    and pt_grow_lookup: "unat va < 2 ^ 46 \<Longrightarrow> Q r = Some (k, region (Suc k) va) \<Longrightarrow>
      pt_lookup k (mem s') (hhdm_offset s) r va = pt_lookup k (mem s) (hhdm_offset s) r va"
    and pt_grow_present: "Q t = Some x \<Longrightarrow> unat i < 512 \<Longrightarrow> pte_present (load64 (mem s) (pte_slot t i)) \<Longrightarrow>
      load64 (mem s') (pte_slot t i) = load64 (mem s) (pte_slot t i)"
    and pt_grow_frame: "j \<notin> pageno ` dom Q' \<Longrightarrow> same_page (mem s) (mem s') j"
  using assms by (simp_all add: pt_grow_def)

lemma pt_grow_mono: "pt_grow Q fl s Q' fl' s' \<Longrightarrow> Q r = Some x \<Longrightarrow> Q' r = Some x"
  by (drule pt_grow_le) (auto simp: map_le_def dom_def)

lemma pt_grow_trans:
  assumes g1: "pt_grow Q fl s Q1 fl1 s1" and g2: "pt_grow Q1 fl1 s1 Q2 fl2 s2"
  shows "pt_grow Q fl s Q2 fl2 s2"
proof -
  from pt_grow_used [OF g1] obtain u1 where u1: "fl = u1 @ fl1" "dom Q1 = dom Q \<union> set u1" by blast
  from pt_grow_used [OF g2] obtain u2 where u2: "fl1 = u2 @ fl2" "dom Q2 = dom Q1 \<union> set u2" by blast
  have "\<exists>used. fl = used @ fl2 \<and> dom Q2 = dom Q \<union> set used"
    using u1 u2 by (intro exI [of _ "u1 @ u2"]) auto
  moreover have "same_page (mem s) (mem s2) k" if "k \<notin> pageno ` dom Q2" for k
  proof (rule same_page_trans)
    have "k \<notin> pageno ` dom Q1" using that u2(2) by blast
    then show "same_page (mem s) (mem s1) k" by (rule pt_grow_frame [OF g1])
    show "same_page (mem s1) (mem s2) k" using that by (rule pt_grow_frame [OF g2])
  qed
  moreover have "load64 (mem s2) (pte_slot t i) = load64 (mem s) (pte_slot t i)"
    if "Q t = Some x" "unat i < 512" "pte_present (load64 (mem s) (pte_slot t i))" for t x i
    using pt_grow_present [OF g1 that] pt_grow_present [OF g2 pt_grow_mono [OF g1 that(1)] that(2)] that(3)
    by simp
  moreover have "pt_lookup k (mem s2) (hhdm_offset s) r va = pt_lookup k (mem s) (hhdm_offset s) r va"
    if "unat va < 2 ^ 46" "Q r = Some (k, region (Suc k) va)" for k va r
    using pt_grow_lookup [OF g1 that] pt_grow_lookup [OF g2 that(1) pt_grow_mono [OF g1 that(2)]]
      pt_grow_hhdm [OF g1] by simp
  moreover have "hhdm_offset s2 = hhdm_offset s"
    using pt_grow_hhdm [OF g1] pt_grow_hhdm [OF g2] by simp
  ultimately show ?thesis
    using pt_grow_ok [OF g2] map_le_trans [OF pt_grow_le [OF g1] pt_grow_le [OF g2]]
    by (simp add: pt_grow_def)
qed

lemma pt_grow_link:
  fixes s :: "('d, 'z) kernel_scheme" and v
  assumes ok: "pt_ok Q (p # fl) s" and t: "Q t = Some (Suc l, n)" and i: "unat i < 512"
    and absent: "\<not> pte_present (load64 (mem s) (pte_slot t i))"
  defines "s' \<equiv> s\<lparr>mem := linked (mem s) p t i (link_pte (p - hhdm_offset s) v),
      freepages := load64 (mem s) p, cpu := settled (cpu s)\<rparr>"
  shows "pt_grow Q (p # fl) s (Q(p \<mapsto> (l, n * 512 + unat i))) fl s'"
proof -
  have pool: "pool (p # fl) s" using ok by (simp add: pt_ok_def)
  then have p: "page_aligned p" "p \<noteq> 0" "page_aligned (hhdm_offset s)" "p \<notin> set fl"
    using kpool.holds_distinct [OF pool] by (auto simp: pool_def)
  then have fits: "fits_pte (p - hhdm_offset s)"
    using ok by (simp add: fits_pte_def page_aligned_diff pt_ok_def)
  have link: "link_ok Q (mem s) (hhdm_offset s) p t l n i (link_pte (p - hhdm_offset s) v)"
    using ok t i absent p fits by (auto simp: link_ok_def pt_ok_def dom_def)
  have tp: "page_aligned t" using ok t by (auto simp: pt_ok_def dest: pt_tree_aligned)
  have frame: "same_page (mem s) (mem s') k" if "k \<noteq> pageno p" "k \<noteq> pageno t" for k
    using same_page_linked [OF link that] by (simp add: s'_def)
  have "free_list (mem s) (load64 (mem s) p) fl" using pool by (simp add: pool_def)
  then have "free_list (mem s') (load64 (mem s) p) fl"
  proof (rule free_list_same_page)
    fix a assume a: "a \<in> set fl"
    then have "page_aligned a" using kpool.holds_pages [OF pool] by (simp add: is_free_page_def)
    moreover have "a \<noteq> p" "a \<noteq> t" using a p(4) pt_ok_disjoint [OF ok t] by auto
    ultimately show "same_page (mem s) (mem s') (pageno a)"
      using p(1) tp by (intro frame) (simp_all add: page_aligned_eq)
  qed
  then have "pt_ok (Q(p \<mapsto> (l, n * 512 + unat i))) fl s'"
    using ok p(4) pool pt_tree_linked [OF link] by (auto simp: pt_ok_def pool_def s'_def)
  moreover have "Q \<subseteq>\<^sub>m Q(p \<mapsto> (l, n * 512 + unat i))"
    using link by (auto simp: map_le_def link_ok_def)
  moreover have "same_page (mem s) (mem s') k" if "k \<notin> pageno ` dom (Q(p \<mapsto> (l, n * 512 + unat i)))" for k
    using that t by (intro frame) auto
  moreover have "load64 (mem s') (pte_slot t' i') = load64 (mem s) (pte_slot t' i')"
    if "Q t' = Some x" "unat i' < 512" "pte_present (load64 (mem s) (pte_slot t' i'))" for t' x i'
    using linked_load [OF link that(1,2)] that(3) absent by (auto simp: s'_def)
  moreover have "\<exists>used. p # fl = used @ fl \<and> dom (Q(p \<mapsto> (l, n * 512 + unat i))) = dom Q \<union> set used"
    by (intro exI [of _ "[p]"]) simp
  moreover have "hhdm_offset s' = hhdm_offset s" by (simp add: s'_def)
  moreover have "pt_lookup k (mem s') (hhdm_offset s) r va = pt_lookup k (mem s) (hhdm_offset s) r va"
    if "unat va < 2 ^ 46" "Q r = Some (k, region (Suc k) va)" for k va r
    using pt_lookup_linked [OF link that] by (simp add: s'_def)
  ultimately show ?thesis unfolding pt_grow_def by blast
qed

lemma kernel_update_order:
  "s\<lparr>freepages := f, cpu := c, mem := m\<rparr> = (s\<lparr>mem := m, freepages := f, cpu := c\<rparr> :: ('d, 'z) kernel_scheme)"
  by (cases s) simp

lemma walk_from_link:
  assumes ok: "pt_ok Q (p # fl) s" and t: "Q t = Some x"
    and absent: "\<not> pte_present (load64 (mem s) (pte_slot t (PTE_INDEX_FROM_VA va (Suc l))))"
  shows "walk_from (Suc l) t va True s = walk_from l p va True
    (s\<lparr>mem := linked (mem s) p t (PTE_INDEX_FROM_VA va (Suc l)) (link_pte (p - hhdm_offset s)
          (load64 (mem s) (pte_slot t (PTE_INDEX_FROM_VA va (Suc l))))),
      freepages := load64 (mem s) p, cpu := settled (cpu s)\<rparr>)"
proof -
  let ?i = "PTE_INDEX_FROM_VA va (Suc l)"
  have pool: "pool (p # fl) s" using ok by (simp add: pt_ok_def)
  then have p: "page_aligned p" "p \<noteq> 0" by (auto simp: pool_def)
  have tp: "page_aligned t" using ok t by (cases x) (auto simp: pt_ok_def dest: pt_tree_aligned)
  have "t \<noteq> p" using pt_ok_disjoint [OF ok t] by auto
  then have "load64 (memset p 0 PAGE_SIZE (mem s)) (pte_slot t ?i) = load64 (mem s) (pte_slot t ?i)"
    using p(1) tp
    by (intro load64_same_page [symmetric] same_page_memset) (simp_all add: slot_page index_less page_aligned_eq)
  then show ?thesis
    using absent p(2)
    by (simp add: Let_def get_pte_def kalloc_page [OF pool] set_mem_def memset_memset V2P_def
        change_pte_def linked_def link_pte_def kernel_update_order)
qed

lemma walk_from_alloc:
  assumes "pt_ok Q fl s" and "Q t = Some (l, region (Suc l) va)" and "unat va < 2 ^ 46" and "l \<le> length fl"
  shows "\<exists>Q' fl' s' a. walk_from l t va True s = Ok (a, s') \<and> pt_grow Q fl s Q' fl' s' \<and>
    length fl \<le> length fl' + l \<and> pt_reach l (mem s') (hhdm_offset s) t va = Some a"
  using assms
proof (induction l arbitrary: t Q fl s)
  case 0
  then show ?case
    by (intro exI [of _ Q] exI [of _ fl] exI [of _ s]) (simp add: pt_grow_refl)
next
  case (Suc l)
  let ?i = "PTE_INDEX_FROM_VA va (Suc l)" and ?h = "hhdm_offset s"
  let ?w = "load64 (mem s) (pte_slot t ?i)"
  have tree: "pt_tree Q (mem s) ?h" using Suc.prems(1) by (simp add: pt_ok_def)
  show ?case
  proof (cases "pte_present ?w")
    case True
    have n: "Q (pte_follow ?w + ?h) = Some (l, region (Suc l) va)"
      by (rule pt_tree_step [OF tree Suc.prems(2,3) True])
    from Suc.IH [OF Suc.prems(1) n Suc.prems(3)] Suc.prems(4) obtain Q' fl' s' a where
      r: "walk_from l (pte_follow ?w + ?h) va True s = Ok (a, s')" and g: "pt_grow Q fl s Q' fl' s'"
        "length fl \<le> length fl' + l" and a: "pt_reach l (mem s') ?h (pte_follow ?w + ?h) va = Some a"
      by auto
    have "load64 (mem s') (pte_slot t ?i) = ?w"
      by (rule pt_grow_present [OF g(1) Suc.prems(2) index_less True])
    with r g a True show ?thesis
      by (intro exI [of _ Q'] exI [of _ fl'] exI [of _ s'] exI [of _ a])
        (simp add: Let_def get_pte_def P2V_def)
  next
    case False
    obtain p fl1 where fl: "fl = p # fl1" using Suc.prems(4) by (cases fl) auto
    define s1 where "s1 = s\<lparr>mem := linked (mem s) p t ?i (link_pte (p - ?h) ?w),
      freepages := load64 (mem s) p, cpu := settled (cpu s)\<rparr>"
    let ?Q = "Q(p \<mapsto> (l, region (Suc l) va))"
    have g1: "pt_grow Q fl s ?Q fl1 s1"
      using pt_grow_link [OF Suc.prems(1) [unfolded fl] Suc.prems(2) index_less False]
      by (simp add: fl s1_def region_split [of "Suc l" va])
    have h: "hhdm_offset s1 = ?h" by (rule pt_grow_hhdm [OF g1])
    have "\<exists>Q' fl' s' a. walk_from l p va True s1 = Ok (a, s') \<and> pt_grow ?Q fl1 s1 Q' fl' s' \<and>
        length fl1 \<le> length fl' + l \<and> pt_reach l (mem s') (hhdm_offset s1) p va = Some a"
      using Suc.prems(3,4) fl by (intro Suc.IH pt_grow_ok [OF g1]) simp_all
    then obtain Q' fl' s' a where
      r: "walk_from l p va True s1 = Ok (a, s')" and g2: "pt_grow ?Q fl1 s1 Q' fl' s'"
        "length fl1 \<le> length fl' + l" and a: "pt_reach l (mem s') ?h p va = Some a"
      unfolding h by blast
    have pw: "p \<notin> set fl1" "pt_ok Q (p # fl1) s" "fits_pte (p - ?h)"
      using Suc.prems(1) fl kpool.holds_distinct [of fl s]
      by (auto simp: pt_ok_def pool_def fits_pte_def page_aligned_diff)
    have "load64 (mem s1) (pte_slot t ?i) = link_pte (p - ?h) ?w"
      by (simp add: s1_def linked_def)
    moreover have "load64 (mem s') (pte_slot t ?i) = load64 (mem s1) (pte_slot t ?i)"
      using pt_grow_mono [OF g1 Suc.prems(2)] calculation
      by (intro pt_grow_present [OF g2(1)]) (simp_all add: index_less)
    ultimately have "pt_reach (Suc l) (mem s') ?h t va = Some a"
      using a pw(3) by simp
    moreover have "walk_from (Suc l) t va True s = Ok (a, s')"
      using walk_from_link [OF pw(2) Suc.prems(2) False] r by (simp add: s1_def)
    ultimately show ?thesis
      using pt_grow_trans [OF g1 g2(1)] g2(2) fl by fastforce
  qed
qed

section \<open>Mapping pages\<close>

definition user_va :: "u64 \<Rightarrow> bool" where
  "user_va va \<longleftrightarrow> VA_MIN \<le> va \<and> va < VA_MAX"

lemma user_va_unat: "user_va va \<longleftrightarrow> 2 ^ 22 \<le> unat va \<and> unat va < 2 ^ 46"
  by (simp add: user_va_def VA_MIN_def VA_MAX_def word_le_nat_alt word_less_nat_alt)

definition pt_root :: "tables \<Rightarrow> u64 list \<Rightarrow> u64 \<Rightarrow> ('d, 'z) kernel_scheme \<Rightarrow> bool" where
  "pt_root Q fl root s \<longleftrightarrow> pt_ok Q fl s \<and> Q root = Some (3, 0)"

text \<open>A change of the tables and the pool that touches no memory outside of them.\<close>

definition pt_extends ::
  "tables \<Rightarrow> u64 list \<Rightarrow> ('d, 'z) kernel_scheme \<Rightarrow> tables \<Rightarrow> u64 list \<Rightarrow> ('d, 'z) kernel_scheme \<Rightarrow> bool" where
  "pt_extends Q fl s Q' fl' s' \<longleftrightarrow> pt_ok Q' fl' s' \<and> Q \<subseteq>\<^sub>m Q' \<and> hhdm_offset s' = hhdm_offset s \<and>
     (\<exists>used. fl = used @ fl' \<and> dom Q' = dom Q \<union> set used) \<and>
     (\<forall>k. k \<notin> pageno ` dom Q' \<longrightarrow> same_page (mem s) (mem s') k)"

lemma pt_extendsD:
  assumes "pt_extends Q fl s Q' fl' s'"
  shows pt_extends_ok: "pt_ok Q' fl' s'" and pt_extends_le: "Q \<subseteq>\<^sub>m Q'"
    and pt_extends_hhdm: "hhdm_offset s' = hhdm_offset s"
    and pt_extends_used: "\<exists>used. fl = used @ fl' \<and> dom Q' = dom Q \<union> set used"
    and pt_extends_frame: "j \<notin> pageno ` dom Q' \<Longrightarrow> same_page (mem s) (mem s') j"
  using assms by (simp_all add: pt_extends_def)

lemma pt_extends_refl: "pt_ok Q fl s \<Longrightarrow> pt_extends Q fl s Q fl s"
  by (simp add: pt_extends_def)

lemma pt_extends_trans:
  assumes g1: "pt_extends Q fl s Q1 fl1 s1" and g2: "pt_extends Q1 fl1 s1 Q2 fl2 s2"
  shows "pt_extends Q fl s Q2 fl2 s2"
proof -
  from pt_extends_used [OF g1] obtain u1 where u1: "fl = u1 @ fl1" "dom Q1 = dom Q \<union> set u1" by blast
  from pt_extends_used [OF g2] obtain u2 where u2: "fl1 = u2 @ fl2" "dom Q2 = dom Q1 \<union> set u2" by blast
  have "\<exists>used. fl = used @ fl2 \<and> dom Q2 = dom Q \<union> set used"
    using u1 u2 by (intro exI [of _ "u1 @ u2"]) auto
  moreover have "same_page (mem s) (mem s2) k" if "k \<notin> pageno ` dom Q2" for k
  proof (rule same_page_trans)
    have "k \<notin> pageno ` dom Q1" using that u2(2) by blast
    then show "same_page (mem s) (mem s1) k" by (rule pt_extends_frame [OF g1])
    show "same_page (mem s1) (mem s2) k" using that by (rule pt_extends_frame [OF g2])
  qed
  ultimately show ?thesis
    using pt_extends_ok [OF g2] map_le_trans [OF pt_extends_le [OF g1] pt_extends_le [OF g2]]
      pt_extends_hhdm [OF g1] pt_extends_hhdm [OF g2]
    by (simp add: pt_extends_def)
qed

lemma pt_extends_root:
  "pt_extends Q fl s Q' fl' s' \<Longrightarrow> Q r = Some x \<Longrightarrow> Q' r = Some x"
  by (drule pt_extends_le) (auto simp: map_le_def dom_def)

text \<open>A last-level entry is changed in place.\<close>

lemma pt_ok_store_leaf:
  assumes ok: "pt_ok Q fl s" and t: "Q t = Some (0, n)" and i: "unat i < 512"
  shows "pt_extends Q fl s Q fl (s\<lparr>mem := store64 (mem s) (pte_slot t i) w\<rparr>)"
proof -
  have tree: "pt_tree Q (mem s) (hhdm_offset s)" and pool: "pool fl s" using ok by (simp_all add: pt_ok_def)
  have tp: "page_aligned t" using pt_tree_aligned [OF tree t] by simp
  have "free_list (mem s) (freepages s) fl" using pool by (simp add: pool_def)
  then have "free_list (store64 (mem s) (pte_slot t i) w) (freepages s) fl"
  proof (rule free_list_same_page)
    fix a assume a: "a \<in> set fl"
    then have "page_aligned a" using kpool.holds_pages [OF pool] by (simp add: is_free_page_def)
    moreover have "a \<noteq> t" using a pt_ok_disjoint [OF ok t] by auto
    ultimately show "same_page (mem s) (store64 (mem s) (pte_slot t i) w) (pageno a)"
      using tp i by (intro same_page_store_slot) (simp_all add: page_aligned_eq)
  qed
  moreover have "same_page (mem s) (store64 (mem s) (pte_slot t i) w) k" if "k \<notin> pageno ` dom Q" for k
    using that t tp i by (intro same_page_store_slot) auto
  ultimately show ?thesis
    using ok pt_tree_store_leaf [OF tree t i] pool by (simp add: pt_extends_def pt_ok_def pool_def)
qed

text \<open>What the walk of \<open>vmm_map_pages\<close>, \<open>vmm_allocate\<close> and their kin gives.\<close>

lemma walk_alloc:
  assumes root: "pt_root Q fl root s" and va: "user_va va" and fl: "3 \<le> length fl"
  shows "\<exists>Q' fl' s' a. walk root va True False s = Ok (a, s') \<and> pt_grow Q fl s Q' fl' s' \<and>
    length fl \<le> length fl' + 3 \<and> pt_reach 3 (mem s') (hhdm_offset s) root va = Some a \<and> a \<noteq> 0"
proof -
  have u: "unat va < 2 ^ 46" using va by (simp add: user_va_unat)
  have Q: "Q root = Some (3, region (Suc 3) va)" "pt_ok Q fl s"
    using root region_4 [OF u] by (simp_all add: pt_root_def)
  from walk_from_alloc [OF Q(2,1) u fl] obtain Q' fl' s' a where
    r: "walk_from 3 root va True s = Ok (a, s')" and g: "pt_grow Q fl s Q' fl' s'"
      "length fl \<le> length fl' + 3" and a: "pt_reach 3 (mem s') (hhdm_offset s) root va = Some a"
    by blast
  have tree: "pt_tree Q' (mem s') (hhdm_offset s)"
    using pt_grow_ok [OF g(1)] pt_grow_hhdm [OF g(1)] by (simp add: pt_ok_def)
  from pt_reach_slot [OF tree u pt_grow_mono [OF g(1) Q(1)] a] obtain t0 where
    t0: "Q' t0 = Some (0, region (Suc 0) va)" "a = pte_slot t0 (PTE_INDEX_FROM_VA va 0)" by auto
  have "a \<noteq> 0"
  proof
    assume "a = 0"
    then have "pageno t0 = pageno 0"
      using t0 slot_page(1) [OF _ index_less] pt_tree_aligned [OF tree t0(1)] by metis
    then have "t0 = 0" using pt_tree_aligned [OF tree t0(1)] page_aligned_eq [of t0 0]
      by (simp add: page_aligned_def)
    with pt_tree_aligned [OF tree t0(1)] show False by simp
  qed
  with r g a va show ?thesis by (auto simp: walk_def user_va_def not_le not_less)
qed

lemma pt_grow_extends: "pt_grow Q fl s Q' fl' s' \<Longrightarrow> pt_extends Q fl s Q' fl' s'"
  by (simp add: pt_grow_def pt_extends_def)

lemma walk_new_entry:
  assumes root: "pt_root Q fl root s" and va: "user_va va" and fl: "3 \<le> length fl"
    and free: "translate s root va = None"
  obtains Q' fl' s' a where
    "walk root va True False s = Ok (a, s')" and "a \<noteq> 0" and "\<not> pte_present (load64 (mem s') a)"
    and "length fl \<le> length fl' + 3" and "pt_extends Q fl s Q' fl' s'"
    and "\<And>w. pte_present w \<Longrightarrow> pt_extends Q fl s Q' fl' (s'\<lparr>mem := store64 (mem s') a w\<rparr>)"
    and "\<And>w va'. pte_present w \<Longrightarrow> unat va' < 2 ^ 46 \<Longrightarrow>
      translate (s'\<lparr>mem := store64 (mem s') a w\<rparr>) root va' =
      (if pageno va' = pageno va then Some w else translate s root va')"
proof -
  let ?h = "hhdm_offset s"
  have Q: "Q root = Some (3, 0)" using root by (simp add: pt_root_def)
  have u: "unat va < 2 ^ 46" using va by (simp add: user_va_unat)
  from walk_alloc [OF root va fl] obtain Q' fl' s' a where
    r: "walk root va True False s = Ok (a, s')" and g: "pt_grow Q fl s Q' fl' s'" and
    l: "length fl \<le> length fl' + 3" and a: "pt_reach 3 (mem s') ?h root va = Some a" "a \<noteq> 0" by blast
  have h: "hhdm_offset s' = ?h" by (rule pt_grow_hhdm [OF g])
  have tree: "pt_tree Q' (mem s') ?h" using pt_grow_ok [OF g] h by (simp add: pt_ok_def)
  have Qr: "Q' root = Some (3, region (Suc 3) v)" if "unat v < 2 ^ 46" for v
    using pt_grow_mono [OF g Q] region_4 [OF that] by simp
  have keep: "pt_lookup 3 (mem s') ?h root v = translate s root v" if "unat v < 2 ^ 46" for v
    using pt_grow_lookup [OF g that, of root 3] Q region_4 [OF that] by (simp add: translate_def)
  have absent: "\<not> pte_present (load64 (mem s') a)"
    using keep [OF u] free a(1) by (auto simp: pt_lookup_reach split: if_splits)
  have ext: "pt_extends Q fl s Q' fl' (s'\<lparr>mem := store64 (mem s') a w\<rparr>)" for w
  proof -
    from pt_reach_slot [OF tree u Qr [OF u] a(1)] obtain t0 where
      t0: "Q' t0 = Some (0, region (Suc 0) va)" "a = pte_slot t0 (PTE_INDEX_FROM_VA va 0)" by auto
    show ?thesis
      using pt_ok_store_leaf [OF pt_grow_ok [OF g] t0(1) index_less, of _ _ w] t0(2)
      by (intro pt_extends_trans [OF pt_grow_extends [OF g]]) simp
  qed
  have tr: "translate (s'\<lparr>mem := store64 (mem s') a w\<rparr>) root va' =
      (if pageno va' = pageno va then Some w else translate s root va')"
    if "pte_present w" "unat va' < 2 ^ 46" for w va'
    using pt_lookup_store_leaf [OF tree Qr [OF u] Qr [OF that(2)] u that(2) a(1) that(1)] h keep [OF that(2)]
    by (simp add: translate_def)
  show ?thesis
    using r a(2) absent l pt_grow_extends [OF g] ext tr by (rule that)
qed

text \<open>The entry \<open>w\<close> maps to the frame at \<open>pa\<close> with these permissions.\<close>

definition maps_to :: "pte_permissions \<Rightarrow> u64 \<Rightarrow> u64 \<Rightarrow> bool" where
  "maps_to perm pa w \<longleftrightarrow> pte_present w \<and> pte_rw w = writable perm \<and> pte_us w = userspace perm \<and>
     pte_xd w = (\<not> executable perm) \<and> pte_follow w = pa"

lemma maps_to_new_pte: "fits_pte pa \<Longrightarrow> maps_to perm pa (new_pte perm pa w)"
  by (simp add: maps_to_def)

lemma next_page:
  assumes "page_aligned va" and "unat va + 4096 < 2 ^ 64"
  shows "page_aligned (va + PAGE_SIZE)" "unat (va + PAGE_SIZE) = unat va + 4096"
    "pageno (va + PAGE_SIZE) = Suc (pageno va)"
  using assms by (auto simp: PAGE_SIZE_def unat_add64 page_aligned_def pageno_def)

text \<open>
  The effect on the translations: the \<open>k\<close> pages from \<open>va\<close> on map to the frames from \<open>pa\<close> on, and the
  translation of every other address stays.
\<close>

definition maps_range ::
  "u64 \<Rightarrow> u64 \<Rightarrow> u64 \<Rightarrow> pte_permissions \<Rightarrow> nat \<Rightarrow> ('d, 'z) kernel_scheme \<Rightarrow> ('d, 'z) kernel_scheme \<Rightarrow> bool" where
  "maps_range root va pa perm k s s' \<longleftrightarrow> (\<forall>v. unat v < 2 ^ 46 \<longrightarrow>
     (if pageno va \<le> pageno v \<and> pageno v < pageno va + k
      then \<exists>w. translate s' root v = Some w \<and> maps_to perm (pa + of_nat (4096 * (pageno v - pageno va))) w
      else translate s' root v = translate s root v))"

lemma maps_rangeD:
  assumes "maps_range root va pa perm k s s'" and "unat v < 2 ^ 46" and "pageno v = pageno va + j" and "j < k"
  shows "\<exists>w. translate s' root v = Some w \<and> maps_to perm (pa + of_nat (4096 * j)) w"
  using spec [OF assms(1) [unfolded maps_range_def], of v] assms(2-4) by simp

definition unmapped_range :: "u64 \<Rightarrow> u64 \<Rightarrow> nat \<Rightarrow> ('d, 'z) kernel_scheme \<Rightarrow> bool" where
  "unmapped_range root va k s \<longleftrightarrow> (\<forall>v. unat v < 2 ^ 46 \<longrightarrow> pageno va \<le> pageno v \<longrightarrow> pageno v < pageno va + k \<longrightarrow>
     translate s root v = None)"

lemma maps_range_Suc:
  assumes one: "maps_range root va pa perm 1 s s1"
    and rest: "maps_range root (va + PAGE_SIZE) (pa + PAGE_SIZE) perm k s1 s'"
    and va: "pageno (va + PAGE_SIZE) = Suc (pageno va)"
  shows "maps_range root va pa perm (Suc k) s s'"
  unfolding maps_range_def
proof (intro allI impI)
  fix v :: u64 assume v: "unat v < 2 ^ 46"
  show "if pageno va \<le> pageno v \<and> pageno v < pageno va + Suc k
      then \<exists>w. translate s' root v = Some w \<and> maps_to perm (pa + of_nat (4096 * (pageno v - pageno va))) w
      else translate s' root v = translate s root v"
  proof (cases "Suc (pageno va) \<le> pageno v \<and> pageno v < Suc (pageno va) + k")
    case True
    then obtain j where j: "pageno v = Suc (pageno va + j)" by (metis add_Suc less_eqE)
    with True rest v va show ?thesis by (auto simp: maps_range_def PAGE_SIZE_def algebra_simps)
  next
    case False
    then have "translate s' root v = translate s1 root v" using rest v va by (auto simp: maps_range_def)
    moreover have "if pageno v = pageno va then \<exists>w. translate s1 root v = Some w \<and> maps_to perm pa w
        else translate s1 root v = translate s root v"
      using one v unfolding maps_range_def by (auto split: if_splits)
    ultimately show ?thesis using False by (auto split: if_splits)
  qed
qed

lemma unmapped_range_Suc:
  assumes "unmapped_range root va (Suc k) s" and "maps_range root va pa perm 1 s s1"
    and "pageno (va + PAGE_SIZE) = Suc (pageno va)"
  shows "unmapped_range root (va + PAGE_SIZE) k s1"
  using assms unfolding unmapped_range_def maps_range_def by (auto split: if_splits)

lemma map_page_step:
  fixes s :: "('d, 'z) kernel_scheme"
  assumes root: "pt_root Q fl root s" and va: "user_va va" and fl: "3 \<le> length fl"
    and free: "unmapped_range root va 1 s" and fits: "fits_pte pa"
  obtains Q' fl' s' a w where "walk root va True False s = Ok (a, s')" and "a \<noteq> 0"
    and "\<not> pte_present (load64 (mem s') a)" and "w = new_pte perm pa (load64 (mem s') a)"
    and "length fl \<le> length fl' + 3" and "pt_extends Q fl s Q' fl' (s'\<lparr>mem := store64 (mem s') a w\<rparr>)"
    and "pt_root Q' fl' root (s'\<lparr>mem := store64 (mem s') a w\<rparr>)"
    and "maps_range root va pa perm 1 s (s'\<lparr>mem := store64 (mem s') a w\<rparr>)"
proof -
  have u: "unat va < 2 ^ 46" using va by (simp add: user_va_unat)
  then have "translate s root va = None" using free by (simp add: unmapped_range_def)
  from root va fl this show ?thesis
  proof (rule walk_new_entry)
    fix Q' fl' a and s' :: "('d, 'z) kernel_scheme"
    let ?w = "new_pte perm pa (load64 (mem s') a)"
    let ?s = "s'\<lparr>mem := store64 (mem s') a ?w\<rparr>"
    assume r: "walk root va True False s = Ok (a, s')" "a \<noteq> 0" "\<not> pte_present (load64 (mem s') a)"
      and l: "length fl \<le> length fl' + 3"
      and e: "\<And>w. pte_present w \<Longrightarrow> pt_extends Q fl s Q' fl' (s'\<lparr>mem := store64 (mem s') a w\<rparr>)"
      and tr: "\<And>w va'. pte_present w \<Longrightarrow> unat va' < 2 ^ 46 \<Longrightarrow>
        translate (s'\<lparr>mem := store64 (mem s') a w\<rparr>) root va' =
        (if pageno va' = pageno va then Some w else translate s root va')"
    have ext: "pt_extends Q fl s Q' fl' ?s" by (rule e) simp
    have "pt_root Q' fl' root ?s"
      using root pt_extends_root [OF ext] pt_extends_ok [OF ext] by (simp add: pt_root_def)
    moreover have "maps_range root va pa perm 1 s ?s"
      unfolding maps_range_def using tr [of ?w] maps_to_new_pte [OF fits] by auto
    ultimately show ?thesis using r l ext by (intro that [OF _ _ _ refl]) auto
  qed
qed

lemma map_pages_loop_ok:
  assumes "pt_root Q fl root s" and "page_aligned va" and "page_aligned pa"
    and "2 ^ 22 \<le> unat va" and "unat va + 4096 * k \<le> 2 ^ 46" and "unat pa + 4096 * k \<le> 2 ^ 46"
    and "3 * k \<le> length fl" and "unmapped_range root va k s"
  shows "\<exists>Q' fl' s'. map_pages_loop k root va pa perm s = Ok (0, s') \<and> pt_extends Q fl s Q' fl' s' \<and>
    maps_range root va pa perm k s s'"
  using assms
proof (induction k arbitrary: Q fl s va pa)
  case 0
  then show ?case
    by (intro exI [of _ Q] exI [of _ fl] exI [of _ s]) (auto simp: pt_extends_refl pt_root_def maps_range_def)
next
  case (Suc k)
  have uva: "user_va va" using Suc.prems by (simp add: user_va_unat)
  have fits: "fits_pte pa" using Suc.prems by (simp add: fits_pte_def)
  have l3: "3 \<le> length fl" and free: "unmapped_range root va 1 s"
    using Suc.prems(7,8) by (auto simp: unmapped_range_def)
  obtain Q1 fl1 s1 a w where
    r: "walk root va True False s = Ok (a, s1)" "a \<noteq> 0" "\<not> pte_present (load64 (mem s1) a)"
      "w = new_pte perm pa (load64 (mem s1) a)"
    and l: "length fl \<le> length fl1 + 3"
    and e: "pt_extends Q fl s Q1 fl1 (s1\<lparr>mem := store64 (mem s1) a w\<rparr>)"
    and root1: "pt_root Q1 fl1 root (s1\<lparr>mem := store64 (mem s1) a w\<rparr>)"
    and one: "maps_range root va pa perm 1 s (s1\<lparr>mem := store64 (mem s1) a w\<rparr>)"
    by (rule map_page_step [OF Suc.prems(1) uva l3 free fits]) (rule that)
  let ?s2 = "s1\<lparr>mem := store64 (mem s1) a w\<rparr>"
  have unat64: "unat va + 4096 < 2 ^ 64" "unat pa + 4096 < 2 ^ 64" using Suc.prems(5,6) by auto
  note va' = next_page [OF Suc.prems(2) unat64(1)] and pa' = next_page [OF Suc.prems(3) unat64(2)]
  have step: "map_pages_loop (Suc k) root va pa perm s =
      map_pages_loop k root (va + PAGE_SIZE) (pa + PAGE_SIZE) perm ?s2"
    using r by (simp add: get_pte_def change_pte_def set_mem_def)
  have "\<exists>Q' fl' s'. map_pages_loop k root (va + PAGE_SIZE) (pa + PAGE_SIZE) perm ?s2 = Ok (0, s') \<and>
    pt_extends Q1 fl1 ?s2 Q' fl' s' \<and> maps_range root (va + PAGE_SIZE) (pa + PAGE_SIZE) perm k ?s2 s'"
    using va' pa' l Suc.prems(4-7)
    by (intro Suc.IH [OF root1] unmapped_range_Suc [OF Suc.prems(8) one]) simp_all
  then obtain Q' fl' s' where r2: "map_pages_loop (Suc k) root va pa perm s = Ok (0, s')"
    and e2: "pt_extends Q1 fl1 ?s2 Q' fl' s'"
    and t2: "maps_range root (va + PAGE_SIZE) (pa + PAGE_SIZE) perm k ?s2 s'" unfolding step by blast
  show ?case
    using r2 pt_extends_trans [OF e e2] maps_range_Suc [OF one t2 va'(3)] by blast
qed

lemma walk_no_alloc:
  "user_va va \<Longrightarrow> walk root va False False s =
     Ok (case pt_reach 3 (mem s) (hhdm_offset s) root va of None \<Rightarrow> 0 | Some a \<Rightarrow> a, s)"
  by (simp add: walk_def user_va_def not_le not_less walk_from_no_alloc)

lemma pt_reach_nonzero:
  assumes "pt_root Q fl root s" and "unat va < 2 ^ 46"
    and "pt_reach 3 (mem s) (hhdm_offset s) root va = Some a"
  shows "a \<noteq> 0"
proof
  assume "a = 0"
  have tree: "pt_tree Q (mem s) (hhdm_offset s)" "Q root = Some (3, region (Suc 3) va)"
    using assms(1) region_4 [OF assms(2)] by (simp_all add: pt_root_def pt_ok_def)
  from pt_reach_slot [OF tree(1) assms(2) tree(2) assms(3)] obtain t0 where
    t0: "Q t0 = Some (0, region (Suc 0) va)" "a = pte_slot t0 (PTE_INDEX_FROM_VA va 0)" by auto
  have al: "page_aligned t0" "t0 \<noteq> 0" using pt_tree_aligned [OF tree(1) t0(1)] by auto
  then have "pageno t0 = pageno 0"
    using t0(2) \<open>a = 0\<close> slot_page(1) [OF al(1) index_less] by metis
  with al page_aligned_eq [of t0 0] show False by (simp add: page_aligned_def)
qed

text \<open>The entry that a walk without allocation finds is the translation.\<close>

lemma walk_translate:
  assumes "pt_root Q fl root s" and "user_va va"
  shows "\<exists>a. walk root va False False s = Ok (a, s) \<and>
    translate s root va = (if a \<noteq> 0 \<and> pte_present (load64 (mem s) a) then Some (load64 (mem s) a) else None)"
proof -
  have "unat va < 2 ^ 46" using assms(2) by (simp add: user_va_unat)
  with pt_reach_nonzero [OF assms(1)] show ?thesis
    by (auto simp: walk_no_alloc [OF assms(2)] translate_def pt_lookup_reach split: option.splits)
qed

lemma vmm_walkaddr_eq:
  assumes "pt_root Q fl root s" and "user_va va"
  shows "vmm_walkaddr root va user s = Ok (case translate s root va of None \<Rightarrow> 0
    | Some w \<Rightarrow> if pte_us w = user then take_bit 34 (pte_follow w) else 0, s)"
proof -
  from walk_translate [OF assms] obtain a where a: "walk root va False False s = Ok (a, s)"
    "translate s root va = (if a \<noteq> 0 \<and> pte_present (load64 (mem s) a) then Some (load64 (mem s) a) else None)"
    by blast
  then show ?thesis
    using assms(2)
    by (simp add: vmm_walkaddr_def user_va_def get_pte_def pte_follow_def leD flip: not_less)
qed

lemma take_bit_34_id: "unat pa < 2 ^ 34 \<Longrightarrow> take_bit 34 (pa :: u64) = pa"
  by (simp add: word_unat_eq_iff unsigned_take_bit_eq take_bit_nat_eq_self)

lemma page_frame_unat:
  assumes "unat pa + 4096 * k \<le> 2 ^ 46" and "j < k"
  shows "unat (pa + of_nat (4096 * j) :: u64) = unat pa + 4096 * j"
proof -
  have "unat (of_nat (4096 * j) :: u64) = 4096 * j" using assms by (intro unat_of_nat64) simp
  then show ?thesis using assms by (subst unat_add64) simp_all
qed

section \<open>Properties of the mapping functions\<close>

lemma vmm_map_pages_loop:
  assumes "page_aligned va" and "page_aligned pa" and "page_aligned sz" and "sz \<noteq> 0"
  shows "vmm_map_pages root va sz pa perm s = map_pages_loop (unat sz div 4096) root va pa perm s"
  using assms by (simp add: vmm_map_pages_def PAGE_SIZE_def page_aligned_mod unat_div)


text \<open>A machine with an empty root table and three free pages.\<close>

definition pt_memory :: mem where
  "pt_memory = store64 (store64 (\<lambda>_. 0) 0xffff800000002000 0xffff800000003000)
     0xffff800000003000 0xffff800000004000"

definition pt_kernel :: "unit kernel" where
  "pt_kernel = boot_kernel\<lparr>mem := pt_memory, freepages := 0xffff800000002000\<rparr>"

definition pt_pages :: "u64 list" where
  "pt_pages = [0xffff800000002000, 0xffff800000003000, 0xffff800000004000]"

definition empty_root :: tables where
  "empty_root = [0xffff800000001000 \<mapsto> (3, 0)]"

lemma pool_pt_kernel: "pool pt_pages pt_kernel"
  by (simp add: pool_def pt_kernel_def pt_pages_def pt_memory_def boot_kernel_def page_aligned_def
      aligned8_def load64_store64_other)

lemma empty_root_entries: "unat i < 512 \<Longrightarrow> load64 pt_memory (pte_slot 0xffff800000001000 i) = 0"
proof -
  assume i: "unat i < 512"
  let ?r = "0xffff800000001000 :: u64"
  have r: "page_aligned ?r" "pageno ?r = 0xffff800000001" by (simp_all add: page_aligned_def pageno_def)
  have "same_page (\<lambda>_. 0) pt_memory (pageno ?r)"
    unfolding pt_memory_def
    by (intro same_page_trans [OF same_page_store64 same_page_store64]) (simp_all add: pageno_def aligned8_def)
  then have "load64 (\<lambda>_. 0) (pte_slot ?r i) = load64 pt_memory (pte_slot ?r i)"
    using slot_page [OF r(1) i] by (intro load64_same_page) simp_all
  then show ?thesis by simp
qed

lemma pt_root_pt_kernel: "pt_root empty_root pt_pages 0xffff800000001000 pt_kernel"
proof -
  have "pt_tree empty_root pt_memory 0xffff800000000000"
    by (auto simp: pt_tree_def empty_root_def page_aligned_def empty_root_entries split: if_splits)
  then show ?thesis
    using pool_pt_kernel
    by (auto simp: pt_root_def pt_ok_def pt_pages_def empty_root_def pt_kernel_def boot_kernel_def)
qed

lemma unmapped_pt_kernel: "unmapped_range 0xffff800000001000 va k pt_kernel"
  by (simp add: unmapped_range_def translate_def pt_kernel_def boot_kernel_def numeral_3_eq_3 Let_def
      empty_root_entries index_less)

definition user_rw :: pte_permissions where
  "user_rw = \<lparr>writable = True, executable = False, userspace = True\<rparr>"


text \<open>
  C10. Mapping and looking up are inverse. After \<open>vmm_map_pages\<close>, \<open>vmm_walkaddr\<close> returns the frame of
  each page of the range to a caller that asks for the page's privilege and 0 to any other caller.
  The frames have to lie below 16 GiB: \<open>vmm_walkaddr\<close> shifts the 34-bit address field without
  widening it, so the bits of a frame address from 34 on are lost.
\<close>

theorem vmm_map_pages_walkaddr:
  assumes "pt_root Q fl root s" and "page_aligned va" and "page_aligned pa" and "page_aligned sz" and "sz \<noteq> 0"
    and "VA_MIN \<le> va" and "unat va + unat sz \<le> 2 ^ 46" and "unat pa + unat sz \<le> 2 ^ 34"
    and "3 * (unat sz div 4096) \<le> length fl" and "unmapped_range root va (unat sz div 4096) s"
    and "j < unat sz div 4096"
  shows "\<exists>s'. vmm_map_pages root va sz pa perm s = Ok (0, s') \<and>
    vmm_walkaddr root (va + of_nat (4096 * j)) user s' =
      Ok (if userspace perm = user then pa + of_nat (4096 * j) else 0, s')"
proof -
  let ?k = "unat sz div 4096" and ?v = "va + of_nat (4096 * j)"
  have sz: "4096 * ?k = unat sz" using assms(4) by (auto elim!: page_alignedE)
  have va: "2 ^ 22 \<le> unat va" using assms(6) by (simp add: VA_MIN_def word_le_nat_alt)
  have "\<exists>Q' fl' s'. map_pages_loop ?k root va pa perm s = Ok (0, s') \<and> pt_extends Q fl s Q' fl' s' \<and>
      maps_range root va pa perm ?k s s'"
    using assms sz va by (intro map_pages_loop_ok) simp_all
  then obtain Q' fl' s' where r: "vmm_map_pages root va sz pa perm s = Ok (0, s')"
    and e: "pt_extends Q fl s Q' fl' s'" and mr: "maps_range root va pa perm ?k s s'"
    using vmm_map_pages_loop [OF assms(2-5), of root perm s] by auto
  have uv: "unat ?v = unat va + 4096 * j" using assms(7,11) sz by (intro page_frame_unat [of _ ?k]) simp_all
  have up: "unat (pa + of_nat (4096 * j)) = unat pa + 4096 * j"
    using assms(8,11) sz by (intro page_frame_unat [of _ ?k]) simp_all
  have pv: "pageno ?v = pageno va + j" using uv assms(2) by (auto simp: pageno_def elim!: page_alignedE)
  have v46: "unat ?v < 2 ^ 46" using uv assms(7,11) sz by simp
  from maps_rangeD [OF mr v46 pv assms(11)] obtain w
    where w: "translate s' root ?v = Some w" "maps_to perm (pa + of_nat (4096 * j)) w" by blast
  have "user_va ?v" using uv va v46 by (simp add: user_va_unat)
  moreover have "pt_root Q' fl' root s'"
    using assms(1) pt_extends_root [OF e] pt_extends_ok [OF e] by (simp add: pt_root_def)
  moreover have "take_bit 34 (pa + of_nat (4096 * j)) = pa + of_nat (4096 * j)"
    using up assms(8,11) sz by (intro take_bit_34_id) simp
  ultimately show ?thesis
    using r w by (simp add: vmm_walkaddr_eq maps_to_def del: of_nat_mult)
qed

theorem vmm_map_pages_walkaddr_witness:
  "\<exists>s'. vmm_map_pages 0xffff800000001000 0x400000 4096 0x5000 user_rw pt_kernel = Ok (0, s') \<and>
     vmm_walkaddr 0xffff800000001000 (0x400000 + of_nat (4096 * 0)) True s' =
       Ok (if userspace user_rw = True then 0x5000 + of_nat (4096 * 0) else 0, s')"
  by (rule vmm_map_pages_walkaddr [OF pt_root_pt_kernel])
    (simp_all add: page_aligned_def VA_MIN_def pt_pages_def unmapped_pt_kernel)

end
