(* ===== verification/Vmm_User.thy ===== *)
theory Vmm_User
  imports Vmm
begin

text \<open>
  What \<^verbatim>\<open>src/kernel/mem/vmm.c\<close> does for user processes: copies into the memory of a process,
  allocation of its pages, growing and shrinking of its heap, and the copy and release of its page
  table.
\<close>

declare vmm_memcpy.simps [simp del]

section \<open>Addresses of a process\<close>

text \<open>Where the kernel finds the byte that a process sees at \<open>va\<close>.\<close>

definition uaddr :: "('d, 'z) kernel_scheme \<Rightarrow> u64 \<Rightarrow> u64 \<Rightarrow> u64 option" where
  "uaddr s root va = (case translate s root va of None \<Rightarrow> None
     | Some w \<Rightarrow> Some (P2V s (pte_follow w) + take_bit 12 va))"

definition writable_at :: "('d, 'z) kernel_scheme \<Rightarrow> u64 \<Rightarrow> bool \<Rightarrow> u64 \<Rightarrow> bool" where
  "writable_at s root user va \<longleftrightarrow>
     (case translate s root va of None \<Rightarrow> False | Some w \<Rightarrow> pte_us w = user \<and> pte_rw w)"

lemma pt_lookup_pageno: "pageno va' = pageno va \<Longrightarrow> pt_lookup l m h t va' = pt_lookup l m h t va"
  using pt_reach_pageno [of va' va l m h t] by (simp add: pt_lookup_reach)

lemma translate_pageno: "pageno va' = pageno va \<Longrightarrow> translate s root va' = translate s root va"
  unfolding translate_def by (rule pt_lookup_pageno)

lemma translate_cong:
  assumes "pt_root Q fl root s" and "hhdm_offset s' = hhdm_offset s"
    and "\<And>t. t \<in> dom Q \<Longrightarrow> same_page (mem s) (mem s') (pageno t)" and "unat va < 2 ^ 46"
  shows "translate s' root va = translate s root va"
  unfolding translate_def assms(2)
proof (rule pt_lookup_cong)
  show "pt_tree Q (mem s) (hhdm_offset s)" using assms(1) by (simp add: pt_root_def pt_ok_def)
  show "Q root = Some (3, region (Suc 3) va)" using assms(1) region_4 [OF assms(4)] by (simp add: pt_root_def)
  show "unat va < 2 ^ 46" by (rule assms(4))
  show "same_page (mem s) (mem s') (pageno t)" if "Q t = Some (l, n)" for t l n
    using that by (intro assms(3)) auto
qed

lemma unat_take_bit_12: "unat (take_bit 12 (a :: u64)) = unat a mod 4096"
  by (simp add: unsigned_take_bit_eq take_bit_eq_mod unat_word_mod)

lemma round_down_eq: "PAGE_ROUND_DOWN a = a - take_bit 12 a"
  using round_down_offset [of a] by (simp add: algebra_simps)

lemma page_round_down:
  "page_aligned (PAGE_ROUND_DOWN a)" "unat (PAGE_ROUND_DOWN a) = unat a - unat a mod 4096"
  "pageno (PAGE_ROUND_DOWN a) = pageno a"
proof -
  have "unat (take_bit 12 a) \<le> unat a" by (simp add: unat_take_bit_12)
  then show u: "unat (PAGE_ROUND_DOWN a) = unat a - unat a mod 4096"
    unfolding round_down_eq by (simp add: unat_sub word_le_nat_alt unat_take_bit_12)
  then show "page_aligned (PAGE_ROUND_DOWN a)"
    by (simp add: page_aligned_def minus_mod_eq_mult_div)
  from u show "pageno (PAGE_ROUND_DOWN a) = pageno a"
    by (simp add: pageno_def minus_mod_eq_mult_div)
qed

text \<open>Bytes of one page.\<close>

lemma same_page_offset:
  fixes dst :: u64
  assumes "unat dst mod 4096 + j < 4096"
  shows "unat (dst + of_nat j) = unat dst + j" "pageno (dst + of_nat j) = pageno dst"
    "take_bit 12 (dst + of_nat j) = take_bit 12 dst + of_nat j"
proof -
  define q r where "q = unat dst div 4096" and "r = unat dst mod 4096"
  have d: "unat dst = 4096 * q + r" "r + j < 4096" using assms by (simp_all add: q_def r_def)
  have "q < 4503599627370496" unfolding q_def by (rule less_mult_imp_div_less) simp
  then have l: "unat dst + j < 18446744073709551616" using d by simp
  have uj: "unat (of_nat j :: u64) = j" using d(2) by (simp add: unat_of_nat64)
  show u: "unat (dst + of_nat j) = unat dst + j" using uj l by (simp add: unat_add64)
  show "pageno (dst + of_nat j) = pageno dst" using d by (simp add: pageno_def u)
  have "unat (take_bit 12 dst + of_nat j) = r + j"
    using d(2) uj by (subst unat_add64) (simp_all add: unat_take_bit_12 r_def)
  then show "take_bit 12 (dst + of_nat j) = take_bit 12 dst + of_nat j"
    using d by (simp add: word_unat_eq_iff unat_take_bit_12 u add.assoc)
qed

lemma uaddr_same_page:
  assumes "unat dst mod 4096 + j < 4096" and "uaddr s root dst = Some a"
  shows "uaddr s root (dst + of_nat j) = Some (a + of_nat j)"
  using assms(2) translate_pageno [OF same_page_offset(2) [OF assms(1)], of s root]
    same_page_offset(3) [OF assms(1)]
  by (auto simp: uaddr_def split: option.splits)

lemma uaddr_page:
  assumes "page_aligned (hhdm_offset s)" and "uaddr s root va = Some a"
  shows "unat a mod 4096 = unat va mod 4096"
proof -
  from assms(2) obtain w where w: "a = P2V s (pte_follow w) + take_bit 12 va"
    by (auto simp: uaddr_def split: option.splits)
  have "take_bit 12 (pte_follow w) = 0" by (rule bit_word_eqI) (simp add: pte_follow_def bit_simps)
  then have "page_aligned (pte_follow w)"
    using unat_take_bit_12 [of "pte_follow w"] by (simp add: page_aligned_def)
  then have "page_aligned (P2V s (pte_follow w))"
    using assms(1) by (simp add: P2V_def page_aligned_add)
  then obtain k where "unat (P2V s (pte_follow w)) = 4096 * k" by (rule page_alignedE)
  moreover have "unat a = unat (P2V s (pte_follow w)) + unat va mod 4096"
    unfolding w using \<open>page_aligned (P2V s (pte_follow w))\<close>
    by (subst page_offset_unat) (simp_all add: unat_take_bit_12)
  ultimately show ?thesis by simp
qed

section \<open>Copying into a process\<close>

definition chunk :: "u64 \<Rightarrow> u64 \<Rightarrow> u64" where
  "chunk dst len = (if len < PAGE_SIZE - take_bit 12 dst then len else PAGE_SIZE - take_bit 12 dst)"

lemma unat_chunk: "unat (chunk dst len) = min (unat len) (4096 - unat dst mod 4096)"
proof -
  have "unat (PAGE_SIZE - take_bit 12 dst) = 4096 - unat dst mod 4096"
    using unat_page_offset [of dst] by (simp add: unat_sub_if' PAGE_SIZE_def unat_take_bit_12)
  then show ?thesis by (auto simp: chunk_def word_less_nat_alt)
qed

lemma user_va_round_down:
  assumes "user_va va"
  shows "user_va (PAGE_ROUND_DOWN va)"
proof -
  have b: "4194304 \<le> unat va" "unat va < 70368744177664" using assms by (simp_all add: user_va_unat)
  have "1024 * 4096 \<le> unat va" using b(1) by simp
  then have "1024 \<le> unat va div 4096" by (simp only: less_eq_div_iff_mult_less_eq)
  moreover have "unat (PAGE_ROUND_DOWN va) = 4096 * (unat va div 4096)"
    by (simp only: page_round_down(2) minus_mod_eq_mult_div)
  ultimately have "4194304 \<le> unat (PAGE_ROUND_DOWN va)" by simp
  moreover have "unat (PAGE_ROUND_DOWN va) \<le> unat va" by (simp only: page_round_down(2) diff_le_self)
  ultimately show ?thesis using b(2) by (simp add: user_va_unat)
qed

lemma user_va_guards: "user_va va \<Longrightarrow> \<not> VA_MAX \<le> va" "user_va va \<Longrightarrow> \<not> va < VA_MIN"
  by (auto simp: user_va_def not_le not_less)

lemma walk_round_down:
  assumes "pt_root Q fl root s" and "user_va dst"
  obtains p where "walk root (PAGE_ROUND_DOWN dst) False False s = Ok (p, s)"
    and "translate s root dst = (if p \<noteq> 0 \<and> pte_present (load64 (mem s) p) then Some (load64 (mem s) p) else None)"
  using walk_translate [OF assms(1) user_va_round_down [OF assms(2)]]
    translate_pageno [OF page_round_down(3) [of dst], of s root] by auto

lemma memcpy_none: "vmm_memcpy root dst src 0 user s = Ok (0, s)"
  by (simp add: vmm_memcpy.simps)

lemma memcpy_step_ok:
  assumes root: "pt_root Q fl root s" and va: "user_va dst" and len: "len \<noteq> 0"
    and w: "writable_at s root user dst" and a: "uaddr s root dst = Some a"
  shows "vmm_memcpy root dst src len user s =
    vmm_memcpy root (PAGE_ROUND_DOWN dst + PAGE_SIZE) (src + chunk dst len) (len - chunk dst len) user
      (s\<lparr>mem := memmove a src (chunk dst len) (mem s)\<rparr>)"
proof -
  from root va obtain p where p: "walk root (PAGE_ROUND_DOWN dst) False False s = Ok (p, s)"
    "translate s root dst = (if p \<noteq> 0 \<and> pte_present (load64 (mem s) p) then Some (load64 (mem s) p) else None)"
    by (rule walk_round_down)
  from w a have e: "p \<noteq> 0" "pte_present (load64 (mem s) p)" "pte_us (load64 (mem s) p) = user"
    "pte_rw (load64 (mem s) p)" "a = P2V s (pte_follow (load64 (mem s) p)) + take_bit 12 dst"
    unfolding writable_at_def uaddr_def p(2) by (simp_all split: if_splits)
  note r = user_va_guards [OF user_va_round_down [OF va]]
  show ?thesis
    unfolding vmm_memcpy.simps [of root dst] chunk_def e(5)
    using len p(1) r e(1-4) by (simp add: Let_def round_down_offset)
qed

lemma memcpy_step_fault:
  assumes root: "pt_root Q fl root s" and va: "user_va dst" and len: "len \<noteq> 0"
    and w: "\<not> writable_at s root user dst"
  shows "vmm_memcpy root dst src len user s = Ok (-1, s)"
proof -
  from root va obtain p where p: "walk root (PAGE_ROUND_DOWN dst) False False s = Ok (p, s)"
    "translate s root dst = (if p \<noteq> 0 \<and> pte_present (load64 (mem s) p) then Some (load64 (mem s) p) else None)"
    by (rule walk_round_down)
  from w have e: "p = 0 \<or> \<not> pte_present (load64 (mem s) p) \<or> pte_us (load64 (mem s) p) \<noteq> user \<or>
      \<not> pte_rw (load64 (mem s) p)"
    unfolding writable_at_def p(2) by (auto split: if_splits)
  note r = user_va_guards [OF user_va_round_down [OF va]]
  show ?thesis
    unfolding vmm_memcpy.simps [of root dst] using len p(1) r e by (simp add: Let_def)
qed

lemma pt_treeD:
  "pt_tree Q m h \<Longrightarrow> Q t = Some (Suc l, n) \<Longrightarrow> unat i < 512 \<Longrightarrow> (n * 512 + unat i) * 2 ^ (9 * Suc l) < 2 ^ 34 \<Longrightarrow>
   pte_present (load64 m (pte_slot t i)) \<Longrightarrow>
   Q (pte_follow (load64 m (pte_slot t i)) + h) = Some (l, n * 512 + unat i)"
  unfolding pt_tree_def by blast

lemma pt_tree_frame:
  assumes tree: "pt_tree Q m h" and keep: "\<And>t. t \<in> dom Q \<Longrightarrow> same_page m m' (pageno t)"
  shows "pt_tree Q m' h"
proof -
  have "Q (pte_follow (load64 m' (pte_slot t i)) + h) = Some (l, n * 512 + unat i)"
    if q: "Q t = Some (Suc l, n)" "unat i < 512"
      and c: "(n * 512 + unat i) * 2 ^ (9 * Suc l) < 2 ^ 34" "pte_present (load64 m' (pte_slot t i))"
    for t l n i
  proof -
    have "page_aligned t" using pt_tree_aligned [OF tree q(1)] by simp
    then have "load64 m (pte_slot t i) = load64 m' (pte_slot t i)"
      using keep [of t] q slot_page [of t i] by (intro load64_same_page) auto
    with pt_treeD [OF tree q c(1)] c(2) show ?thesis by simp
  qed
  with tree show ?thesis unfolding pt_tree_def by blast
qed

lemma pt_root_frame:
  assumes root: "pt_root Q fl root s"
    and keep: "\<And>t. t \<in> dom Q \<union> set fl \<Longrightarrow> same_page (mem s) m' (pageno t)"
  shows "pt_root Q fl root (s\<lparr>mem := m'\<rparr>)"
proof -
  have ok: "free_list (mem s) (freepages s) fl" "pt_tree Q (mem s) (hhdm_offset s)"
    using root by (simp_all add: pt_root_def pt_ok_def pool_def)
  have "free_list m' (freepages s) fl"
    using ok(1) by (rule free_list_same_page) (rule keep, simp)
  moreover have "pt_tree Q m' (hhdm_offset s)"
    using ok(2) by (rule pt_tree_frame) (rule keep, simp)
  ultimately show ?thesis using root by (simp add: pt_root_def pt_ok_def pool_def)
qed

text \<open>
  A copy of \<open>n\<close> bytes, the \<open>j\<close>-th from address \<open>S j\<close> to address \<open>U j\<close>, from memory \<open>m\<close> to \<open>m'\<close>.
\<close>

definition copied :: "(nat \<Rightarrow> u64 option) \<Rightarrow> (nat \<Rightarrow> u64) \<Rightarrow> nat \<Rightarrow> mem \<Rightarrow> mem \<Rightarrow> bool" where
  "copied U S n m m' \<longleftrightarrow> (\<forall>j<n. m' (the (U j)) = m (S j)) \<and>
     (\<forall>x. (\<forall>j<n. U j \<noteq> Some x) \<longrightarrow> m' x = m x)"

definition separate :: "(nat \<Rightarrow> u64 option) \<Rightarrow> (nat \<Rightarrow> u64) \<Rightarrow> nat \<Rightarrow> bool" where
  "separate U S n \<longleftrightarrow> (\<forall>j<n. U j \<noteq> None) \<and> (\<forall>i<n. \<forall>j<n. U i = U j \<longrightarrow> i = j) \<and>
     (\<forall>i<n. \<forall>j<n. U i \<noteq> Some (S j))"

lemma separate_inj: "separate U S n \<Longrightarrow> i < n \<Longrightarrow> j < n \<Longrightarrow> U i = U j \<Longrightarrow> i = j"
  by (simp add: separate_def)

lemma separate_shift:
  assumes "separate U S (c + n)"
  shows "separate (\<lambda>j. U (c + j)) (\<lambda>j. S (c + j)) n"
proof -
  have "i = j" if "i < n" "j < n" "U (c + i) = U (c + j)" for i j
    using separate_inj [OF assms, of "c + i" "c + j"] that by simp
  with assms show ?thesis by (simp add: separate_def)
qed

lemma copied_join:
  assumes sep: "separate U S (c + n)" and one: "copied U S c m m1"
    and two: "copied (\<lambda>j. U (c + j)) (\<lambda>j. S (c + j)) n m1 m'"
  shows "copied U S (c + n) m m'"
proof -
  have "m' (the (U j)) = m (S j)" if j: "j < c + n" for j
  proof (cases "j < c")
    case True
    obtain a where a: "U j = Some a" using sep j by (auto simp: separate_def)
    have "U (c + i) \<noteq> Some a" if "i < n" for i
    proof
      assume "U (c + i) = Some a"
      then have "c + i = j" using sep that a j by (simp add: separate_def)
      with True show False by simp
    qed
    then have "m' a = m1 a" using two by (simp add: copied_def)
    with one True a show ?thesis by (auto simp: copied_def)
  next
    case False
    then obtain i where i: "j = c + i" "i < n" using j le_Suc_ex [of c j] by (auto simp: not_less)
    then have "m' (the (U j)) = m1 (S j)" using two by (simp add: copied_def)
    moreover have "\<forall>k<c. U k \<noteq> Some (S j)" using sep j by (simp add: separate_def)
    ultimately show ?thesis using one by (simp add: copied_def)
  qed
  moreover have "m' x = m x" if x: "\<forall>j<c + n. U j \<noteq> Some x" for x
    using two one x by (simp add: copied_def)
  ultimately show ?thesis by (simp add: copied_def)
qed

text \<open>
  What the caller of \<open>vmm_memcpy\<close> owes: every destination byte is in a page the process may write
  (as user or as kernel, as asked), the frames behind these pages are neither page tables nor free
  pages nor shared among the pages, and the source lies elsewhere.
\<close>

definition dst_byte :: "('d, 'z) kernel_scheme \<Rightarrow> u64 \<Rightarrow> u64 \<Rightarrow> nat \<Rightarrow> u64 option" where
  "dst_byte s root dst j = uaddr s root (dst + of_nat j)"

definition src_byte :: "u64 \<Rightarrow> nat \<Rightarrow> u64" where
  "src_byte src j = src + of_nat j"

definition copy_ok ::
  "tables \<Rightarrow> u64 list \<Rightarrow> u64 \<Rightarrow> bool \<Rightarrow> u64 \<Rightarrow> u64 \<Rightarrow> nat \<Rightarrow> ('d, 'z) kernel_scheme \<Rightarrow> bool" where
  "copy_ok Q fl root user dst src n s \<longleftrightarrow>
     (\<forall>j<n. writable_at s root user (dst + of_nat j) \<and>
        pageno (the (dst_byte s root dst j)) \<notin> pageno ` (dom Q \<union> set fl)) \<and>
     separate (dst_byte s root dst) (src_byte src) n"

lemma byte_shift:
  "dst_byte s root (dst + of_nat c) = (\<lambda>j. dst_byte s root dst (c + j))"
  "src_byte (src + of_nat c) = (\<lambda>j. src_byte src (c + j))"
  by (auto simp: dst_byte_def src_byte_def algebra_simps)

lemma copy_ok_shift:
  assumes "copy_ok Q fl root user dst src (c + n) s"
  shows "copy_ok Q fl root user (dst + of_nat c) (src + of_nat c) n s"
proof -
  have e: "dst + of_nat c + of_nat j = dst + of_nat (c + j)" for j by (simp add: algebra_simps)
  have "writable_at s root user (dst + of_nat c + of_nat j)" if "j < n" for j
    unfolding e using assms that by (simp add: copy_ok_def del: of_nat_add)
  then show ?thesis
    using assms separate_shift [of "dst_byte s root dst" "src_byte src" c n]
    by (simp add: copy_ok_def byte_shift)
qed

lemma in_region_iff:
  assumes "n \<le> 18446744073709551616"
  shows "in_region a n x \<longleftrightarrow> (\<exists>j<n. x = a + of_nat j)"
proof
  assume "in_region a n x"
  then have "unat (x - a) < n" "x = a + of_nat (unat (x - a))" by (simp_all add: in_region_def)
  then show "\<exists>j<n. x = a + of_nat j" by blast
next
  assume "\<exists>j<n. x = a + of_nat j"
  then show "in_region a n x" using assms by (auto simp: in_region_def unat_of_nat64)
qed

lemma copied_chunk:
  assumes "page_aligned (hhdm_offset s)" and a: "dst_byte s root dst 0 = Some a"
    and c: "unat dst mod 4096 + unat c \<le> 4096" and src: "unat src + unat c \<le> 18446744073709551616"
  shows "copied (dst_byte s root dst) (src_byte src) (unat c) (mem s) (memmove a src c (mem s))"
    and "\<And>k. k \<noteq> pageno a \<Longrightarrow> same_page (mem s) (memmove a src c (mem s)) k"
proof -
  have ua: "uaddr s root dst = Some a" using a by (simp add: dst_byte_def)
  have am: "unat a mod 4096 = unat dst mod 4096" by (rule uaddr_page [OF assms(1) ua])
  have off: "unat (a + of_nat j) = unat a + j" "pageno (a + of_nat j) = pageno a" if "j < unat c" for j
    using same_page_offset(1,2) [of a j] c that am by simp_all
  have al: "unat a + unat c \<le> 18446744073709551616"
    using off(1) [of "unat c - 1"] unat_lt64 [of "a + of_nat (unat c - 1)"] unat_lt64 [of a]
    by (cases "unat c = 0") (auto intro: less_imp_le)
  note ap = memmove_apply [OF src al, of "mem s"]
  have d: "dst_byte s root dst j = Some (a + of_nat j)" if "j < unat c" for j
    using uaddr_same_page [OF _ ua, of j] c that by (simp add: dst_byte_def)
  have reg: "in_region a (unat c) x \<longleftrightarrow> (\<exists>j<unat c. x = a + of_nat j)" for x
    by (rule in_region_iff) (rule less_imp_le [OF unat_lt64])
  have uj: "unat (of_nat j :: u64) = j" if "j < unat c" for j
    using that unat_lt64 [of c] by (intro unat_of_nat64) linarith
  show "copied (dst_byte s root dst) (src_byte src) (unat c) (mem s) (memmove a src c (mem s))"
    using d uj by (auto simp: copied_def ap reg src_byte_def)
  show "same_page (mem s) (memmove a src c (mem s)) k" if "k \<noteq> pageno a" for k
    using that off(2) by (auto simp: same_page_def ap reg)
qed

text \<open>Only the translations of the destination matter.\<close>

definition same_dst :: "u64 \<Rightarrow> u64 \<Rightarrow> nat \<Rightarrow> ('d, 'z) kernel_scheme \<Rightarrow> ('d, 'z) kernel_scheme \<Rightarrow> bool" where
  "same_dst root dst n s s1 \<longleftrightarrow> hhdm_offset s1 = hhdm_offset s \<and>
     (\<forall>j<n. translate s1 root (dst + of_nat j) = translate s root (dst + of_nat j))"

lemma same_dst_bytes:
  assumes "same_dst root dst n s s1" and "j < n"
  shows "dst_byte s1 root dst j = dst_byte s root dst j"
    "writable_at s1 root user (dst + of_nat j) = writable_at s root user (dst + of_nat j)"
proof -
  have "translate s1 root (dst + of_nat j) = translate s root (dst + of_nat j)" "P2V s1 = P2V s"
    using assms by (auto simp: same_dst_def P2V_def)
  then show "dst_byte s1 root dst j = dst_byte s root dst j"
    "writable_at s1 root user (dst + of_nat j) = writable_at s root user (dst + of_nat j)"
    by (simp_all only: dst_byte_def uaddr_def writable_at_def)
qed

lemma copy_ok_cong:
  assumes "same_dst root dst n s s1" and "copy_ok Q fl root user dst src n s"
  shows "copy_ok Q fl root user dst src n s1"
  using assms(2) same_dst_bytes [OF assms(1)] by (simp add: copy_ok_def separate_def)

lemma copied_cong:
  assumes "same_dst root dst n s s1" and "copied (dst_byte s1 root dst) S n m m'"
  shows "copied (dst_byte s root dst) S n m m'"
  using assms(2) same_dst_bytes(1) [OF assms(1)] by (simp add: copied_def)

lemma same_dst_shift:
  assumes "same_dst root dst (c + n) s s1"
  shows "same_dst root (dst + of_nat c) n s s1"
proof -
  have e: "dst + of_nat c + of_nat j = dst + of_nat (c + j)" for j by (simp add: algebra_simps)
  have "translate s1 root (dst + of_nat c + of_nat j) = translate s root (dst + of_nat c + of_nat j)"
    if "j < n" for j
    unfolding e using assms that by (simp add: same_dst_def del: of_nat_add)
  with assms show ?thesis by (simp add: same_dst_def)
qed

lemma same_dst_frame:
  assumes root: "pt_root Q fl root s" and h: "hhdm_offset s1 = hhdm_offset s"
    and keep: "\<And>t. t \<in> dom Q \<Longrightarrow> same_page (mem s) (mem s1) (pageno t)"
    and b: "unat dst + n \<le> 2 ^ 46"
  shows "same_dst root dst n s s1"
proof -
  have "translate s1 root (dst + of_nat j) = translate s root (dst + of_nat j)" if "j < n" for j
  proof (rule translate_cong [OF root h])
    have "unat (of_nat j :: u64) = j" using b that by (intro unat_of_nat64) simp
    then show "unat (dst + of_nat j) < 2 ^ 46" using b that by (subst unat_add64) simp_all
  qed (rule keep)
  with h show ?thesis by (simp add: same_dst_def)
qed

text \<open>The first round of the loop copies up to the end of the first page.\<close>

lemma memcpy_first_chunk:
  assumes root: "pt_root Q fl root s" and dst: "2 ^ 22 \<le> unat dst" "unat dst + unat len \<le> 2 ^ 46"
    and src: "unat src + unat len \<le> 18446744073709551616"
    and ok: "copy_ok Q fl root user dst src (unat len) s" and len: "len \<noteq> 0"
  obtains m1 where
    "vmm_memcpy root dst src len user s =
       vmm_memcpy root (PAGE_ROUND_DOWN dst + PAGE_SIZE) (src + chunk dst len) (len - chunk dst len) user (s\<lparr>mem := m1\<rparr>)"
    and "pt_root Q fl root (s\<lparr>mem := m1\<rparr>)" and "same_dst root dst (unat len) s (s\<lparr>mem := m1\<rparr>)"
    and "copied (dst_byte s root dst) (src_byte src) (unat (chunk dst len)) (mem s) m1"
proof -
  define c where "c = chunk dst len"
  have c: "unat c = min (unat len) (4096 - unat dst mod 4096)" by (simp add: c_def unat_chunk)
  have c0: "0 < unat len" "unat c \<le> unat len" using len c by (auto simp: unat_gt_0)
  have va: "user_va dst" using dst c0 by (simp add: user_va_unat)
  have w: "writable_at s root user dst" and k: "pageno (the (dst_byte s root dst 0)) \<notin> pageno ` (dom Q \<union> set fl)"
    using ok c0 by (auto simp: copy_ok_def dest!: spec [of _ 0])
  then obtain a where a: "uaddr s root dst = Some a" "dst_byte s root dst 0 = Some a"
    by (auto simp: writable_at_def uaddr_def dst_byte_def split: option.splits)
  define m1 where "m1 = memmove a src c (mem s)"
  have h: "page_aligned (hhdm_offset s)" using root by (simp add: pt_root_def pt_ok_def pool_def)
  have cc: "copied (dst_byte s root dst) (src_byte src) (unat c) (mem s) m1"
    and sp: "\<And>k. k \<noteq> pageno a \<Longrightarrow> same_page (mem s) m1 k"
    unfolding m1_def using copied_chunk [OF h a(2), of c src] c c0 src by simp_all
  have keep: "same_page (mem s) m1 (pageno t)" if "t \<in> dom Q \<union> set fl" for t
  proof (rule sp)
    have "pageno t \<in> pageno ` (dom Q \<union> set fl)" using that by (rule imageI)
    with k a(2) show "pageno t \<noteq> pageno a" by auto
  qed
  show ?thesis
  proof (rule that)
    show "vmm_memcpy root dst src len user s =
       vmm_memcpy root (PAGE_ROUND_DOWN dst + PAGE_SIZE) (src + chunk dst len) (len - chunk dst len) user (s\<lparr>mem := m1\<rparr>)"
      unfolding m1_def c_def by (rule memcpy_step_ok [OF root va len w a(1)])
    show "pt_root Q fl root (s\<lparr>mem := m1\<rparr>)" using keep by (intro pt_root_frame [OF root]) simp
    show "same_dst root dst (unat len) s (s\<lparr>mem := m1\<rparr>)"
      using keep dst(2) by (intro same_dst_frame [OF root]) auto
  qed (use cc c_def in simp)
qed

lemma vmm_memcpy_copies:
  assumes "pt_root Q fl root s" and "2 ^ 22 \<le> unat dst" and "unat dst + unat len \<le> 2 ^ 46"
    and "unat src + unat len \<le> 18446744073709551616" and "copy_ok Q fl root user dst src (unat len) s"
  shows "\<exists>m'. vmm_memcpy root dst src len user s = Ok (0, s\<lparr>mem := m'\<rparr>) \<and>
    copied (dst_byte s root dst) (src_byte src) (unat len) (mem s) m'"
  using assms
proof (induction "unat len" arbitrary: dst src len s rule: less_induct)
  case less
  consider "len = 0" | "len \<noteq> 0" "chunk dst len = len" | "len \<noteq> 0" "chunk dst len \<noteq> len" by blast
  then show ?case
  proof cases
    case 1
    then show ?thesis by (intro exI [of _ "mem s"]) (simp add: memcpy_none copied_def)
  next
    case 2
    show ?thesis
      by (rule memcpy_first_chunk [OF less.prems 2(1)]) (simp add: 2(2) memcpy_none, blast)
  next
    case 3
    define c where "c = chunk dst len"
    obtain m1 where step: "vmm_memcpy root dst src len user s =
       vmm_memcpy root (PAGE_ROUND_DOWN dst + PAGE_SIZE) (src + c) (len - c) user (s\<lparr>mem := m1\<rparr>)"
      and root1: "pt_root Q fl root (s\<lparr>mem := m1\<rparr>)" and same: "same_dst root dst (unat len) s (s\<lparr>mem := m1\<rparr>)"
      and cc: "copied (dst_byte s root dst) (src_byte src) (unat c) (mem s) m1"
      by (rule memcpy_first_chunk [OF less.prems 3(1), folded c_def]) (rule that)
    have c: "unat c = min (unat len) (4096 - unat dst mod 4096)" by (simp add: c_def unat_chunk)
    have ne: "unat c \<noteq> unat len" using 3(2) by (simp add: c_def word_unat_eq_iff)
    have cle: "unat c \<le> unat len" "0 < unat c" using c 3(1) by (auto simp: unat_gt_0)
    define n where "n = unat len - unat c"
    have n: "unat len = unat c + n" "0 < unat c" "0 < n" using cle ne by (simp_all add: n_def)
    have un: "unat (len - c) = n" using n by (simp add: unat_sub word_le_nat_alt)
    have "c = PAGE_SIZE - take_bit 12 dst" using 3(2) by (auto simp: c_def chunk_def split: if_splits)
    then have dst': "PAGE_ROUND_DOWN dst + PAGE_SIZE = dst + of_nat (unat c)" by (simp add: round_down_eq)
    have ud: "unat (dst + of_nat (unat c)) = unat dst + unat c" "unat (src + of_nat (unat c)) = unat src + unat c"
      using less.prems(3,4) n by (simp_all add: unat_add64)
    have "\<exists>m'. vmm_memcpy root (dst + of_nat (unat c)) (src + of_nat (unat c)) (len - c) user (s\<lparr>mem := m1\<rparr>) =
          Ok (0, s\<lparr>mem := m1\<rparr>\<lparr>mem := m'\<rparr>) \<and> copied (dst_byte (s\<lparr>mem := m1\<rparr>) root (dst + of_nat (unat c)))
            (src_byte (src + of_nat (unat c))) (unat (len - c)) (mem (s\<lparr>mem := m1\<rparr>)) m'"
    proof (rule less.hyps [OF _ root1])
      show "copy_ok Q fl root user (dst + of_nat (unat c)) (src + of_nat (unat c)) (unat (len - c)) (s\<lparr>mem := m1\<rparr>)"
        unfolding un
        by (rule copy_ok_cong [OF same_dst_shift [OF same [unfolded n(1)]] copy_ok_shift [OF less.prems(5) [unfolded n(1)]]])
    qed (use ud un n less.prems(2-4) in simp_all)
    then obtain m' where r: "vmm_memcpy root dst src len user s = Ok (0, s\<lparr>mem := m'\<rparr>)"
      and c2: "copied (dst_byte (s\<lparr>mem := m1\<rparr>) root (dst + of_nat (unat c))) (src_byte (src + of_nat (unat c))) n m1 m'"
      unfolding step dst' un by auto
    have c3: "copied (\<lambda>j. dst_byte s root dst (unat c + j)) (\<lambda>j. src_byte src (unat c + j)) n m1 m'"
      using copied_cong [OF same_dst_shift [OF same [unfolded n(1)]] c2] unfolding byte_shift .
    have "separate (dst_byte s root dst) (src_byte src) (unat c + n)"
      using less.prems(5) by (simp add: copy_ok_def n(1))
    from copied_join [OF this cc c3] have "copied (dst_byte s root dst) (src_byte src) (unat c + n) (mem s) m'" .
    with r show ?thesis unfolding n(1) by blast
  qed
qed


text \<open>The example machine with one page mapped at \<open>0x400000\<close>.\<close>

lemma mapped_machine:
  "\<exists>Q fl (s :: unit kernel). pt_root Q fl 0xffff800000001000 s \<and> hhdm_offset s = 0xffff800000000000 \<and>
     dom Q \<union> set fl = {0xffff800000001000, 0xffff800000002000, 0xffff800000003000, 0xffff800000004000} \<and>
     (\<exists>w. translate s 0xffff800000001000 0x400000 = Some w \<and> maps_to user_rw 0x5000 w)"
proof -
  have "\<exists>Q fl s. map_pages_loop 1 0xffff800000001000 0x400000 0x5000 user_rw pt_kernel = Ok (0, s) \<and>
      pt_extends empty_root pt_pages pt_kernel Q fl s \<and>
      maps_range 0xffff800000001000 0x400000 0x5000 user_rw 1 pt_kernel s"
    by (rule map_pages_loop_ok [OF pt_root_pt_kernel])
      (simp_all add: page_aligned_def pt_pages_def unmapped_pt_kernel)
  then obtain Q fl and s :: "unit kernel" where e: "pt_extends empty_root pt_pages pt_kernel Q fl s"
    and m: "maps_range 0xffff800000001000 0x400000 0x5000 user_rw 1 pt_kernel s" by blast
  have "pt_root Q fl 0xffff800000001000 s"
    using pt_extends_ok [OF e] pt_extends_root [OF e] by (simp add: pt_root_def empty_root_def)
  moreover have "dom Q \<union> set fl = {0xffff800000001000, 0xffff800000002000, 0xffff800000003000, 0xffff800000004000}"
  proof -
    from pt_extends_used [OF e] obtain used
      where u: "pt_pages = used @ fl" "dom Q = dom empty_root \<union> set used" by blast
    have "dom Q \<union> set fl = dom empty_root \<union> set (used @ fl)" using u(2) by auto
    then show ?thesis unfolding u(1) [symmetric] by (auto simp: pt_pages_def empty_root_def)
  qed
  moreover have "hhdm_offset s = 0xffff800000000000"
    using pt_extends_hhdm [OF e] by (simp add: pt_kernel_def boot_kernel_def)
  moreover have "\<exists>w. translate s 0xffff800000001000 0x400000 = Some w \<and> maps_to user_rw 0x5000 w"
    using maps_rangeD [OF m, of "0x400000" 0] by simp
  ultimately show ?thesis by (intro exI [of _ Q] exI [of _ fl] exI [of _ s]) simp
qed


end
