(* ===== verification/Vmm_Tables.thy ===== *)
theory Vmm_Tables
  imports Vmm_User "HOL-Library.Sublist"
begin

text \<open>
  Further facts on \<^verbatim>\<open>src/kernel/mem/vmm.c\<close>: its sanity checks, the copy of the kernel's page
  table for a new process, and the shrinking of a heap.
\<close>

section \<open>Sanity checks\<close>

lemma walk_from_present:
  "pt_reach l (mem s) (hhdm_offset s) t va = Some a \<Longrightarrow> walk_from l t va alloc s = Ok (a, s)"
  by (induction l arbitrary: t) (auto simp: Let_def get_pte_def P2V_def split: if_splits)

lemma walk_mapped:
  assumes "pt_root Q fl root s" and "user_va va" and "translate s root va \<noteq> None"
  shows "\<exists>a. walk root va alloc False s = Ok (a, s) \<and> a \<noteq> 0 \<and> pte_present (load64 (mem s) a)"
proof -
  from assms(3) obtain a where a: "pt_reach 3 (mem s) (hhdm_offset s) root va = Some a"
    "pte_present (load64 (mem s) a)"
    by (auto simp: translate_def pt_lookup_reach split: option.splits if_splits)
  have "unat va < 2 ^ 46" using assms(2) by (simp add: user_va_unat)
  with pt_reach_nonzero [OF assms(1)] a(1) have "a \<noteq> 0" by blast
  with a walk_from_present [OF a(1), of alloc] user_va_guards [OF assms(2)] show ?thesis
    by (simp add: walk_def)
qed

lemma page_count_Suc: "page_aligned sz \<Longrightarrow> sz \<noteq> 0 \<Longrightarrow> \<exists>k. unat sz div 4096 = Suc k"
proof -
  assume "page_aligned sz" and "sz \<noteq> 0"
  then obtain k where k: "unat sz = 4096 * k" by (auto elim: page_alignedE)
  moreover have "unat sz \<noteq> 0" using \<open>sz \<noteq> 0\<close> by (simp add: unat_eq_zero)
  ultimately show ?thesis by (cases k) auto
qed

text \<open>
  \<open>vmm_map_pages\<close> refuses what it cannot map: a misaligned frame address, page address or size
  and an empty range stop the kernel with their own message before anything is changed, in this
  order of precedence, and so does a first page that is mapped already.
\<close>

theorem vmm_map_pages_refuses:
  "(\<not> page_aligned pa \<longrightarrow> vmm_map_pages root va sz pa perm s = Panic ''vmm_map_pages: pa not aligned'') \<and>
   (page_aligned pa \<and> \<not> page_aligned va \<longrightarrow>
      vmm_map_pages root va sz pa perm s = Panic ''vmm_map_pages: va not aligned'') \<and>
   (page_aligned pa \<and> page_aligned va \<and> \<not> page_aligned sz \<longrightarrow>
      vmm_map_pages root va sz pa perm s = Panic ''vmm_map_pages: size not aligned'') \<and>
   (page_aligned pa \<and> page_aligned va \<and> sz = 0 \<longrightarrow>
      vmm_map_pages root va sz pa perm s = Panic ''vmm_map_pages: size'') \<and>
   (page_aligned pa \<and> page_aligned va \<and> page_aligned sz \<and> sz \<noteq> 0 \<and> \<not> user_va va \<longrightarrow>
      vmm_map_pages root va sz pa perm s = Panic ''walk'') \<and>
   (page_aligned pa \<and> page_aligned va \<and> page_aligned sz \<and> sz \<noteq> 0 \<and> pt_root Q fl root s \<and> user_va va \<and>
      translate s root va \<noteq> None \<longrightarrow>
      vmm_map_pages root va sz pa perm s = Panic ''vmm_map_pages: remap'')"
proof (intro conjI impI)
  assume "page_aligned pa \<and> page_aligned va \<and> page_aligned sz \<and> sz \<noteq> 0 \<and> \<not> user_va va"
  moreover from this obtain k where "unat sz div 4096 = Suc k" using page_count_Suc by blast
  ultimately show "vmm_map_pages root va sz pa perm s = Panic ''walk''"
    by (auto simp: vmm_map_pages_loop walk_def user_va_def not_le not_less)
next
  assume a: "page_aligned pa \<and> page_aligned va \<and> page_aligned sz \<and> sz \<noteq> 0 \<and> pt_root Q fl root s \<and>
    user_va va \<and> translate s root va \<noteq> None"
  then obtain k where "unat sz div 4096 = Suc k" using page_count_Suc by blast
  moreover from a walk_mapped obtain p where
    "walk root va True False s = Ok (p, s)" "p \<noteq> 0" "pte_present (load64 (mem s) p)" by blast
  ultimately show "vmm_map_pages root va sz pa perm s = Panic ''vmm_map_pages: remap''"
    using a by (simp add: vmm_map_pages_loop get_pte_def)
qed (auto simp: vmm_map_pages_def PAGE_SIZE_def page_aligned_mod)

theorem vmm_map_pages_refuses_witness:
  "vmm_map_pages 0xffff800000001000 0x400123 4096 0x5000 user_rw pt_kernel =
     Panic ''vmm_map_pages: va not aligned'' \<and>
   (\<exists>s :: unit kernel. vmm_map_pages 0xffff800000001000 0x400000 4096 0x5000 user_rw s =
     Panic ''vmm_map_pages: remap'')"
proof
  show "vmm_map_pages 0xffff800000001000 0x400123 4096 0x5000 user_rw pt_kernel =
     Panic ''vmm_map_pages: va not aligned''"
    using vmm_map_pages_refuses [of "0x5000" "0xffff800000001000" "0x400123" 4096 user_rw pt_kernel]
    by (simp add: page_aligned_def)
  obtain Q fl and s :: "unit kernel" and w where "pt_root Q fl 0xffff800000001000 s"
    "translate s 0xffff800000001000 0x400000 = Some w"
    using mapped_machine by blast
  moreover have "user_va 0x400000" by (simp add: user_va_unat)
  ultimately show "\<exists>s :: unit kernel. vmm_map_pages 0xffff800000001000 0x400000 4096 0x5000 user_rw s =
     Panic ''vmm_map_pages: remap''"
    using vmm_map_pages_refuses [of "0x5000" "0xffff800000001000" "0x400000" 4096 user_rw s Q fl]
    by (intro exI [of _ s]) (simp add: page_aligned_def)
qed

section \<open>Copying the kernel's table\<close>

text \<open>
  Every page the copy writes is the destination or comes from the pool.
\<close>

definition copy_frame ::
  "u64 list \<Rightarrow> nat set \<Rightarrow> ('d, 'z) kernel_scheme \<Rightarrow> ('d, 'z) kernel_scheme \<Rightarrow> bool" where
  "copy_frame fl W s s' \<longleftrightarrow> no_victim s' \<and> (\<exists>fl'. suffix fl' fl \<and> pool fl' s') \<and>
     (\<forall>k. k \<notin> pageno ` set fl \<union> W \<longrightarrow> same_page (mem s) (mem s') k)"

lemma copy_frame_refl: "no_victim s \<Longrightarrow> pool fl s \<Longrightarrow> copy_frame fl W s s"
  by (auto simp: copy_frame_def)

lemma copy_frame_trans:
  assumes "copy_frame fl W s s1" and "suffix fl1 fl" and "copy_frame fl1 W1 s1 s2" and "W1 \<subseteq> pageno ` set fl \<union> W"
  shows "copy_frame fl W s s2"
proof -
  have sub: "set fl1 \<subseteq> set fl" using assms(2) by (rule set_mono_suffix)
  have "same_page (mem s) (mem s2) k" if "k \<notin> pageno ` set fl \<union> W" for k
  proof (rule same_page_trans)
    show "same_page (mem s) (mem s1) k" using assms(1) that by (simp add: copy_frame_def)
    have "k \<notin> pageno ` set fl1 \<union> W1" using that sub assms(4) by blast
    then show "same_page (mem s1) (mem s2) k" using assms(3) by (simp add: copy_frame_def)
  qed
  with assms show ?thesis
    unfolding copy_frame_def by (meson suffix_order.trans)
qed

lemma kalloc_copy_frame:
  assumes "no_victim s" and "pool fl s" and "kalloc s = Ok (p, s')"
  shows "\<exists>fl'. fl = p # fl' \<and> pool fl' s' \<and> copy_frame fl {} s s' \<and> hhdm_offset s' = hhdm_offset s \<and> no_victim s'"
proof (cases fl)
  case Nil
  have "pagecache_steal (s\<lparr>cpu := settled (cpu s)\<rparr>) \<noteq> Ok r" for r
    unfolding pagecache_steal_def using assms(1) by (intro steal_no_victim) simp
  with Nil assms(2,3) kalloc_for_page_cache_eq [of "[]" s] show ?thesis
    by (auto simp: kalloc_eq kalloc_with_def elim!: kbind_OkE)
next
  case (Cons q fl')
  have pool: "pool (q # fl') s" using assms(2) Cons by simp
  then have q: "page_aligned q" by (simp add: pool_def)
  have s': "p = q" "s' = s\<lparr>mem := memset q 2 PAGE_SIZE (mem s), freepages := load64 (mem s) q,
     cpu := settled (cpu s)\<rparr>"
    using assms(3) kalloc_page [OF pool] by auto
  have p': "pool fl' s'" unfolding s' by (rule pool_kalloc [OF pool])
  have "same_page (mem s) (mem s') k" if "k \<noteq> pageno q" for k
    using same_page_memset [OF q that] by (simp add: s')
  with assms(1) p' Cons s' show ?thesis
    by (auto simp: copy_frame_def no_victim_def intro!: exI [of _ fl'] suffix_ConsI)
qed

text \<open>Every page that \<open>copy_pagetable\<close> writes besides \<open>dst\<close> comes from the pool.\<close>

lemma for_entries_copy_frame:
  assumes body: "\<And>i fl s r s'. no_victim s \<Longrightarrow> pool fl s \<Longrightarrow> body i s = Ok (r, s') \<Longrightarrow> copy_frame fl {} s s'"
  shows "no_victim s \<Longrightarrow> pool fl s \<Longrightarrow> for_entries k body s = Ok (r, s') \<Longrightarrow> copy_frame fl {} s s'"
proof (induction k arbitrary: fl s)
  case 0
  then show ?case by (simp add: copy_frame_refl)
next
  case (Suc k)
  from Suc.prems(3) obtain r1 s1 where b: "body (of_nat (PAGETABLE_PTE_COUNT - Suc k)) s = Ok (r1, s1)"
    and c: "(if r1 \<noteq> 0 then kret r1 else for_entries k body) s1 = Ok (r, s')"
    by (auto elim: kbind_OkE)
  have f: "copy_frame fl {} s s1" by (rule body [OF Suc.prems(1,2) b])
  then obtain fl1 where fl1: "suffix fl1 fl" "pool fl1 s1" "no_victim s1" by (auto simp: copy_frame_def)
  show ?case
  proof (cases "r1 = 0")
    case True
    then have "copy_frame fl1 {} s1 s'" using Suc.IH [OF fl1(3,2)] c by simp
    with copy_frame_trans [OF f fl1(1)] show ?thesis by blast
  qed (use c f in auto)
qed

lemma memcpy_loop_outside:
  "(\<And>j. j < k \<Longrightarrow> x \<noteq> dest + i + of_nat j) \<Longrightarrow> memcpy_loop k dest src i m x = m x"
proof (induction k arbitrary: i m)
  case (Suc k)
  have "x \<noteq> dest + (i + 1) + of_nat j" if "j < k" for j
    using Suc.prems [of "Suc j"] that by (simp add: algebra_simps)
  moreover have "x \<noteq> dest + i" using Suc.prems [of 0] by simp
  ultimately show ?case using Suc.IH [of "i + 1"] by simp
qed simp

lemma same_page_memcpy:
  assumes "page_aligned dst" and "k \<noteq> pageno dst"
  shows "same_page m (memcpy dst src PAGE_SIZE m) k"
  unfolding same_page_def
proof (intro allI impI)
  fix x assume "pageno x = k"
  then have x: "\<not> in_region dst 4096 x" using assms by (simp add: in_page_iff)
  show "m x = memcpy dst src PAGE_SIZE m x"
    unfolding memcpy_def
  proof (rule memcpy_loop_outside [symmetric])
    fix j assume "j < unat PAGE_SIZE"
    with x show "x \<noteq> dst + 0 + of_nat j"
      by (auto simp: PAGE_SIZE_def in_region_iff)
  qed
qed

lemma copy_frame_memcpy:
  assumes "no_victim s" and "pool fl s" and "page_aligned dst" and "dst \<notin> set fl"
  shows "copy_frame fl {pageno dst} s (s\<lparr>mem := memcpy dst src PAGE_SIZE (mem s)\<rparr>)"
    and "pool fl (s\<lparr>mem := memcpy dst src PAGE_SIZE (mem s)\<rparr>)"
proof -
  have "free_list (mem s) (freepages s) fl" using assms(2) by (simp add: pool_def)
  then have "free_list (memcpy dst src PAGE_SIZE (mem s)) (freepages s) fl"
  proof (rule free_list_same_page)
    fix a assume a: "a \<in> set fl"
    then have "page_aligned a" using kpool.holds_pages [OF assms(2)] by (simp add: is_free_page_def)
    with a assms(3,4) show "same_page (mem s) (memcpy dst src PAGE_SIZE (mem s)) (pageno a)"
      by (intro same_page_memcpy) (auto simp: page_aligned_eq)
  qed
  with assms(2) show p: "pool fl (s\<lparr>mem := memcpy dst src PAGE_SIZE (mem s)\<rparr>)" by (simp add: pool_def)
  then show "copy_frame fl {pageno dst} s (s\<lparr>mem := memcpy dst src PAGE_SIZE (mem s)\<rparr>)"
    using assms(1) same_page_memcpy [OF assms(3), of _ "mem s" src] by (auto simp: copy_frame_def)
qed

lemma copy_entry_frame:
  assumes inner: "\<And>fl s dst src r s'. no_victim s \<Longrightarrow> pool fl s \<Longrightarrow> page_aligned dst \<Longrightarrow> dst \<notin> set fl \<Longrightarrow>
      copy_inner dst src s = Ok (r, s') \<Longrightarrow> copy_frame fl {pageno dst} s s'"
    and s: "no_victim s" "pool fl s" and r: "copy_entry copy_inner src i s = Ok (r, s')"
  shows "copy_frame fl {} s s'"
proof -
  let ?pte = "load64 (mem s) (pte_slot src i)"
  show ?thesis
  proof (cases "pte_present ?pte \<and> \<not> pte_huge_page ?pte")
    case False
    with r s show ?thesis by (auto simp: copy_entry_def get_pte_def copy_frame_refl)
  next
    case True
    with r obtain p s1 where k: "kalloc s = Ok (p, s1)"
      and c: "(if p = 0 then kret 1 else
          kbind (kgets (\<lambda>s. P2V s (pte_follow ?pte))) (\<lambda>src_inner_pagetable.
          kbind (copy_inner p src_inner_pagetable) (\<lambda>r. kret (if r \<noteq> 0 then 1 else 0)))) s1 = Ok (r, s')"
      by (auto simp: copy_entry_def get_pte_def elim: kbind_OkE)
    from kalloc_copy_frame [OF s k] obtain fl' where fl': "fl = p # fl'" "pool fl' s1"
      "copy_frame fl {} s s1" "no_victim s1" by blast
    have p: "p \<noteq> 0" "page_aligned p" "p \<notin> set fl'"
      using s(2) fl'(1) kpool.holds_distinct [OF s(2)] by (auto simp: pool_def)
    with c obtain r1 where "copy_inner p (P2V s1 (pte_follow ?pte)) s1 = Ok (r1, s')"
      by (auto elim!: kbind_OkE)
    from inner [OF fl'(4,2) p(2,3) this] have "copy_frame fl' {pageno p} s1 s'" .
    with copy_frame_trans [OF fl'(3), of fl'] fl'(1) show ?thesis by (simp add: suffix_ConsI)
  qed
qed

lemma copy_pagetable_frame:
  assumes "no_victim s" and "pool fl s" and "page_aligned dst" and "dst \<notin> set fl"
    and "copy_pagetable l dst src s = Ok (r, s')"
  shows "copy_frame fl {pageno dst} s s' \<and> same_page (memcpy dst src PAGE_SIZE (mem s)) (mem s') (pageno dst)"
  using assms
proof (induction l arbitrary: fl s dst src r s')
  case 0
  then show ?case using copy_frame_memcpy(1) [OF 0(1-4), of src] by (auto simp: set_mem_def)
next
  case (Suc l)
  let ?s = "s\<lparr>mem := memcpy dst src PAGE_SIZE (mem s)\<rparr>"
  have ok: "no_victim ?s" "pool fl ?s" using Suc.prems(1) copy_frame_memcpy(2) [OF Suc.prems(1-4)] by simp_all
  have loop: "for_entries PAGETABLE_PTE_COUNT (copy_entry (copy_pagetable l) src) ?s = Ok (r, s')"
    using Suc.prems(5) by (simp add: set_mem_def)
  have inner: "copy_frame fl1 {pageno d} s1 s2"
    if "no_victim s1" "pool fl1 s1" "page_aligned d" "d \<notin> set fl1" "copy_pagetable l d c s1 = Ok (r1, s2)"
    for fl1 d c r1 and s1 s2 :: "('a, 'b) kernel_scheme"
    using Suc.IH [OF that] by blast
  have f: "copy_frame fl {} ?s s'"
    by (rule for_entries_copy_frame [OF copy_entry_frame [OF inner] ok loop])
  have "same_page (memcpy dst src PAGE_SIZE (mem s)) (mem s') (pageno dst)"
  proof -
    have "page_aligned a" if "a \<in> set fl" for a
      using kpool.holds_pages [OF Suc.prems(2) that] by (simp add: is_free_page_def)
    then have "pageno dst \<notin> pageno ` set fl"
      using Suc.prems(3,4) by (auto simp: page_aligned_eq)
    with f show ?thesis by (simp add: copy_frame_def)
  qed
  moreover have "copy_frame fl {pageno dst} s s'"
    using copy_frame_trans [OF copy_frame_memcpy(1) [OF Suc.prems(1-4)] _ f] by simp
  ultimately show ?case by simp
qed

lemma load64_memcpy_slot:
  assumes "page_aligned dst" and "page_aligned src" and "dst \<noteq> src" and "unat i < 512"
  shows "load64 (memcpy dst src PAGE_SIZE m) (pte_slot dst i) = load64 m (pte_slot src i)"
proof -
  have b: "unat (8 * i + of_nat j :: u64) = 8 * unat i + j" if "j < 8" for j
    using assms(4) that by (simp add: unat_word_ariths unat_of_nat)
  have far: "4096 \<le> unat (dst - src)"
    using assms(1-3) by (elim page_alignedE) (auto simp: unat_diff_cases word_unat_eq_iff)
  have "memcpy dst src PAGE_SIZE m (pte_slot dst i + of_nat j) = m (pte_slot src i + of_nat j)" if "j < 8" for j
    using b [OF that] assms(4) that far
    by (simp add: memcpy_apply PAGE_SIZE_def in_region_def pte_slot_def add.assoc)
  then show ?thesis
    unfolding load64_def load_bytes_map by (intro arg_cong [where f = word_of_bytes] map_cong) simp_all
qed

text \<open>
  The copy of a page table is not deep. Whatever the level, once \<open>copy_pagetable\<close> returns, each
  entry of the copy is the entry of the original, so both point to the same inner tables; the inner
  tables it has allocated and filled are linked nowhere.
\<close>

theorem copy_pagetable_shares_tables:
  assumes "victim_entry_frames s = 0" and "pool fl s" and "page_aligned dst" and "page_aligned src"
    and "dst \<noteq> src" and "dst \<notin> set fl" and "copy_pagetable l dst src s = Ok (r, s')" and "unat i < 512"
  shows "load64 (mem s') (pte_slot dst i) = load64 (mem s) (pte_slot src i)"
proof -
  have "same_page (memcpy dst src PAGE_SIZE (mem s)) (mem s') (pageno dst)"
    using copy_pagetable_frame [OF _ assms(2,3,6,7)] assms(1) by (simp add: no_victim_def)
  then have "load64 (memcpy dst src PAGE_SIZE (mem s)) (pte_slot dst i) = load64 (mem s') (pte_slot dst i)"
    using slot_page [OF assms(3,8)] by (intro load64_same_page) simp_all
  then show ?thesis
    using load64_memcpy_slot [OF assms(3,4,5,8)] by simp
qed

theorem copy_pagetable_shares_tables_witness:
  "\<exists>s'. copy_pagetable 0 0xffff800000006000 0xffff800000001000 pt_kernel = Ok (0, s') \<and>
     load64 (mem s') (pte_slot 0xffff800000006000 5) = load64 (mem pt_kernel) (pte_slot 0xffff800000001000 5)"
proof -
  let ?s = "pt_kernel\<lparr>mem := memcpy 0xffff800000006000 0xffff800000001000 PAGE_SIZE (mem pt_kernel)\<rparr>"
  have r: "copy_pagetable 0 0xffff800000006000 0xffff800000001000 pt_kernel = Ok (0, ?s)"
    by (simp add: set_mem_def)
  have "load64 (mem ?s) (pte_slot 0xffff800000006000 5) = load64 (mem pt_kernel) (pte_slot 0xffff800000001000 5)"
    by (rule copy_pagetable_shares_tables [OF _ pool_pt_kernel _ _ _ _ r])
      (simp_all add: page_aligned_def pt_pages_def pt_kernel_def boot_kernel_def)
  with r show ?thesis by blast
qed

section \<open>Shrinking a heap\<close>

lemma round_down_aligned: "page_aligned a \<Longrightarrow> PAGE_ROUND_DOWN a = a"
  using page_round_down(2) [of a] by (simp add: word_unat_eq_iff page_aligned_def)

lemma sbrk_deallocate_one:
  assumes "page_aligned old" and "4096 \<le> unat old"
  shows "vmm_user_sbrk_deallocate root old 4096 s =
    kbind (sbrk_free_page root old) (\<lambda>_. kret (old - 4096)) s"
proof -
  have "old - 4096 < old" using assms(2) by (simp add: word_less_nat_alt unat_sub_if')
  then have "sbrk_deallocate_loop root (old - 4096) old s =
      Some (case sbrk_free_page root old s of Ok r \<Rightarrow> Ok ((), snd r) | Panic e \<Rightarrow> Panic e | Hang \<Rightarrow> Hang | Undef \<Rightarrow> Undef)"
    by (subst sbrk_deallocate_loop.simps)
      (auto simp: PAGE_SIZE_def sbrk_deallocate_loop.simps [of root "old - 4096" "old - 4096"] split: outcome.splits)
  then show ?thesis
    by (simp add: vmm_user_sbrk_deallocate_def round_down_aligned [OF assms(1)] lift_loop_def kbind_def kern_defs
        split: outcome.splits)
qed

lemma store64_load64: "store64 m a (load64 m a) = m"
proof (rule ext)
  fix x
  have "bytes_of_word 8 (word_of_bytes (load_bytes 8 m a) :: u64) = load_bytes 8 m a"
    using bytes_of_word_of_bytes [of "load_bytes 8 m a", where ?'a = 64] by simp
  then show "store64 m a (load64 m a) x = m x"
    by (simp add: store64_def load64_def store_bytes_apply load_bytes_nth)
qed

text \<open>
  C12. Shrinking a heap releases the wrong page. For a heap that ends at a page boundary, giving one
  page back with \<open>vmm_user_sbrk_deallocate\<close> looks at the page above the heap instead of the last
  page of it: the process keeps every page it had, and the frame taken from the empty entry,
  physical page 0, is put on the free list.
\<close>

theorem sbrk_deallocate_wrong_page:
  assumes "pt_root Q fl root s" and "page_aligned old" and "user_va old"
    and "pt_reach 3 (mem s) (hhdm_offset s) root old = Some a" and "load64 (mem s) a = 0"
    and "hhdm_offset s \<notin> dom Q"
  shows "\<exists>s'. vmm_user_sbrk_deallocate root old 4096 s = Ok (old - 4096, s') \<and>
    freepages s' = hhdm_offset s \<and>
    (\<forall>v. unat v < 2 ^ 46 \<longrightarrow> translate s' root v = translate s root v)"
proof -
  let ?h = "hhdm_offset s"
  have pool: "pool fl s" and h: "page_aligned ?h" using assms(1) by (simp_all add: pt_root_def pt_ok_def pool_def)
  have u: "4096 \<le> unat old" "unat old < 2 ^ 46" using assms(3) by (simp_all add: user_va_unat)
  have a: "a \<noteq> 0" by (rule pt_reach_nonzero [OF assms(1) u(2) assms(4)])
  have z: "set_flag 0 False 0 = 0" "pte_follow 0 = 0"
    by (simp_all add: set_flag_def pte_follow_def pte_address_def)
  define s' where "s' = s\<lparr>mem := store64 (mem s) ?h (freepages s), freepages := ?h, cpu := settled (cpu s)\<rparr>"
  have "s\<lparr>mem := store64 (mem s) a 0\<rparr> = s" using store64_load64 [of "mem s" a] assms(5) by simp
  then have "sbrk_free_page root old s = Ok ((), s')"
    using kfree_eq [OF pool h] a assms(4,5) z
    by (simp add: sbrk_free_page_def walk_no_alloc [OF assms(3)] change_pte_def set_mem_def get_pte_def P2V_def s'_def)
  then have "vmm_user_sbrk_deallocate root old 4096 s = Ok (old - 4096, s')"
    by (simp add: sbrk_deallocate_one [OF assms(2) u(1)])
  moreover have "translate s' root v = translate s root v" if "unat v < 2 ^ 46" for v
  proof (rule translate_cong [OF assms(1) _ _ that])
    fix t assume t: "t \<in> dom Q"
    then have "page_aligned t" using assms(1) by (auto simp: pt_root_def pt_ok_def dest: pt_tree_aligned)
    with t assms(6) h have "pageno ?h \<noteq> pageno t" by (auto simp: page_aligned_eq)
    then show "same_page (mem s) (mem s') (pageno t)"
      using page_aligned_8 [OF h] by (simp add: s'_def same_page_store64)
  qed (simp add: s'_def)
  ultimately show ?thesis by (auto simp: s'_def)
qed

text \<open>
  A process with one heap page at \<open>0x400000\<close>: tables in the physical pages 1 to 4, the frame in
  page 5.
\<close>

definition heap_memory :: mem where
  "heap_memory =
     store64 (store64 (store64 (store64 (\<lambda>_. 0)
       (pte_slot 0xffff800000001000 0) 0x2007)
       (pte_slot 0xffff800000002000 0) 0x3007)
       (pte_slot 0xffff800000003000 2) 0x4007)
       (pte_slot 0xffff800000004000 0) 0x5007"

definition heap_kernel :: "unit kernel" where
  "heap_kernel = boot_kernel\<lparr>mem := heap_memory\<rparr>"

definition heap_tables :: tables where
  "heap_tables = [0xffff800000001000 \<mapsto> (3, 0), 0xffff800000002000 \<mapsto> (2, 0),
     0xffff800000003000 \<mapsto> (1, 0), 0xffff800000004000 \<mapsto> (0, 2)]"

lemma load_store_slot_if:
  "page_aligned t \<Longrightarrow> page_aligned t' \<Longrightarrow> unat i < 512 \<Longrightarrow> unat i' < 512 \<Longrightarrow>
   load64 (store64 m (pte_slot t' i') w) (pte_slot t i) = (if t = t' \<and> i = i' then w else load64 m (pte_slot t i))"
  using load_store_slot [of t' t i' i m w] by auto

lemma heap_entry:
  assumes "page_aligned t" and "unat i < 512"
  shows "load64 heap_memory (pte_slot t i) =
    (if t = 0xffff800000004000 \<and> i = 0 then 0x5007
     else if t = 0xffff800000003000 \<and> i = 2 then 0x4007
     else if t = 0xffff800000002000 \<and> i = 0 then 0x3007
     else if t = 0xffff800000001000 \<and> i = 0 then 0x2007 else 0)"
  using assms unfolding heap_memory_def by (simp add: load_store_slot_if page_aligned_def)

lemma heap_pte: "pte_present 0x2007" "pte_follow 0x2007 = 0x2000" "pte_present 0x3007" "pte_follow 0x3007 = 0x3000"
  "pte_present 0x4007" "pte_follow 0x4007 = 0x4000"
  by (simp_all add: pte_present_def pte_follow_def pte_address_def)

lemma pt_root_heap: "pt_root heap_tables [] 0xffff800000001000 heap_kernel"
proof -
  have "pt_tree heap_tables heap_memory 0xffff800000000000"
    by (auto simp: pt_tree_def heap_tables_def heap_entry heap_pte page_aligned_def split: if_splits)
  then show ?thesis
    by (simp add: pt_root_def pt_ok_def pool_def heap_tables_def heap_kernel_def boot_kernel_def page_aligned_def)
qed

lemma heap_index:
  "PTE_INDEX_FROM_VA 0x401000 (Suc (Suc (Suc 0))) = 0" "PTE_INDEX_FROM_VA 0x401000 (Suc (Suc 0)) = 0"
  "PTE_INDEX_FROM_VA 0x401000 (Suc 0) = 2" "PTE_INDEX_FROM_VA 0x401000 0 = 1"
  by (simp_all add: PTE_INDEX_FROM_VA_def)

theorem sbrk_deallocate_wrong_page_witness:
  "\<exists>s'. vmm_user_sbrk_deallocate 0xffff800000001000 0x401000 4096 heap_kernel = Ok (0x401000 - 4096, s') \<and>
     freepages s' = hhdm_offset heap_kernel \<and>
     (\<forall>v. unat v < 2 ^ 46 \<longrightarrow> translate s' 0xffff800000001000 v = translate heap_kernel 0xffff800000001000 v)"
proof (rule sbrk_deallocate_wrong_page [OF pt_root_heap])
  show "pt_reach 3 (mem heap_kernel) (hhdm_offset heap_kernel) 0xffff800000001000 0x401000 =
      Some (pte_slot 0xffff800000004000 1)"
    by (simp add: numeral_3_eq_3 heap_index heap_kernel_def boot_kernel_def heap_entry heap_pte page_aligned_def)
qed (simp_all add: page_aligned_def user_va_unat heap_kernel_def heap_entry heap_tables_def boot_kernel_def)

end
