(* ===== verification/Console.thy ===== *)
theory Console
  imports Lib KState
begin

text \<open>
  Port input and output (\<^verbatim>\<open>src/kernel/cpu/asm.h\<close>), the polled side of the serial port
  (\<^verbatim>\<open>src/kernel/device/serial_port.c\<close>) and the kernel's formatted output
  (\<^verbatim>\<open>src/kernel/common/printf.c\<close>). What stands behind the ports is hardware: a state of
  any type, and functions for what reading and writing a port and reading the time stamp counter do
  to it. Every byte written to a port is also appended to a log, the observable output.
\<close>

section \<open>Ports\<close>

record 'p ports =
  pdev :: 'p
  pin8 :: "u16 \<Rightarrow> 'p \<Rightarrow> u8 \<times> 'p"
  pout8 :: "u16 \<Rightarrow> u8 \<Rightarrow> 'p \<Rightarrow> 'p"
  pin32 :: "u16 \<Rightarrow> 'p \<Rightarrow> u32 \<times> 'p"
  pout32 :: "u16 \<Rightarrow> u32 \<Rightarrow> 'p \<Rightarrow> 'p"
  ptsc :: "'p \<Rightarrow> u64 \<times> 'p"
  plog :: "(u16 \<times> u8) list"

record ('d, 'p) console = "'d kernel" +
  ports :: "'p ports"
  print_lock :: spinlock

definition inb :: "u16 \<Rightarrow> (('d, 'p, 'z) console_scheme, u8) kern" where
  "inb port s = (case pin8 (ports s) port (pdev (ports s)) of
     (v, d) \<Rightarrow> Ok (v, s\<lparr>ports := (ports s)\<lparr>pdev := d\<rparr>\<rparr>))"

definition outb :: "u16 \<Rightarrow> u8 \<Rightarrow> (('d, 'p, 'z) console_scheme, unit) kern" where
  "outb port v s = Ok ((), s\<lparr>ports := (ports s)\<lparr>pdev := pout8 (ports s) port v (pdev (ports s)),
     plog := plog (ports s) @ [(port, v)]\<rparr>\<rparr>)"

definition inl :: "u16 \<Rightarrow> (('d, 'p, 'z) console_scheme, u32) kern" where
  "inl port s = (case pin32 (ports s) port (pdev (ports s)) of
     (v, d) \<Rightarrow> Ok (v, s\<lparr>ports := (ports s)\<lparr>pdev := d\<rparr>\<rparr>))"

definition outl :: "u16 \<Rightarrow> u32 \<Rightarrow> (('d, 'p, 'z) console_scheme, unit) kern" where
  "outl port v s = Ok ((), s\<lparr>ports := (ports s)\<lparr>pdev := pout32 (ports s) port v (pdev (ports s))\<rparr>\<rparr>)"

definition get_tsc :: "(('d, 'p, 'z) console_scheme, u64) kern" where
  "get_tsc s = (case ptsc (ports s) (pdev (ports s)) of
     (v, d) \<Rightarrow> Ok (v, s\<lparr>ports := (ports s)\<lparr>pdev := d\<rparr>\<rparr>))"

definition cli :: "(('d, 'p, 'z) console_scheme, unit) kern" where
  "cli = kmodify (\<lambda>s. s\<lparr>cpu := (cpu s)\<lparr>rflags_IF := False\<rparr>\<rparr>)"

definition sti :: "(('d, 'p, 'z) console_scheme, unit) kern" where
  "sti = kmodify (\<lambda>s. s\<lparr>cpu := (cpu s)\<lparr>rflags_IF := True\<rparr>\<rparr>)"

section \<open>The serial port, polled\<close>

definition PORT :: u16 where
  "PORT = 0x3f8"

definition serial_init :: "(('d, 'p, 'z) console_scheme, u32) kern" where
  "serial_init =
     kbind (outb (PORT + 2) 0) (\<lambda>_.
     kbind (outb (PORT + 3) 0x80) (\<lambda>_.
     kbind (outb (PORT + 0) (115200 div 9600)) (\<lambda>_.
     kbind (outb (PORT + 1) 0) (\<lambda>_.
     kbind (outb (PORT + 3) 0x03) (\<lambda>_.
     kbind (outb (PORT + 4) 0) (\<lambda>_.
     kbind (outb (PORT + 1) 0x01) (\<lambda>_.
     kbind (inb (PORT + 5)) (\<lambda>status.
     kret (if status = 0xFF then 1 else 0)))))))))"

definition is_transmit_empty :: "(('d, 'p, 'z) console_scheme, u8) kern" where
  "is_transmit_empty = kbind (inb (PORT + 5)) (\<lambda>v. kret (v AND 0x20))"

definition serial_putc :: "u8 \<Rightarrow> (('d, 'p, 'z) console_scheme, unit) kern" where
  "serial_putc a = kbind (kpoll is_transmit_empty (\<lambda>v. v \<noteq> 0)) (\<lambda>_. outb PORT a)"

definition serial_received :: "(('d, 'p, 'z) console_scheme, u8) kern" where
  "serial_received = kbind (inb (PORT + 5)) (\<lambda>v. kret (v AND 0x01))"

definition serial_getc :: "(('d, 'p, 'z) console_scheme, u8) kern" where
  "serial_getc = kbind (kpoll serial_received (\<lambda>v. v \<noteq> 0)) (\<lambda>_. inb PORT)"

primrec emit_all :: "(u8 \<Rightarrow> ('s, unit) kern) \<Rightarrow> u8 list \<Rightarrow> ('s, unit) kern" where
  "emit_all putc [] = kret ()"
| "emit_all putc (c # cs) = kbind (putc c) (\<lambda>_. emit_all putc cs)"

text \<open>\<open>serial_write\<close> sends the \<open>len\<close> bytes of the buffer in order; the result is the length as an int.\<close>

primrec serial_write_loop :: "nat \<Rightarrow> u64 \<Rightarrow> u64 \<Rightarrow> (('d, 'p, 'z) console_scheme, unit) kern" where
  "serial_write_loop 0 buffer i = kret ()"
| "serial_write_loop (Suc k) buffer i =
     kbind (kgets (\<lambda>s. mem s (buffer + i))) (\<lambda>c.
     kbind (serial_putc c) (\<lambda>_. serial_write_loop k buffer (i + 1)))"

definition serial_write :: "u64 \<Rightarrow> u64 \<Rightarrow> (('d, 'p, 'z) console_scheme, u32) kern" where
  "serial_write buffer len = kbind (serial_write_loop (unat len) buffer 0) (\<lambda>_. kret (ucast len))"

section \<open>Formatted output\<close>

definition ch :: "char \<Rightarrow> u8" where
  "ch c = of_char c"

definition chars :: "string \<Rightarrow> u8 list" where
  "chars = map ch"

definition digits :: "u8 list" where
  "digits = chars ''0123456789abcdef'' @ [0]"

text \<open>
  The digits go into a buffer of 20 bytes from its start. A store past its end, a division by 0, a
  read past the table of digits and the negation of the least \<open>long long\<close> are undefined.
\<close>

function digit_loop :: "u64 \<Rightarrow> u64 \<Rightarrow> u8 list \<Rightarrow> nat \<Rightarrow> (u8 list \<times> nat) outcome" where
  "digit_loop base x buf i =
     (if base = 0 \<or> 17 \<le> unat (x mod base) \<or> 20 \<le> i then Undef
      else let buf' = buf[i := digits ! unat (x mod base)]
           in if x div base \<noteq> 0 then digit_loop base (x div base) buf' (i + 1) else Ok (buf', i + 1))"
  by pat_completeness auto
termination digit_loop
  by (relation "measure (\<lambda>(_, _, _, i). 20 - i)") auto

definition printint :: "u64 \<Rightarrow> u64 \<Rightarrow> bool \<Rightarrow> (('d, 'p, 'z) console_scheme, unit) kern" where
  "printint xx base sign =
     (let neg = (sign \<and> sint xx < 0)
      in if neg \<and> xx = 0x8000000000000000 then kundef
         else case digit_loop base (if neg then - xx else xx) (replicate 20 0) 0 of
                Ok (buf, i) \<Rightarrow>
                  if neg then (if 20 \<le> i then kundef
                               else emit_all serial_putc (rev (take (i + 1) (buf[i := ch CHR ''-'']))))
                  else emit_all serial_putc (rev (take i buf))
              | _ \<Rightarrow> kundef)"

primrec ptr_loop :: "nat \<Rightarrow> u64 \<Rightarrow> (('d, 'p, 'z) console_scheme, unit) kern" where
  "ptr_loop 0 x = kret ()"
| "ptr_loop (Suc k) x =
     kbind (serial_putc (digits ! unat (drop_bit 60 x))) (\<lambda>_. ptr_loop k (push_bit 4 x))"

definition printptr :: "u64 \<Rightarrow> (('d, 'p, 'z) console_scheme, unit) kern" where
  "printptr x =
     kbind (serial_putc (ch CHR ''0'')) (\<lambda>_.
     kbind (serial_putc (ch CHR ''x'')) (\<lambda>_.
     ptr_loop 16 x))"

partial_function (option) put_string_loop ::
  "u64 \<Rightarrow> ('d, 'p, 'z) console_scheme \<Rightarrow> (unit \<times> ('d, 'p, 'z) console_scheme) outcome option" where
  "put_string_loop p s =
     (if mem s p = 0 then Some (Ok ((), s))
      else case serial_putc (mem s p) s of
             Ok (_, s1) \<Rightarrow> put_string_loop (p + 1) s1
           | Panic e \<Rightarrow> Some (Panic e) | Hang \<Rightarrow> Some Hang | Undef \<Rightarrow> Some Undef)"

definition put_string :: "u64 \<Rightarrow> (('d, 'p, 'z) console_scheme, unit) kern" where
  "put_string p =
     (if p = 0 then emit_all serial_putc (chars ''(null)'') else lift_loop (put_string_loop p))"

text \<open>
  The conversions, and how many characters of the format after \<open>%\<close> belong to them. \<open>va_arg\<close> takes
  the next argument; an \<open>int\<close> is sign-extended where a \<open>long long\<close> is expected. An integer
  conversion says whether its argument is a plain \<open>int\<close>, the base, and whether it is signed.
\<close>

datatype conversion =
    ConvInt bool u64 bool | ConvPtr | ConvStr | ConvPercent | ConvEnd | ConvUnknown u8

definition kconversion :: "u8 \<Rightarrow> u8 \<Rightarrow> u8 \<Rightarrow> conversion \<times> nat" where
  "kconversion c0 c1 c2 =
     (if c0 = ch CHR ''d'' then (ConvInt True 10 True, 1)
      else if c0 = ch CHR ''l'' \<and> c1 = ch CHR ''d'' then (ConvInt False 10 True, 2)
      else if c0 = ch CHR ''l'' \<and> c1 = ch CHR ''l'' \<and> c2 = ch CHR ''d'' then (ConvInt False 10 True, 3)
      else if c0 = ch CHR ''u'' then (ConvInt True 10 False, 1)
      else if c0 = ch CHR ''l'' \<and> c1 = ch CHR ''u'' then (ConvInt False 10 False, 2)
      else if c0 = ch CHR ''l'' \<and> c1 = ch CHR ''l'' \<and> c2 = ch CHR ''u'' then (ConvInt False 10 False, 3)
      else if c0 = ch CHR ''x'' then (ConvInt True 16 False, 1)
      else if c0 = ch CHR ''l'' \<and> c1 = ch CHR ''x'' then (ConvInt False 16 False, 2)
      else if c0 = ch CHR ''l'' \<and> c1 = ch CHR ''l'' \<and> c2 = ch CHR ''x'' then (ConvInt False 16 False, 3)
      else if c0 = ch CHR ''p'' then (ConvPtr, 1)
      else if c0 = ch CHR ''s'' then (ConvStr, 1)
      else if c0 = ch CHR ''%'' then (ConvPercent, 1)
      else if c0 = 0 then (ConvEnd, 0)
      else (ConvUnknown c0, 1))"

text \<open>The byte at an index of a format literal; the literal ends with a NUL byte.\<close>

definition fmt_at :: "u8 list \<Rightarrow> nat \<Rightarrow> u8" where
  "fmt_at fmt i = (if i < length fmt then fmt ! i else 0)"

definition int_arg :: "bool \<Rightarrow> u64 \<Rightarrow> u64" where
  "int_arg plain a = (if plain then scast (ucast a :: u32) else a)"

text \<open>One conversion: what it prints, and the arguments left for the next one.\<close>

definition print_conversion ::
  "conversion \<Rightarrow> u64 list \<Rightarrow> (('d, 'p, 'z) console_scheme, u64 list) kern" where
  "print_conversion c ap =
     (case c of
        ConvInt plain base sign \<Rightarrow>
          (case ap of [] \<Rightarrow> kundef | a # ap' \<Rightarrow> kbind (printint (int_arg plain a) base sign) (\<lambda>_. kret ap'))
      | ConvPtr \<Rightarrow> (case ap of [] \<Rightarrow> kundef | a # ap' \<Rightarrow> kbind (printptr a) (\<lambda>_. kret ap'))
      | ConvStr \<Rightarrow> (case ap of [] \<Rightarrow> kundef | a # ap' \<Rightarrow> kbind (put_string a) (\<lambda>_. kret ap'))
      | ConvPercent \<Rightarrow> kbind (serial_putc (ch CHR ''%'')) (\<lambda>_. kret ap)
      | ConvUnknown c0 \<Rightarrow> kbind (serial_putc (ch CHR ''%'')) (\<lambda>_. kbind (serial_putc c0) (\<lambda>_. kret ap))
      | ConvEnd \<Rightarrow> kret ap)"

function kprintf_loop :: "u8 list \<Rightarrow> u64 list \<Rightarrow> (('d, 'p, 'z) console_scheme, unit) kern" where
  "kprintf_loop fmt ap =
     (let cx = fmt_at fmt 0 in
      if cx = 0 then kret ()
      else if cx \<noteq> ch CHR ''%'' then kbind (serial_putc cx) (\<lambda>_. kprintf_loop (drop 1 fmt) ap)
      else let c0 = fmt_at fmt 1;
               c1 = (if c0 \<noteq> 0 then fmt_at fmt 2 else 0);
               c2 = (if c1 \<noteq> 0 then fmt_at fmt 3 else 0);
               (conv, n) = kconversion c0 c1 c2
           in if conv = ConvEnd then kret ()
              else kbind (print_conversion conv ap) (\<lambda>ap'. kprintf_loop (drop (1 + n) fmt) ap'))"
  by pat_completeness auto
termination kprintf_loop
  by (relation "measure (\<lambda>(fmt, _). length fmt)") (auto simp: fmt_at_def split: if_splits)

definition kprintf :: "u8 list \<Rightarrow> u64 list \<Rightarrow> (('d, 'p, 'z) console_scheme, u32) kern" where
  "kprintf fmt ap =
     kbind (klock print_lock print_lock_update) (\<lambda>_.
     kbind (kprintf_loop fmt ap) (\<lambda>_.
     kbind (kunlock print_lock print_lock_update) (\<lambda>_. kret 0)))"

primrec khexdump_loop :: "nat \<Rightarrow> u64 \<Rightarrow> u64 \<Rightarrow> (('d, 'p, 'z) console_scheme, unit) kern" where
  "khexdump_loop 0 buf i = kret ()"
| "khexdump_loop (Suc k) buf i =
     kbind (kgets (\<lambda>s. mem s (buf + i))) (\<lambda>data.
     kbind (serial_putc (digits ! unat (drop_bit 4 data AND 0xF))) (\<lambda>_.
     kbind (serial_putc (digits ! unat (data AND 0xF))) (\<lambda>_.
     khexdump_loop k buf (i + 1))))"

definition khexdump :: "u64 \<Rightarrow> u64 \<Rightarrow> (('d, 'p, 'z) console_scheme, unit) kern" where
  "khexdump buf sz = kbind (khexdump_loop (unat sz) buf 0) (\<lambda>_. serial_putc (ch CHR ''\<newline>''))"

text \<open>\<open>panic\<close> as it runs; elsewhere its call is the outcome \<^const>\<open>Panic\<close>.\<close>

definition panic :: "u64 \<Rightarrow> (('d, 'p, 'z) console_scheme, 'a) kern" where
  "panic msg = kbind cli (\<lambda>_. kbind (kprintf (chars ''panic: %s\<newline>'') [msg]) (\<lambda>_. khang))"

declare digit_loop.simps [simp del] kprintf_loop.simps [simp del]

section \<open>Character sinks\<close>

text \<open>
  What the printing routines rely on: a routine that takes one character, returns, and leaves the
  sink ready for the next one. A routine \<open>sends\<close> a text if it returns and the sink has taken exactly
  this text.
\<close>

locale char_sink =
  fixes putc :: "u8 \<Rightarrow> ('s, unit) kern"
    and ready :: "'s \<Rightarrow> bool"
    and sent :: "'s \<Rightarrow> u8 list"
  assumes putc_ok: "ready s \<Longrightarrow> \<exists>s'. putc c s = Ok ((), s') \<and> ready s' \<and> sent s' = sent s @ [c]"
begin

definition sends :: "('s, 'a) kern \<Rightarrow> u8 list \<Rightarrow> 'a \<Rightarrow> bool" where
  "sends m xs x \<longleftrightarrow> (\<forall>s. ready s \<longrightarrow> (\<exists>s'. m s = Ok (x, s') \<and> ready s' \<and> sent s' = sent s @ xs))"

lemma sends_putc: "sends (putc c) [c] ()"
  using putc_ok by (simp add: sends_def)

lemma sends_kret: "sends (kret x) [] x"
  by (simp add: sends_def)

lemma sends_kbind:
  assumes "sends m xs x" and "sends (f x) ys y"
  shows "sends (kbind m f) (xs @ ys) y"
  unfolding sends_def
proof (intro allI impI)
  fix s assume "ready s"
  with assms(1) obtain s1 where 1: "m s = Ok (x, s1)" "ready s1" "sent s1 = sent s @ xs"
    unfolding sends_def by blast
  from assms(2) 1(2) obtain s2 where "f x s1 = Ok (y, s2)" "ready s2" "sent s2 = sent s1 @ ys"
    unfolding sends_def by blast
  with 1 show "\<exists>s'. kbind m f s = Ok (y, s') \<and> ready s' \<and> sent s' = sent s @ xs @ ys" by simp
qed

lemma sends_then_kret: "sends m xs u \<Longrightarrow> sends (kbind m (\<lambda>_. kret y)) xs y"
  using sends_kbind [of m xs u "\<lambda>_. kret y" "[]" y] sends_kret [of y] by simp

lemma sends_emit_all: "sends (emit_all putc cs) cs ()"
proof (induction cs)
  case Nil
  then show ?case by (simp add: sends_def)
next
  case (Cons c cs)
  from sends_kbind [OF sends_putc this] show ?case by simp
qed

lemma sends_kgets: "(\<And>s. ready s \<Longrightarrow> g s = x) \<Longrightarrow> sends (kgets g) [] x"
  by (simp add: sends_def)

lemma sends_run: "sends m xs x \<Longrightarrow> ready s \<Longrightarrow> \<exists>s'. m s = Ok (x, s') \<and> ready s' \<and> sent s' = sent s @ xs"
  by (simp add: sends_def)

end

text \<open>
  The contract of the serial port: wherever port accesses may lead the hardware, reading the line
  status again and again finds the transmitter empty after finitely many reads.
\<close>

definition dev_step :: "'p ports \<Rightarrow> 'p \<Rightarrow> 'p \<Rightarrow> bool" where
  "dev_step P d e \<longleftrightarrow> (\<exists>port. e = snd (pin8 P port d)) \<or> (\<exists>port v. e = pout8 P port v d) \<or>
     (\<exists>port. e = snd (pin32 P port d)) \<or> (\<exists>port v. e = pout32 P port v d) \<or> e = snd (ptsc P d)"

primrec drained :: "nat \<Rightarrow> 'p ports \<Rightarrow> 'p \<Rightarrow> bool" where
  "drained 0 P d = (fst (pin8 P (PORT + 5) d) AND 0x20 \<noteq> 0)"
| "drained (Suc n) P d =
     (fst (pin8 P (PORT + 5) d) AND 0x20 \<noteq> 0 \<or> drained n P (snd (pin8 P (PORT + 5) d)))"

definition transmits :: "'p ports \<Rightarrow> bool" where
  "transmits P \<longleftrightarrow> (\<forall>e. (dev_step P)\<^sup>*\<^sup>* (pdev P) e \<longrightarrow> (\<exists>n. drained n P e))"

definition serial_out :: "('d, 'p, 'z) console_scheme \<Rightarrow> u8 list" where
  "serial_out s = map snd (filter (\<lambda>(port, v). port = PORT) (plog (ports s)))"

definition console_ready :: "('d, 'p, 'z) console_scheme \<Rightarrow> ('d, 'p, 'z) console_scheme \<Rightarrow> bool" where
  "console_ready t s \<longleftrightarrow> s = t\<lparr>ports := ports s\<rparr> \<and> transmits (ports s)"

lemma dev_step_update [simp]:
  "dev_step (P\<lparr>pdev := d\<rparr>) = dev_step P" "dev_step (P\<lparr>plog := l\<rparr>) = dev_step P"
  by (rule ext, rule ext, simp add: dev_step_def)+

lemma drained_update [simp]:
  "drained n (P\<lparr>pdev := d\<rparr>) e = drained n P e" "drained n (P\<lparr>plog := l\<rparr>) e = drained n P e"
  by (induction n arbitrary: e) simp_all

lemma transmits_step: "transmits P \<Longrightarrow> (dev_step P)\<^sup>*\<^sup>* (pdev P) d \<Longrightarrow> transmits (P\<lparr>pdev := d\<rparr>)"
  by (auto simp: transmits_def intro: rtranclp_trans)

lemma transmits_plog [simp]: "transmits (P\<lparr>plog := l\<rparr>) = transmits P"
  by (simp add: transmits_def)

lemma is_transmit_empty_eq:
  "is_transmit_empty s = Ok (fst (pin8 (ports s) (PORT + 5) (pdev (ports s))) AND 0x20,
     s\<lparr>ports := (ports s)\<lparr>pdev := snd (pin8 (ports s) (PORT + 5) (pdev (ports s)))\<rparr>\<rparr>)"
  by (simp add: is_transmit_empty_def inb_def kbind_def split: prod.split)

lemma wait_transmit_empty:
  assumes "drained n (ports s) (pdev (ports s))"
  shows "\<exists>v d. kpoll is_transmit_empty (\<lambda>v. v \<noteq> 0) s = Ok (v, s\<lparr>ports := (ports s)\<lparr>pdev := d\<rparr>\<rparr>) \<and>
    (dev_step (ports s))\<^sup>*\<^sup>* (pdev (ports s)) d"
  using assms
proof (induction n arbitrary: s)
  case 0
  then show ?case
    using kpoll_stop [where m = is_transmit_empty and stop = "\<lambda>v. v \<noteq> 0", OF is_transmit_empty_eq [of s]] by (force simp: dev_step_def)
next
  case (Suc n)
  let ?d = "snd (pin8 (ports s) (PORT + 5) (pdev (ports s)))"
  have r: "(dev_step (ports s))\<^sup>*\<^sup>* (pdev (ports s)) ?d" by (force simp: dev_step_def)
  show ?case
  proof (cases "drained 0 (ports s) (pdev (ports s))")
    case True
    then show ?thesis
      using kpoll_stop [where m = is_transmit_empty and stop = "\<lambda>v. v \<noteq> 0", OF is_transmit_empty_eq [of s]] r by auto
  next
    case False
    with Suc.prems have "drained n (ports s) ?d" by simp
    with Suc.IH [of "s\<lparr>ports := (ports s)\<lparr>pdev := ?d\<rparr>\<rparr>"] False r show ?thesis
      using kpoll_next [where m = is_transmit_empty and stop = "\<lambda>v. v \<noteq> 0", OF is_transmit_empty_eq [of s]] by (auto intro: rtranclp_trans)
  qed
qed

lemma serial_putc_ok:
  assumes "console_ready t s"
  shows "\<exists>s'. serial_putc c s = Ok ((), s') \<and> console_ready t s' \<and> serial_out s' = serial_out s @ [c]"
proof -
  let ?P = "ports s"
  have T: "transmits ?P" and t: "s = t\<lparr>ports := ports s\<rparr>" using assms by (simp_all add: console_ready_def)
  then obtain n where "drained n ?P (pdev ?P)" unfolding transmits_def by blast
  from wait_transmit_empty [OF this] obtain v d where
    w: "kpoll is_transmit_empty (\<lambda>v. v \<noteq> 0) s = Ok (v, s\<lparr>ports := ?P\<lparr>pdev := d\<rparr>\<rparr>)"
    and r: "(dev_step ?P)\<^sup>*\<^sup>* (pdev ?P) d" by blast
  have "dev_step ?P d (pout8 ?P PORT c d)" by (auto simp: dev_step_def)
  with r have "transmits (?P\<lparr>pdev := pout8 ?P PORT c d\<rparr>)" by (intro transmits_step [OF T]) simp
  then have "transmits (?P\<lparr>pdev := pout8 ?P PORT c d, plog := plog ?P @ [(PORT, c)]\<rparr>)" by simp
  moreover have "s\<lparr>ports := X\<rparr> = t\<lparr>ports := X\<rparr>" for X by (subst t) simp
  ultimately show ?thesis
    using w by (simp add: serial_putc_def outb_def console_ready_def serial_out_def)
qed

interpretation serial: char_sink serial_putc "console_ready t" serial_out for t
  by unfold_locales (rule serial_putc_ok)

end
