(* ===== verification/Printf.thy ===== *)
theory Printf
  imports Console
begin

text \<open>
  What the kernel's formatted output prints: the numerals of \<open>printint\<close> and \<open>printptr\<close>, and the text
  of a whole call of \<open>kprintf\<close> (\<^verbatim>\<open>src/kernel/common/printf.c\<close>).
\<close>

section \<open>Numerals\<close>

text \<open>The digits of a number, most significant first, without leading zeros.\<close>

fun nat_digits :: "nat \<Rightarrow> nat \<Rightarrow> nat list" where
  "nat_digits b n = (if b < 2 \<or> n < b then [n] else nat_digits b (n div b) @ [n mod b])"

declare nat_digits.simps [simp del]

definition numeral_text :: "nat \<Rightarrow> nat \<Rightarrow> u8 list" where
  "numeral_text b n = map (\<lambda>d. digits ! d) (nat_digits b n)"

definition int_text :: "nat \<Rightarrow> bool \<Rightarrow> u64 \<Rightarrow> u8 list" where
  "int_text b sign xx =
     (if sign \<and> sint xx < 0 then ch CHR ''-'' # numeral_text b (nat (- sint xx))
      else numeral_text b (unat xx))"

lemma nat_digits_less: "n < b \<Longrightarrow> nat_digits b n = [n]"
  by (simp add: nat_digits.simps)

lemma nat_digits_step: "2 \<le> b \<Longrightarrow> b \<le> n \<Longrightarrow> nat_digits b n = nat_digits b (n div b) @ [n mod b]"
  by (simp add: nat_digits.simps [of b n])

lemma nat_digits_value: "2 \<le> b \<Longrightarrow> foldl (\<lambda>a d. b * a + d) 0 (nat_digits b n) = n"
proof (induction b n rule: nat_digits.induct)
  case (1 b n)
  then show ?case by (cases "n < b") (simp_all add: nat_digits_less nat_digits_step not_less)
qed

lemma nat_digits_bound: "2 \<le> b \<Longrightarrow> d \<in> set (nat_digits b n) \<Longrightarrow> d < b"
proof (induction b n rule: nat_digits.induct)
  case (1 b n)
  then show ?case by (cases "n < b") (auto simp: nat_digits_less nat_digits_step not_less)
qed

lemma nat_digits_hd: "2 \<le> b \<Longrightarrow> 0 < n \<Longrightarrow> hd (nat_digits b n) \<noteq> 0"
proof (induction b n rule: nat_digits.induct)
  case (1 b n)
  have "nat_digits b (n div b) \<noteq> []" by (simp add: nat_digits.simps)
  with 1 show ?case
    by (cases "n < b") (auto simp: nat_digits_less nat_digits_step not_less div_greater_zero_iff)
qed

lemma length_nat_digits: "2 \<le> b \<Longrightarrow> n < b ^ Suc k \<Longrightarrow> length (nat_digits b n) \<le> Suc k"
proof (induction k arbitrary: n)
  case 0
  then show ?case by (simp add: nat_digits_less)
next
  case (Suc k)
  show ?case
  proof (cases "n < b")
    case False
    have "n div b < b ^ Suc k" using Suc.prems by (simp add: less_mult_imp_div_less mult.commute)
    with Suc False show ?thesis by (simp add: nat_digits_step not_less)
  qed (simp add: nat_digits_less)
qed

text \<open>The loop leaves the digits in the buffer, least significant first.\<close>

lemma digit_loop_ok:
  assumes "2 \<le> unat base" and "unat base \<le> 16" and "length buf = 20"
    and "i + length (nat_digits (unat base) (unat x)) \<le> 20"
  shows "\<exists>buf'. digit_loop base x buf i = Ok (buf', i + length (nat_digits (unat base) (unat x))) \<and>
    length buf' = 20 \<and>
    take (i + length (nat_digits (unat base) (unat x))) buf' = take i buf @ rev (numeral_text (unat base) (unat x))"
  using assms
proof (induction base x buf i rule: digit_loop.induct)
  case (1 base x buf i)
  let ?b = "unat base" let ?n = "unat x"
  let ?buf = "buf[i := digits ! unat (x mod base)]"
  have base: "base \<noteq> 0" using 1(2) by auto
  have m: "unat (x mod base) = ?n mod ?b" and d: "unat (x div base) = ?n div ?b"
    by (simp_all add: unat_mod unat_div)
  have len: "0 < length (nat_digits ?b ?n)" by (simp add: nat_digits.simps)
  have lt: "?n mod ?b < ?b" using 1(2) by simp
  have i: "i < 20" using 1(5) len by linarith
  have ok: "\<not> (base = 0 \<or> 17 \<le> unat (x mod base) \<or> 20 \<le> i)" using base m lt 1(3) i by simp
  have tk: "take (i + 1) ?buf = take i buf @ [digits ! (?n mod ?b)]"
    using i 1(4) m by (simp add: take_Suc_conv_app_nth)
  show ?case
  proof (cases "x div base = 0")
    case True
    with d 1(2) have n: "?n < ?b" by (metis div_eq_0_iff not_numeral_le_zero unat_0)
    have "digit_loop base x buf i = Ok (?buf, i + 1)"
      using ok True by (subst digit_loop.simps) (simp add: Let_def)
    with n tk 1(4) show ?thesis by (auto simp: nat_digits_less numeral_text_def)
  next
    case False
    with d have n: "?b \<le> ?n" using 1(2) by (metis div_less not_less unat_eq_zero)
    have e: "nat_digits ?b ?n = nat_digits ?b (?n div ?b) @ [?n mod ?b]"
      using nat_digits_step [OF 1(2) n] .
    have "digit_loop base x buf i = digit_loop base (x div base) ?buf (i + 1)"
      using ok False by (subst digit_loop.simps) (simp add: Let_def)
    with 1(1) [OF ok refl False 1(2,3)] 1(4,5) e d tk show ?thesis
      by (fastforce simp: numeral_text_def)
  qed
qed

lemma unat_neg: "sint (xx :: u64) < 0 \<Longrightarrow> unat (- xx) = nat (- sint xx)"
proof -
  assume neg: "sint xx < 0"
  then have "xx \<noteq> 0" by auto
  moreover have u: "0 \<le> uint xx" "uint xx < 2 ^ 64" using unsigned_less [of xx, where ?'a = int] by simp_all
  ultimately have "uint (- xx) = 2 ^ 64 - uint xx"
    by (simp add: uint_word_ariths zmod_zminus1_eq_if uint_0_iff)
  moreover have "sint xx = uint xx - 2 ^ 64" using neg u by (simp add: sint_u64 split: if_splits)
  ultimately show ?thesis by (simp add: unat_eq_nat_uint)
qed

text \<open>The buffer of 20 bytes is enough, and the numeral comes out.\<close>

definition printable :: "bool \<Rightarrow> u64 \<Rightarrow> bool" where
  "printable sign xx \<longleftrightarrow> \<not> (sign \<and> xx = 0x8000000000000000)"

lemma length_decimal: "n < 10 ^ 20 \<Longrightarrow> length (nat_digits 10 n) \<le> 20"
    "n < 10 ^ 19 \<Longrightarrow> length (nat_digits 10 n) \<le> 19"
  and length_hexadecimal: "n < 16 ^ 16 \<Longrightarrow> length (nat_digits 16 n) \<le> 16"
  using length_nat_digits [of 10 n 19] length_nat_digits [of 10 n 18] length_nat_digits [of 16 n 15] by simp_all

lemma length_magnitude:
  assumes "base = 10 \<or> base = (16 :: u64)"
  shows "length (nat_digits (unat base) (if neg \<and> sint xx < 0 then nat (- sint xx) else unat (xx :: u64))) \<le>
    (if neg \<and> sint xx < 0 then 19 else 20)" (is "length (nat_digits _ ?x) \<le> _")
proof -
  have x: "?x < 16 ^ 16" using unat_lt64 [of xx] sint_ge [of xx] by auto
  then have x20: "?x < 10 ^ 20" by (rule less_trans) simp
  have neg: "?x < 10 ^ 19" if "neg \<and> sint xx < 0"
    using that sint_ge [of xx] by auto
  show ?thesis
    using assms length_decimal(1) [OF x20] length_decimal(2) [OF neg] length_hexadecimal [OF x]
    by (auto split: if_splits)
qed

lemma printint_eq:
  assumes "base = 10 \<or> base = 16" and "printable sign xx"
  shows "printint xx base sign = emit_all serial_putc (int_text (unat base) sign xx)"
proof -
  define neg where "neg = (sign \<and> sint xx < 0)"
  define x where "x = (if neg then - xx else xx)"
  let ?L = "length (nat_digits (unat base) (unat x))"
  have b: "2 \<le> unat base" "unat base \<le> 16" using assms(1) by auto
  have ux: "unat x = (if neg then nat (- sint xx) else unat xx)" by (simp add: x_def neg_def unat_neg)
  have len: "?L \<le> (if neg then 19 else 20)"
    using length_magnitude [OF assms(1), of sign xx] unfolding ux neg_def .
  then obtain buf where buf: "digit_loop base x (replicate 20 0) 0 = Ok (buf, ?L)" "length buf = 20"
    "take ?L buf = rev (numeral_text (unat base) (unat x))"
    using digit_loop_ok [OF b, of "replicate 20 0" 0 x] by (auto split: if_splits)
  show ?thesis
  proof (cases neg)
    case True
    then have "take (?L + 1) (buf[?L := ch CHR ''-'']) = rev (numeral_text (unat base) (unat x)) @ [ch CHR ''-'']"
      using len buf(2,3) by (simp add: take_Suc_conv_app_nth)
    with True assms(2) buf(1) len ux show ?thesis
      by (auto simp: printint_def Let_def neg_def x_def int_text_def printable_def)
  next
    case False
    with buf(1,3) show ?thesis
      by (auto simp: printint_def Let_def neg_def x_def int_text_def)
  qed
qed

definition ptr_text :: "u64 \<Rightarrow> u8 list" where
  "ptr_text x = chars ''0x'' @ map (\<lambda>j. digits ! unat (take_bit 4 (drop_bit (60 - 4 * j) x))) [0..<16]"

lemma ptr_loop_eq:
  "j + k = 16 \<Longrightarrow> ptr_loop k (push_bit (4 * j) x) =
     emit_all serial_putc (map (\<lambda>j. digits ! unat (take_bit 4 (drop_bit (60 - 4 * j) x))) [j..<16])"
proof (induction k arbitrary: j)
  case 0
  then show ?case by simp
next
  case (Suc k)
  have "drop_bit 60 (push_bit (4 * j) x) = take_bit 4 (drop_bit (60 - 4 * j) x)"
    using Suc.prems by (intro bit_word_eqI) (auto simp: bit_simps intro: arg_cong)
  moreover have "push_bit 4 (push_bit (4 * j) x) = push_bit (4 * Suc j) x"
    by (simp add: push_bit_push_bit)
  ultimately show ?case
    using Suc.prems Suc.IH [of "Suc j"] by (simp add: upt_conv_Cons del: upt.simps)
qed

lemma printptr_eq: "printptr x = emit_all serial_putc (ptr_text x)"
  by (simp add: printptr_def ptr_text_def chars_def ptr_loop_eq [where j = 0 and k = 16, simplified])

section \<open>Whole formats\<close>

text \<open>The pieces of a format, with the argument each of them takes.\<close>

datatype piece =
    Literal "u8 list" | Signed32 u32 | Unsigned32 u32 | Hexadecimal32 u32 | Signed64 u64 | Unsigned64 u64 | Hexadecimal64 u64
  | Pointer u64 | Str u64 "u8 list" | Percent

primrec piece_fmt :: "piece \<Rightarrow> u8 list" where
  "piece_fmt (Literal xs) = xs"
| "piece_fmt (Signed32 v) = chars ''%d''"
| "piece_fmt (Unsigned32 v) = chars ''%u''"
| "piece_fmt (Hexadecimal32 v) = chars ''%x''"
| "piece_fmt (Signed64 v) = chars ''%lld''"
| "piece_fmt (Unsigned64 v) = chars ''%llu''"
| "piece_fmt (Hexadecimal64 v) = chars ''%llx''"
| "piece_fmt (Pointer v) = chars ''%p''"
| "piece_fmt (Str p xs) = chars ''%s''"
| "piece_fmt Percent = chars ''%%''"

primrec piece_args :: "piece \<Rightarrow> u64 list" where
  "piece_args (Literal xs) = []"
| "piece_args (Signed32 v) = [ucast v]"
| "piece_args (Unsigned32 v) = [ucast v]"
| "piece_args (Hexadecimal32 v) = [ucast v]"
| "piece_args (Signed64 v) = [v]"
| "piece_args (Unsigned64 v) = [v]"
| "piece_args (Hexadecimal64 v) = [v]"
| "piece_args (Pointer v) = [v]"
| "piece_args (Str p xs) = [p]"
| "piece_args Percent = []"

primrec piece_text :: "piece \<Rightarrow> u8 list" where
  "piece_text (Literal xs) = xs"
| "piece_text (Signed32 v) = int_text 10 True (scast v)"
| "piece_text (Unsigned32 v) = numeral_text 10 (unat v)"
| "piece_text (Hexadecimal32 v) = numeral_text 16 (unat v)"
| "piece_text (Signed64 v) = int_text 10 True v"
| "piece_text (Unsigned64 v) = numeral_text 10 (unat v)"
| "piece_text (Hexadecimal64 v) = numeral_text 16 (unat v)"
| "piece_text (Pointer v) = ptr_text v"
| "piece_text (Str p xs) = (if p = 0 then chars ''(null)'' else xs)"
| "piece_text Percent = chars ''%''"

primrec piece_ok :: "mem \<Rightarrow> piece \<Rightarrow> bool" where
  "piece_ok m (Literal xs) = (ch CHR ''%'' \<notin> set xs \<and> 0 \<notin> set xs)"
| "piece_ok m (Signed32 v) = True"
| "piece_ok m (Unsigned32 v) = (unat v < 2 ^ 31)"
| "piece_ok m (Hexadecimal32 v) = (unat v < 2 ^ 31)"
| "piece_ok m (Signed64 v) = (v \<noteq> 0x8000000000000000)"
| "piece_ok m (Unsigned64 v) = True"
| "piece_ok m (Hexadecimal64 v) = True"
| "piece_ok m (Pointer v) = True"
| "piece_ok m (Str p xs) = (p = 0 \<or> cstr m p xs)"
| "piece_ok m Percent = True"

primrec piece_conv :: "piece \<Rightarrow> conversion" where
  "piece_conv (Literal xs) = ConvEnd"
| "piece_conv (Signed32 v) = ConvInt True 10 True"
| "piece_conv (Unsigned32 v) = ConvInt True 10 False"
| "piece_conv (Hexadecimal32 v) = ConvInt True 16 False"
| "piece_conv (Signed64 v) = ConvInt False 10 True"
| "piece_conv (Unsigned64 v) = ConvInt False 10 False"
| "piece_conv (Hexadecimal64 v) = ConvInt False 16 False"
| "piece_conv (Pointer v) = ConvPtr"
| "piece_conv (Str p xs) = ConvStr"
| "piece_conv Percent = ConvPercent"

lemma console_ready_mem: "console_ready t s \<Longrightarrow> mem s = mem t"
proof -
  assume "console_ready t s"
  then have "s = t\<lparr>ports := ports s\<rparr>" by (simp add: console_ready_def)
  from arg_cong [where f = mem, OF this] show ?thesis by simp
qed

lemma kprintf_loop_Nil: "kprintf_loop [] ap = kret ()"
  by (subst kprintf_loop.simps) (simp add: fmt_at_def)

lemma kprintf_loop_char:
  "c \<noteq> 0 \<Longrightarrow> c \<noteq> ch CHR ''%'' \<Longrightarrow>
   kprintf_loop (c # fmt) ap = kbind (serial_putc c) (\<lambda>_. kprintf_loop fmt ap)"
  by (subst kprintf_loop.simps) (simp add: fmt_at_def)

lemma kprintf_loop_piece:
  "piece_conv q \<noteq> ConvEnd \<Longrightarrow>
   kprintf_loop (piece_fmt q @ fmt) ap = kbind (print_conversion (piece_conv q) ap) (\<lambda>ap'. kprintf_loop fmt ap')"
  by (cases q; subst kprintf_loop.simps) (simp_all add: fmt_at_def chars_def kconversion_def ch_def)

lemma sends_put_string_loop:
  "cstr (mem t) p xs \<Longrightarrow> console_ready t s \<Longrightarrow>
   \<exists>s'. put_string_loop p s = Some (Ok ((), s')) \<and> console_ready t s' \<and> serial_out s' = serial_out s @ xs"
proof (induction xs arbitrary: p s)
  case Nil
  then show ?case by (subst put_string_loop.simps) (simp add: console_ready_mem)
next
  case (Cons c xs)
  obtain s1 where s1: "serial_putc c s = Ok ((), s1)" "console_ready t s1" "serial_out s1 = serial_out s @ [c]"
    using serial_putc_ok [OF Cons.prems(2)] by blast
  from Cons.prems(1) have m: "mem s p = c" "c \<noteq> 0" "cstr (mem t) (p + 1) xs"
    by (simp_all add: console_ready_mem [OF Cons.prems(2)])
  from Cons.IH [OF m(3) s1(2)] s1 m(1,2) show ?case
    by (subst put_string_loop.simps) auto
qed

lemma sends_put_string:
  "p = 0 \<or> cstr (mem t) p xs \<Longrightarrow> serial.sends t (put_string p) (if p = 0 then chars ''(null)'' else xs) ()"
  using serial.sends_emit_all [of t] sends_put_string_loop
  by (fastforce simp: put_string_def serial.sends_def lift_loop_def)

lemma printable_int: "printable True (scast (v :: u32))"
proof -
  have v: "- (2 ^ 31) \<le> sint v" "sint v < 2 ^ 31" using sint_ge [of v] sint_less [of v] by simp_all
  moreover have "sint (scast v :: u64) = sint v"
    using v by (simp add: signed_scast_eq signed_take_bit_int_eq_self)
  ultimately have "sint (scast v :: u64) \<noteq> sint (0x8000000000000000 :: u64)" by simp
  then show ?thesis by (auto simp: printable_def)
qed

lemma printable_other: "printable False xx" "xx \<noteq> 0x8000000000000000 \<Longrightarrow> printable sign xx"
  by (simp_all add: printable_def)

lemma int_text_unsigned: "int_text b False v = numeral_text b (unat v)"
  by (simp add: int_text_def)

lemma ucast_ucast_32: "ucast (ucast v :: u64) = (v :: u32)"
  by (rule bit_word_eqI) (simp add: bit_simps)

lemma uint_scast_32: "uint (scast (v :: u32) :: u64) = sint v mod 18446744073709551616"
  by (subst of_int_sint [symmetric], subst unsigned_of_int) (simp add: take_bit_eq_mod)

lemma unat_scast_32:
  "unat (scast (v :: u32) :: u64) =
     (if unat v < 2147483648 then unat v else unat v + 18446744069414584320)"
proof -
  have v: "0 \<le> uint v" "uint v < 4294967296"
    using unsigned_less [of v, where ?'a = int] by simp_all
  have u: "int (unat v) = uint v" "int (unat (scast v :: u64)) = uint (scast v :: u64)" by simp_all
  show ?thesis
  proof (cases "unat v < 2147483648")
    case True
    then have "uint v < 2147483648" using u(1) by linarith
    then have "sint v = uint v" by (simp add: sint_u32)
    then have "sint v mod 18446744073709551616 = uint v" using v by (simp add: mod_pos_pos_trivial)
    then have "unat (scast v :: u64) = unat v" using u unfolding uint_scast_32 by linarith
    with True show ?thesis by (simp only: if_True)
  next
    case False
    then have "\<not> uint v < 2147483648" using u(1) by linarith
    then have "sint v = uint v - 4294967296" by (simp add: sint_u32)
    then have "sint v mod 18446744073709551616 = (uint v - 4294967296 + 18446744073709551616) mod 18446744073709551616"
      by (simp only: mod_add_self2)
    also have "\<dots> = uint v - 4294967296 + 18446744073709551616"
      using v by (intro mod_pos_pos_trivial) linarith+
    finally have "unat (scast v :: u64) = unat v + 18446744069414584320"
      using u unfolding uint_scast_32 by linarith
    with False show ?thesis by (simp only: if_False)
  qed
qed

lemma sends_piece:
  assumes "piece_ok (mem t) q"
  shows "serial.sends t (print_conversion (piece_conv q) (piece_args q @ ap))
    (if piece_conv q = ConvEnd then [] else piece_text q) ap"
proof -
  have "serial.sends t (kbind (put_string p) (\<lambda>_. kret ap)) (if p = 0 then chars ''(null)'' else xs) ap"
    if "p = 0 \<or> cstr (mem t) p xs" for p xs
    by (rule serial.sends_then_kret [OF sends_put_string [OF that]])
  then show ?thesis
    using assms serial.sends_kret serial.sends_then_kret [OF serial.sends_emit_all]
      serial.sends_then_kret [OF serial.sends_putc]
    by (cases q) (simp_all add: print_conversion_def int_arg_def printint_eq printable_int printptr_eq
        printable_other int_text_unsigned ucast_ucast_32 unat_scast_32 chars_def)
qed

lemma sends_literal:
  assumes "ch CHR ''%'' \<notin> set xs" and "0 \<notin> set xs" and "serial.sends t (kprintf_loop fmt ap) ys ()"
  shows "serial.sends t (kprintf_loop (xs @ fmt) ap) (xs @ ys) ()"
  using assms(1,2)
proof (induction xs)
  case Nil
  then show ?case using assms(3) by simp
next
  case (Cons c xs)
  with serial.sends_kbind [OF serial.sends_putc, of t "\<lambda>_. kprintf_loop (xs @ fmt) ap" "xs @ ys" "()" c]
  show ?case by (auto simp: kprintf_loop_char)
qed

lemma sends_kprintf_loop:
  "list_all (piece_ok (mem t)) ps \<Longrightarrow>
   serial.sends t (kprintf_loop (concat (map piece_fmt ps)) (concat (map piece_args ps)))
     (concat (map piece_text ps)) ()"
proof (induction ps)
  case Nil
  then show ?case by (simp add: kprintf_loop_Nil serial.sends_def)
next
  case (Cons q ps)
  let ?fmt = "concat (map piece_fmt ps)" let ?ap = "concat (map piece_args ps)"
  have q: "piece_ok (mem t) q" using Cons.prems by simp
  have IH: "serial.sends t (kprintf_loop ?fmt ?ap) (concat (map piece_text ps)) ()" using Cons by simp
  show ?case
  proof (cases "piece_conv q = ConvEnd")
    case True
    then obtain xs where "q = Literal xs" by (cases q) auto
    with q sends_literal [OF _ _ IH, of xs] show ?thesis by simp
  next
    case False
    with serial.sends_kbind [OF sends_piece [OF q], of "\<lambda>ap'. kprintf_loop ?fmt ap'" ?ap] IH
    show ?thesis by (simp add: kprintf_loop_piece)
  qed
qed

interpretation prl: lock_field print_lock print_lock_update
  by unfold_locales simp_all

lemma kprintf_sends:
  fixes s :: "('d, 'p, 'z) console_scheme"
  assumes "cpu_ok (cpu s)" and "print_lock s = unlocked_lock" and "transmits (ports s)"
    and "\<And>t :: ('d, 'p, 'z) console_scheme. mem t = mem s \<Longrightarrow> serial.sends t (kprintf_loop fmt ap) xs ()"
  shows "\<exists>s'. kprintf fmt ap s = Ok (0, s') \<and> serial_out s' = serial_out s @ xs \<and>
    print_lock s' = unlocked_lock \<and> mem s' = mem s \<and> transmits (ports s')"
proof -
  let ?e = "prl.entered s"
  have e: "ports ?e = ports s" "mem ?e = mem s" "print_lock ?e = held_lock (cpu s)"
    "cpu ?e = save_and_disable_interrupts (cpu s)" by (simp_all add: prl.entered_def)
  then have "console_ready ?e ?e" using assms(3) by (simp add: console_ready_def)
  then obtain s1 where s1: "kprintf_loop fmt ap ?e = Ok ((), s1)" "console_ready ?e s1"
    "serial_out s1 = serial_out ?e @ xs" using serial.sends_run [OF assms(4) [OF e(2)]] by blast
  then have s1': "s1 = ?e\<lparr>ports := ports s1\<rparr>" "transmits (ports s1)" by (simp_all add: console_ready_def)
  have f: "print_lock s1 = held_lock (cpu s)" "cpu s1 = save_and_disable_interrupts (cpu s)" "mem s1 = mem s"
    using e arg_cong [where f = print_lock, OF s1'(1)] arg_cong [where f = cpu, OF s1'(1)]
      console_ready_mem [OF s1(2)] by simp_all
  have "kprintf fmt ap s = Ok (0, (s1\<lparr>print_lock := unlocked_lock\<rparr>)\<lparr>cpu := settled (cpu s)\<rparr>)"
    unfolding kprintf_def using prl.lock_free [OF assms(1,2)] s1(1) prl.unlock_entered [OF assms(1) f(1,2)]
    by simp
  with s1(3) s1'(2) f(3) e show ?thesis by (simp add: serial_out_def)
qed


text \<open>A console whose serial port is always ready.\<close>

definition idle_ports :: "unit ports" where
  "idle_ports = \<lparr>pdev = (), pin8 = (\<lambda>_ _. (0x60, ())), pout8 = (\<lambda>_ _ _. ()), pin32 = (\<lambda>_ _. (0, ())),
     pout32 = (\<lambda>_ _ _. ()), ptsc = (\<lambda>_. (0, ())), plog = []\<rparr>"

definition boot_console :: "(unit, unit) console" where
  "boot_console = kernel.extend boot_kernel (console.fields idle_ports unlocked_lock)"

lemma transmits_idle_ports: "transmits idle_ports"
  by (auto simp: transmits_def idle_ports_def intro!: exI [of _ 0])

lemma boot_console_simps [simp]:
  "ports boot_console = idle_ports" "print_lock boot_console = unlocked_lock" "cpu boot_console = boot_cpu"
  "mem boot_console = (\<lambda>_. 0)"
  by (simp_all add: boot_console_def kernel.defs console.defs boot_kernel_def)


text \<open>
  The buffer of \<open>printint\<close> is large enough. For the two bases in use and every argument except
  the least \<open>long long\<close> printed as signed, the routine sends a text of at most 20 characters: the
  digits of the magnitude without leading zeros, after a minus sign for a negative number, and the
  digits read back give the magnitude.
\<close>

theorem printint_fits:
  assumes "base = 10 \<or> base = 16" and "\<not> (sign \<and> xx = 0x8000000000000000)"
  shows "\<exists>ds. printint xx base sign = emit_all serial_putc
      ((if sign \<and> sint xx < 0 then [ch CHR ''-''] else []) @ map (\<lambda>d. digits ! d) ds) \<and>
    length ds + (if sign \<and> sint xx < 0 then 1 else 0) \<le> 20 \<and> (\<forall>d \<in> set ds. d < unat base) \<and>
    (1 < length ds \<longrightarrow> hd ds \<noteq> 0) \<and>
    int (foldl (\<lambda>a d. unat base * a + d) 0 ds) = (if sign then \<bar>sint xx\<bar> else uint xx)"
proof -
  define n where "n = (if sign \<and> sint xx < 0 then nat (- sint xx) else unat xx)"
  have b: "2 \<le> unat base" using assms(1) by auto
  have "printint xx base sign = emit_all serial_putc (int_text (unat base) sign xx)"
    using assms by (intro printint_eq) (simp_all add: printable_def)
  moreover have "int_text (unat base) sign xx = (if sign \<and> sint xx < 0 then [ch CHR ''-''] else []) @
      map (\<lambda>d. digits ! d) (nat_digits (unat base) n)"
    by (simp add: int_text_def numeral_text_def n_def)
  moreover have "int n = (if sign then \<bar>sint xx\<bar> else uint xx)"
    using unsigned_less [of xx, where ?'a = int] by (auto simp: n_def sint_u64)
  moreover have "1 < length (nat_digits (unat base) n) \<longrightarrow> 0 < n"
    using b by (auto simp: nat_digits_less intro: gr0I)
  ultimately show ?thesis
    using nat_digits_value [OF b, of n] nat_digits_bound [OF b] nat_digits_hd [OF b, of n] length_magnitude [OF assms(1), of sign xx, folded n_def]
    by (intro exI [of _ "nat_digits (unat base) n"]) auto
qed

theorem printint_fits_witness:
  "\<exists>ds. (printint 255 16 False :: ((unit, unit) console, unit) kern) =
      emit_all serial_putc (map (\<lambda>d. digits ! d) ds) \<and> length ds \<le> 20 \<and> foldl (\<lambda>a d. 16 * a + d) 0 ds = 255"
  using printint_fits [where ?'a = unit and ?'b = unit and ?'c = unit, of 16 False 255] by auto

text \<open>
  \<open>%u\<close> misprints the larger half of its range. An \<open>unsigned int\<close> from \<open>2 ^ 31\<close> on is taken as an
  \<open>int\<close> and sign-extended, so that \<open>kprintf\<close> prints it plus \<open>2 ^ 64 - 2 ^ 32\<close>.
\<close>

theorem kprintf_unsigned_sign_extended:
  assumes "cpu_ok (cpu s)" and "print_lock s = unlocked_lock" and "transmits (ports s)"
    and "2 ^ 31 \<le> unat (v :: u32)"
  shows "\<exists>s'. kprintf (chars ''%u'') [ucast v] s = Ok (0, s') \<and>
    serial_out s' = serial_out s @ numeral_text 10 (unat v + (2 ^ 64 - 2 ^ 32))"
proof -
  let ?xs = "numeral_text 10 (unat v + (2 ^ 64 - 2 ^ 32))"
  have "serial.sends t (kprintf_loop (chars ''%u'') [ucast v]) ?xs ()"
    for t :: "('a, 'b, 'c) console_scheme"
  proof -
    have "serial.sends t (kprintf_loop [] []) [] ()" by (simp add: kprintf_loop_Nil serial.sends_def)
    with serial.sends_kbind [OF serial.sends_then_kret [OF serial.sends_emit_all [of t ?xs], of "[]"],
        where f = "kprintf_loop []" and ys = "[]" and y = "()"]
    have "serial.sends t (kbind (kbind (emit_all serial_putc ?xs) (\<lambda>_. kret [])) (kprintf_loop [])) ?xs ()"
      by simp
    then show ?thesis
      using assms(4)
      by (simp add: kprintf_loop_piece [of "Unsigned32 v" "[]", simplified] print_conversion_def int_arg_def printint_eq printable_other int_text_unsigned ucast_ucast_32
          unat_scast_32)
  qed
  from kprintf_sends [OF assms(1-3) this] show ?thesis by blast
qed

theorem kprintf_unsigned_sign_extended_witness:
  "\<exists>s'. kprintf (chars ''%u'') [0x80000000] boot_console = Ok (0, s') \<and>
     serial_out s' = serial_out boot_console @ numeral_text 10 18446744071562067968"
  using kprintf_unsigned_sign_extended [of boot_console "0x80000000"] transmits_idle_ports by simp

end
