(* ===== verification/Rtc.thy ===== *)
theory Rtc
  imports Printf
begin

text \<open>
  The real time clock, \<^verbatim>\<open>src/kernel/device/rtc.c\<close>: the calibration of the time stamp
  counter against the interval timer, the reading of the CMOS clock, and the time of day.
\<close>

section \<open>State and operations\<close>

record ('d, 'p) rtc_state = "('d, 'p) console" +
  tsc_frequency :: u64
  initial_rtc :: u64
  initial_tsc :: u64

definition PIT_TICK_RATE :: u64 where
  "PIT_TICK_RATE = 1193182"

definition MAX_QUICK_PIT_ITERATIONS :: u64 where
  "MAX_QUICK_PIT_ITERATIONS = 50 * PIT_TICK_RATE div 1000 div 256"

definition RTC_PRECISION :: u64 where
  "RTC_PRECISION = 1000"

definition pit_verify_msb :: "u8 \<Rightarrow> (('d, 'p, 'z) console_scheme, bool) kern" where
  "pit_verify_msb val = kbind (inb 0x42) (\<lambda>_. kbind (inb 0x42) (\<lambda>v. kret (v = val)))"

text \<open>The loop of at most 50000 rounds; the result is the count, \<open>tsc\<close> and \<open>prev_tsc\<close> where it stopped.\<close>

primrec expect_msb_loop ::
  "nat \<Rightarrow> u8 \<Rightarrow> nat \<Rightarrow> u64 \<Rightarrow> u64 \<Rightarrow> (('d, 'p, 'z) console_scheme, nat \<times> u64 \<times> u64) kern" where
  "expect_msb_loop 0 val count tsc prev_tsc = kret (count, tsc, prev_tsc)"
| "expect_msb_loop (Suc k) val count tsc prev_tsc =
     kbind (pit_verify_msb val) (\<lambda>ok.
     if \<not> ok then kret (count, tsc, prev_tsc)
     else kbind get_tsc (\<lambda>t. expect_msb_loop k val (count + 1) t tsc))"

text \<open>The result is the return value and what \<open>*tscp\<close> and \<open>*deltap\<close> receive.\<close>

definition pit_expect_msb :: "u8 \<Rightarrow> (('d, 'p, 'z) console_scheme, bool \<times> u64 \<times> u64) kern" where
  "pit_expect_msb val =
     kbind (expect_msb_loop 50000 val 0 0 0) (\<lambda>(count, tsc, prev_tsc).
     kbind get_tsc (\<lambda>t.
     kret (5 < count, tsc, t - prev_tsc)))"

text \<open>
  Every path through the body of the loop over \<open>i\<close> leaves it, by \<open>break\<close> or by \<open>goto success\<close>, so the
  body runs once, with \<open>i = 1\<close>.
\<close>

definition quick_pit_calibrate :: "(('d, 'p, 'z) console_scheme, u64) kern" where
  "quick_pit_calibrate =
     kbind (inb 0x61) (\<lambda>v.
     kbind (outb 0x61 ((v AND NOT 0x02) OR 0x01)) (\<lambda>_.
     kbind (outb 0x43 0xb0) (\<lambda>_.
     kbind (outb 0x42 0xff) (\<lambda>_.
     kbind (outb 0x42 0xff) (\<lambda>_.
     kbind (pit_verify_msb 0) (\<lambda>_.
     kbind (pit_expect_msb 0xff) (\<lambda>(ok, tsc, d1).
     if \<not> ok then kpanic ''rtc: TSC calibration failed\<newline>'' else
     let i = 1 in
     if \<not> i \<le> MAX_QUICK_PIT_ITERATIONS then kpanic ''rtc: TSC calibration failed\<newline>'' else
     kbind (pit_expect_msb (0xff - ucast i)) (\<lambda>(ok, delta, d2).
     if \<not> ok then kpanic ''rtc: TSC calibration failed\<newline>'' else
     kbind (pit_verify_msb (0xfe - ucast i)) (\<lambda>ok.
     if \<not> ok then kpanic ''rtc: TSC calibration failed\<newline>'' else
     kret ((delta - tsc) * PIT_TICK_RATE div (i * 256 * 1000)))))))))))"

datatype rtc_registers =
    Seconds | Minutes | Hours | WeekDay | DayOfMonth | Month | Year | StatusRegisterA | StatusRegisterB

primrec rtc_register_number :: "rtc_registers \<Rightarrow> u8" where
  "rtc_register_number Seconds = 0x00"
| "rtc_register_number Minutes = 0x02"
| "rtc_register_number Hours = 0x04"
| "rtc_register_number WeekDay = 0x06"
| "rtc_register_number DayOfMonth = 0x07"
| "rtc_register_number Month = 0x08"
| "rtc_register_number Year = 0x09"
| "rtc_register_number StatusRegisterA = 0x0A"
| "rtc_register_number StatusRegisterB = 0x0B"

definition daysPerMonth :: "u64 list" where
  "daysPerMonth = [31, 28, 31, 30, 31, 30, 31, 31, 30, 31, 30, 31]"

definition read_rtc_register :: "rtc_registers \<Rightarrow> (('d, 'p, 'z) console_scheme, u8) kern" where
  "read_rtc_register r = kbind (outb 0x70 (rtc_register_number r)) (\<lambda>_. inb 0x71)"

definition is_rtc_updating :: "(('d, 'p, 'z) console_scheme, bool) kern" where
  "is_rtc_updating = kbind (read_rtc_register StatusRegisterA) (\<lambda>v. kret (v AND 0x80 \<noteq> 0))"

definition convert_bcd_to_binary :: "u8 \<Rightarrow> u64" where
  "convert_bcd_to_binary value = ucast (value div 16) * 10 + ucast (value AND 0x0f)"

record rtc_date =
  seconds :: u8
  minutes :: u8
  hours :: u8
  year :: u8
  dayofmonth :: u8
  month :: u8

definition read_rtc_date :: "(('d, 'p, 'z) console_scheme, rtc_date) kern" where
  "read_rtc_date =
     kbind (read_rtc_register Seconds) (\<lambda>s.
     kbind (read_rtc_register Minutes) (\<lambda>mi.
     kbind (read_rtc_register Hours) (\<lambda>h.
     kbind (read_rtc_register Year) (\<lambda>y.
     kbind (read_rtc_register DayOfMonth) (\<lambda>d.
     kbind (read_rtc_register Month) (\<lambda>mo.
     kret \<lparr>seconds = s, minutes = mi, hours = h, year = y, dayofmonth = d, month = mo\<rparr>))))))"

definition date_to_binary :: "rtc_date \<Rightarrow> rtc_date" where
  "date_to_binary r =
     (let c = (\<lambda>v. ucast (convert_bcd_to_binary v)) in
      \<lparr>seconds = c (seconds r), minutes = c (minutes r), hours = c (hours r), year = c (year r),
       dayofmonth = c (dayofmonth r), month = c (month r)\<rparr>)"

text \<open>
  The conversion of the registers to seconds since 1970. Reading \<open>daysPerMonth\<close> past its end is
  undefined.
\<close>

definition date_to_unix :: "bool \<Rightarrow> bool \<Rightarrow> rtc_date \<Rightarrow> u64 outcome" where
  "date_to_unix is_24hours is_binary r0 =
     (let r = (if is_binary then r0 else date_to_binary r0);
          yearsSinceEpoch = (2000 + ucast (year r)) - 1970 :: u64;
          leapYears = (let l = yearsSinceEpoch div 4 in if 1 < yearsSinceEpoch mod 4 then l + 1 else l);
          months = unat (month r) - 1
      in if 12 < months then Undef
         else let daysCurrentYear = sum_list (take months daysPerMonth) + ucast (dayofmonth r);
                  h = (if \<not> is_24hours \<and> hours r AND 0x80 \<noteq> 0 then ((hours r AND 0x7F) + 12) mod 24 else hours r);
                  daysSinceEpoch = yearsSinceEpoch * 365 - 1;
                  unixTimeOfDay = ucast h * 3600 + ucast (minutes r) * 60 + ucast (seconds r)
              in Ok (daysSinceEpoch * 86400 + leapYears * 86400 + daysCurrentYear * 86400 + unixTimeOfDay))"

text \<open>
  The loop reads the date again for as long as it reads the same date; its last date is the result.
\<close>

definition read_rtc_time :: "(('d, 'p, 'z) console_scheme, u64) kern" where
  "read_rtc_time =
     kbind (kpoll is_rtc_updating (\<lambda>u. \<not> u)) (\<lambda>_.
     kbind (read_rtc_register StatusRegisterB) (\<lambda>statusB.
     kbind read_rtc_date (\<lambda>first.
     kbind (kpoll (kbind (kpoll is_rtc_updating (\<lambda>u. \<not> u)) (\<lambda>_. read_rtc_date)) (\<lambda>r. r \<noteq> first)) (\<lambda>r.
     (\<lambda>s. case date_to_unix (statusB AND 0x02 \<noteq> 0) (statusB AND 0x04 \<noteq> 0) r of
            Ok t \<Rightarrow> Ok (t, s) | Panic e \<Rightarrow> Panic e | Hang \<Rightarrow> Hang | Undef \<Rightarrow> Undef)))))"

definition rtc_init :: "(('d, 'p, 'z) rtc_state_scheme, unit) kern" where
  "rtc_init =
     kbind quick_pit_calibrate (\<lambda>f.
     kbind (kmodify (\<lambda>s. s\<lparr>tsc_frequency := f\<rparr>)) (\<lambda>_.
     kbind read_rtc_time (\<lambda>t.
     kbind (kmodify (\<lambda>s. s\<lparr>initial_rtc := t\<rparr>)) (\<lambda>_.
     kbind get_tsc (\<lambda>c.
     kbind (kmodify (\<lambda>s. s\<lparr>initial_tsc := c\<rparr>)) (\<lambda>_.
     kbind (kprintf (chars ''TSC Frequency set to %lluKHz and initial RTC is %llu\<newline>'') [f, t]) (\<lambda>_.
     kmodify (\<lambda>s. s\<lparr>initial_rtc := initial_rtc s * RTC_PRECISION,
                       tsc_frequency := tsc_frequency s * 1000 div RTC_PRECISION\<rparr>))))))))"

definition rtc_now :: "(('d, 'p, 'z) rtc_state_scheme, u64) kern" where
  "rtc_now =
     kbind get_tsc (\<lambda>t s.
     if tsc_frequency s = 0 then Undef
     else Ok (initial_rtc s + (t - initial_tsc s) div tsc_frequency s, s))"

section \<open>The calendar\<close>

definition leap :: "nat \<Rightarrow> bool" where
  "leap y \<longleftrightarrow> 4 dvd y \<and> (\<not> 100 dvd y \<or> 400 dvd y)"

definition month_length :: "nat \<Rightarrow> nat \<Rightarrow> nat" where
  "month_length y m = (if m = 2 then (if leap y then 29 else 28) else if m \<in> {4, 6, 9, 11} then 30 else 31)"

text \<open>Days from the first of January 1970 to a date of the Gregorian calendar.\<close>

definition civil_days :: "nat \<Rightarrow> nat \<Rightarrow> nat \<Rightarrow> nat" where
  "civil_days y m d =
     (\<Sum>k\<leftarrow>[1970..<y]. if leap k then 366 else 365) + (\<Sum>k\<leftarrow>[1..<m]. month_length y k) + (d - 1)"

lemma leap_2000: "n < 100 \<Longrightarrow> leap (2000 + n) \<longleftrightarrow> 4 dvd n"
proof -
  assume n: "n < 100"
  have "4 dvd 2000 + n \<longleftrightarrow> 4 dvd n" by presburger
  moreover have "100 dvd 2000 + n \<longleftrightarrow> n = 0" using n by presburger
  ultimately show ?thesis by (auto simp: leap_def)
qed

lemma days_before_year:
  "n \<le> 100 \<Longrightarrow> (\<Sum>k\<leftarrow>[1970..<2000 + n]. if leap k then 366 else 365) = 365 * (30 + n) + (n + 31) div 4"
proof (induction n)
  case 0
  show ?case by (simp add: upt_rec leap_def)
next
  case (Suc n)
  have "(Suc n + 31) div 4 = (n + 31) div 4 + (if 4 dvd n then 1 else 0)" by presburger
  moreover have "[1970..<2000 + Suc n] = [1970..<2000 + n] @ [2000 + n]"
    using upt_Suc_append [of 1970 "2000 + n"] by (simp only: add_Suc_right)
  ultimately show ?case using Suc leap_2000 [of n] by (simp del: upt_Suc add_Suc_right)
qed

lemma days_before_month:
  assumes "1 \<le> m" and "m \<le> 12"
  shows "(\<Sum>k\<leftarrow>[1..<m]. month_length y k) =
    sum_list (take (m - 1) [31, 28, 31, 30, 31, 30, 31, 31, 30, 31, 30, 31]) + (if leap y \<and> 2 < m then 1 else 0)"
proof -
  have "m = 1 \<or> m = 2 \<or> m = 3 \<or> m = 4 \<or> m = 5 \<or> m = 6" if "m \<le> 6" using that assms(1) by linarith
  moreover have "m = 7 \<or> m = 8 \<or> m = 9 \<or> m = 10 \<or> m = 11 \<or> m = 12" if "\<not> m \<le> 6" using that assms(2) by linarith
  ultimately consider "m = 1" | "m = 2" | "m = 3" | "m = 4" | "m = 5" | "m = 6" | "m = 7" | "m = 8"
    | "m = 9" | "m = 10" | "m = 11" | "m = 12" by blast
  then show ?thesis by cases (hypsubst, simp add: upt_rec month_length_def)+
qed

section \<open>From the registers to the time of day\<close>

definition valid_date :: "rtc_date \<Rightarrow> bool" where
  "valid_date r \<longleftrightarrow> unat (year r) < 100 \<and> 1 \<le> unat (month r) \<and> unat (month r) \<le> 12 \<and>
     1 \<le> unat (dayofmonth r) \<and> unat (dayofmonth r) \<le> month_length (2000 + unat (year r)) (unat (month r)) \<and>
     unat (hours r) < 24 \<and> unat (minutes r) < 60 \<and> unat (seconds r) < 60"

text \<open>The time a date stands for, in seconds since 1970.\<close>

definition unix_time :: "rtc_date \<Rightarrow> nat" where
  "unix_time r =
     86400 * civil_days (2000 + unat (year r)) (unat (month r)) (unat (dayofmonth r)) +
     3600 * unat (hours r) + 60 * unat (minutes r) + unat (seconds r)"

text \<open>The registers as the clock holds them, in binary or in binary coded decimal.\<close>

definition bcd :: "u8 \<Rightarrow> u8" where
  "bcd v = (v div 10) * 16 + v mod 10"

definition encode_date :: "bool \<Rightarrow> rtc_date \<Rightarrow> rtc_date" where
  "encode_date is_binary r =
     (if is_binary then r
      else \<lparr>seconds = bcd (seconds r), minutes = bcd (minutes r), hours = bcd (hours r), year = bcd (year r),
            dayofmonth = bcd (dayofmonth r), month = bcd (month r)\<rparr>)"

lemma convert_bcd: "unat v < 100 \<Longrightarrow> ucast (convert_bcd_to_binary (bcd v)) = v"
proof -
  assume v: "unat v < 100"
  have d: "unat v div 10 \<le> 9" and m: "unat v mod 10 \<le> 9" using v by auto
  have b: "unat (bcd v) = unat v div 10 * 16 + unat v mod 10"
    using d m by (simp add: bcd_def unat_word_ariths unat_div unat_mod)
  have "unat (bcd v div 16) = unat v div 10" using b m by (simp add: unat_div)
  moreover have "unat (bcd v AND 0x0f) = unat v mod 10"
  proof -
    have "bcd v AND 0x0f = take_bit 4 (bcd v)" by (simp add: take_bit_eq_mask mask_eq_exp_minus_1)
    then show ?thesis using b m by (simp add: take_bit_eq_mod unat_mod)
  qed
  ultimately have "unat (convert_bcd_to_binary (bcd v)) = unat v"
    using d m by (simp add: convert_bcd_to_binary_def unat_word_ariths unsigned_ucast_eq take_bit_eq_mod)
  then show ?thesis using v by (simp add: word_unat_eq_iff unsigned_ucast_eq take_bit_eq_mod)
qed

lemma date_to_unix_bcd: "date_to_unix h24 False r = date_to_unix h24 True (date_to_binary r)"
  unfolding date_to_unix_def by (simp only: if_True if_False)

lemma encode_date_decode:
  assumes "valid_date r"
  shows "date_to_unix h24 is_binary (encode_date is_binary r) = date_to_unix h24 True r"
proof -
  have "month_length y m \<le> 31" for y m by (simp add: month_length_def)
  then have "unat (dayofmonth r) \<le> 31" using assms order_trans by (fastforce simp: valid_date_def)
  with assms have "date_to_binary (encode_date False r) = r"
    by (cases r) (simp add: date_to_binary_def encode_date_def convert_bcd valid_date_def)
  then show ?thesis
    by (cases is_binary) (simp_all add: date_to_unix_bcd, simp add: encode_date_def)
qed

lemma word_div_of_nat:
  "a < 18446744073709551616 \<Longrightarrow> b < 18446744073709551616 \<Longrightarrow> (of_nat a :: u64) div of_nat b = of_nat (a div b)"
  by (simp add: word_unat_eq_iff unat_div unat_of_nat le_less_trans [OF div_le_dividend])

lemma word_mod_of_nat:
  "a < 18446744073709551616 \<Longrightarrow> b < 18446744073709551616 \<Longrightarrow> (of_nat a :: u64) mod of_nat b = of_nat (a mod b)"
  by (simp add: word_unat_eq_iff unat_mod unat_of_nat le_less_trans [OF mod_less_eq_dividend])

lemma leap_years_word:
  assumes "Y < 100"
  shows "(let l = (of_nat (30 + Y) :: u64) div 4 in if 1 < (of_nat (30 + Y) :: u64) mod 4 then l + 1 else l) =
    of_nat ((Y + 32) div 4)"
proof -
  have dm: "(of_nat (30 + Y) :: u64) div 4 = of_nat ((30 + Y) div 4)"
    "(of_nat (30 + Y) :: u64) mod 4 = of_nat ((30 + Y) mod 4)"
    using assms word_div_of_nat [of "30 + Y" 4] word_mod_of_nat [of "30 + Y" 4] by (simp_all del: of_nat_add)
  have "(30 + Y) mod 4 < 18446744073709551616" by (rule less_trans [of _ 4]) simp_all
  then have gt: "1 < (of_nat ((30 + Y) mod 4) :: u64) \<longleftrightarrow> 1 < (30 + Y) mod 4"
    by (simp add: word_less_nat_alt unat_of_nat64 del: of_nat_add)
  have l: "(Y + 32) div 4 = (30 + Y) div 4 + (if 1 < (30 + Y) mod 4 then 1 else 0)" by presburger
  show ?thesis unfolding Let_def dm gt l by (simp only: of_nat_add of_nat_1 of_nat_0 add_0_right split: if_splits) simp
qed

lemma days_per_month_of_nat:
  "sum_list (take k daysPerMonth) = of_nat (sum_list (take k [31, 28, 31, 30, 31, 30, 31, 31, 30, 31, 30, 31]))"
proof -
  have d: "daysPerMonth = map of_nat [31, 28, 31, 30, 31, 30, 31, 31, 30, 31, 30, 31]" by (simp add: daysPerMonth_def)
  have s: "sum_list (map of_nat xs) = (of_nat (sum_list xs) :: u64)" for xs by (induction xs) simp_all
  show ?thesis unfolding d take_map s ..
qed

lemma unix_time_days:
  assumes "valid_date r"
  shows "unix_time r + (if leap (2000 + unat (year r)) \<and> unat (month r) \<le> 2 then 86400 else 0) =
    86400 * (365 * (30 + unat (year r)) + (unat (year r) + 32) div 4 +
      sum_list (take (unat (month r) - 1) [31, 28, 31, 30, 31, 30, 31, 31, 30, 31, 30, 31]) +
      (unat (dayofmonth r) - 1)) +
    (3600 * unat (hours r) + 60 * unat (minutes r) + unat (seconds r))"
proof -
  let ?Y = "unat (year r)"
  have v: "?Y < 100" "1 \<le> unat (month r)" "unat (month r) \<le> 12" using assms by (auto simp: valid_date_def)
  have "(?Y + 31) div 4 + (if 4 dvd ?Y then 1 else 0) = (?Y + 32) div 4" by presburger
  then have "(?Y + 31) div 4 + (if leap (2000 + ?Y) then 1 else 0) = (?Y + 32) div 4"
    by (simp only: leap_2000 [OF v(1)])
  then show ?thesis
    unfolding unix_time_def civil_days_def days_before_month [OF v(2,3)]
      days_before_year [OF less_imp_le [OF v(1)]]
    by (cases "leap (2000 + ?Y)"; cases "unat (month r) \<le> 2") (simp_all add: not_le)
qed

lemma date_to_unix_eq:
  assumes "valid_date r"
  shows "date_to_unix True True r = Ok (of_nat (unix_time r +
    (if leap (2000 + unat (year r)) \<and> unat (month r) \<le> 2 then 86400 else 0)))"
proof -
  have v: "unat (year r) < 100" "\<not> 12 < unat (month r) - 1" "1 \<le> unat (dayofmonth r)"
    using assms by (auto simp: valid_date_def)
  from v(3) obtain d where d: "unat (dayofmonth r) = Suc d" by (cases "unat (dayofmonth r)") auto
  have y: "(2000 + ucast (year r)) - 1970 = (of_nat (30 + unat (year r)) :: u64)" by simp
  have c: "ucast v = (of_nat (unat v) :: u64)" for v :: u8 by simp
  show ?thesis
    unfolding unix_time_days [OF assms] date_to_unix_def Let_def if_True y
    unfolding leap_years_word [OF v(1), unfolded Let_def] days_per_month_of_nat
    unfolding c d
    using v(2) by (simp add: algebra_simps)
qed


text \<open>The fifteenth of March 2024, 12:34:56, and the first of January 2024, midnight.\<close>

definition march_2024 :: rtc_date where
  "march_2024 = \<lparr>seconds = 56, minutes = 34, hours = 12, year = 24, dayofmonth = 15, month = 3\<rparr>"

definition january_2024 :: rtc_date where
  "january_2024 = \<lparr>seconds = 0, minutes = 0, hours = 0, year = 24, dayofmonth = 1, month = 1\<rparr>"

lemma unix_time_2024: "unix_time march_2024 = 1710506096" "unix_time january_2024 = 1704067200"
  using unix_time_days [of march_2024] unix_time_days [of january_2024] leap_2000 [of 24]
  by (simp_all add: valid_date_def march_2024_def january_2024_def month_length_def)


text \<open>
  In January and February of a leap year the clock runs a day ahead: the leap day is counted
  from the start of the year.
\<close>

theorem rtc_leap_year_day_ahead:
  assumes "valid_date r" and "leap (2000 + unat (year r))" and "unat (month r) \<le> 2"
  shows "date_to_unix True is_binary (encode_date is_binary r) = Ok (of_nat (unix_time r + 86400))"
  using assms by (simp add: encode_date_decode date_to_unix_eq)

theorem rtc_leap_year_day_ahead_witness:
  "date_to_unix True False (encode_date False january_2024) = Ok 1704153600"
  using rtc_leap_year_day_ahead [of january_2024 False] leap_2000 [of 24]
  by (simp add: unix_time_2024) (simp add: valid_date_def january_2024_def month_length_def)

section \<open>A clock that stands still\<close>

text \<open>Wherever port accesses may lead the hardware, its CMOS registers read as \<open>f\<close>.\<close>

definition cmos_fixed :: "(u8 \<Rightarrow> u8) \<Rightarrow> 'p ports \<Rightarrow> bool" where
  "cmos_fixed f P \<longleftrightarrow> (\<forall>e k. (dev_step P)\<^sup>*\<^sup>* (pdev P) e \<longrightarrow> fst (pin8 P 0x71 (pout8 P 0x70 k e)) = f k)"

lemma read_rtc_register_fixed:
  assumes "cmos_fixed f (ports s)"
  shows "\<exists>s'. read_rtc_register r s = Ok (f (rtc_register_number r), s') \<and> cmos_fixed f (ports s')"
proof -
  let ?P = "ports s" let ?k = "rtc_register_number r"
  define e where "e = pout8 ?P 0x70 ?k (pdev ?P)"
  obtain v d where vd: "pin8 ?P 0x71 e = (v, d)" by (cases "pin8 ?P 0x71 e")
  have "fst (pin8 ?P 0x71 e) = f ?k" using assms by (simp add: cmos_fixed_def e_def)
  then have "v = f ?k" using vd by simp
  moreover have "dev_step ?P (pdev ?P) e" "dev_step ?P e d"
    using vd by (auto simp: dev_step_def e_def intro: exI [of _ "0x71"] dest: sym)
  then have "(dev_step ?P)\<^sup>*\<^sup>* (pdev ?P) d" by simp
  then have "cmos_fixed f (?P\<lparr>plog := plog ?P @ [(0x70, ?k)], pdev := d\<rparr>)"
    using assms rtranclp_trans unfolding cmos_fixed_def by (fastforce simp: dev_step_def)
  ultimately show ?thesis
    using vd by (simp add: read_rtc_register_def outb_def inb_def e_def)
qed

lemma is_rtc_updating_fixed:
  assumes "cmos_fixed f (ports s)" and "f 0x0A AND 0x80 = 0"
  shows "\<exists>s'. kpoll is_rtc_updating (\<lambda>u. \<not> u) s = Ok (False, s') \<and> cmos_fixed f (ports s')"
proof -
  obtain s' where s': "read_rtc_register StatusRegisterA s = Ok (f 0x0A, s')" "cmos_fixed f (ports s')"
    using read_rtc_register_fixed [OF assms(1), of StatusRegisterA] by auto
  then have "is_rtc_updating s = Ok (False, s')" using assms(2) by (simp add: is_rtc_updating_def)
  then have "kpoll is_rtc_updating (\<lambda>u. \<not> u) s = Ok (False, s')" by (rule kpoll_stop) simp
  with s'(2) show ?thesis by blast
qed

definition fixed_date :: "(u8 \<Rightarrow> u8) \<Rightarrow> rtc_date" where
  "fixed_date f = \<lparr>seconds = f 0, minutes = f 2, hours = f 4, year = f 9, dayofmonth = f 7, month = f 8\<rparr>"

lemma read_rtc_date_fixed:
  assumes "cmos_fixed f (ports s)"
  shows "\<exists>s'. read_rtc_date s = Ok (fixed_date f, s') \<and> cmos_fixed f (ports s')"
proof -
  obtain s1 where s1: "read_rtc_register Seconds s = Ok (f 0, s1)" "cmos_fixed f (ports s1)"
    using read_rtc_register_fixed [OF assms, of Seconds] by auto
  obtain s2 where s2: "read_rtc_register Minutes s1 = Ok (f 2, s2)" "cmos_fixed f (ports s2)"
    using read_rtc_register_fixed [OF s1(2), of Minutes] by auto
  obtain s3 where s3: "read_rtc_register Hours s2 = Ok (f 4, s3)" "cmos_fixed f (ports s3)"
    using read_rtc_register_fixed [OF s2(2), of Hours] by auto
  obtain s4 where s4: "read_rtc_register Year s3 = Ok (f 9, s4)" "cmos_fixed f (ports s4)"
    using read_rtc_register_fixed [OF s3(2), of Year] by auto
  obtain s5 where s5: "read_rtc_register DayOfMonth s4 = Ok (f 7, s5)" "cmos_fixed f (ports s5)"
    using read_rtc_register_fixed [OF s4(2), of DayOfMonth] by auto
  obtain s6 where s6: "read_rtc_register Month s5 = Ok (f 8, s6)" "cmos_fixed f (ports s6)"
    using read_rtc_register_fixed [OF s5(2), of Month] by auto
  show ?thesis using s1(1) s2(1) s3(1) s4(1) s5(1) s6 by (simp add: read_rtc_date_def fixed_date_def)
qed

text \<open>
  C15. Reading the clock waits for the clock to change. The loop that is meant to repeat until two
  readings agree repeats for as long as they agree: with a clock that stands still, and is not in the
  middle of an update, \<open>read_rtc_time\<close> never returns.
\<close>

theorem rtc_waits_for_change:
  fixes s :: "('d, 'p, 'z) console_scheme"
  assumes "cmos_fixed f (ports s)" and "f 0x0A AND 0x80 = 0"
  shows "read_rtc_time s = Hang"
proof -
  let ?m = "kbind (kpoll is_rtc_updating (\<lambda>u. \<not> u)) (\<lambda>_. read_rtc_date)"
  have hang: "kpoll ?m (\<lambda>r. r \<noteq> fixed_date f) s' = Hang" if "cmos_fixed f (ports s')" for s' :: "('d, 'p, 'z) console_scheme"
  proof (rule kpoll_forever [where I = "\<lambda>s. cmos_fixed f (ports s)", OF that])
    fix t :: "('d, 'p, 'z) console_scheme" assume t: "cmos_fixed f (ports t)"
    from is_rtc_updating_fixed [OF t assms(2)] obtain t1 where
      t1: "kpoll is_rtc_updating (\<lambda>u. \<not> u) t = Ok (False, t1)" "cmos_fixed f (ports t1)" by blast
    from read_rtc_date_fixed [OF t1(2)] obtain t2 where
      t2: "read_rtc_date t1 = Ok (fixed_date f, t2)" "cmos_fixed f (ports t2)" by blast
    have "?m t = Ok (fixed_date f, t2)" using t1(1) t2(1) by (simp only: kbind_Ok)
    with t2(2) show "\<exists>x s1. ?m t = Ok (x, s1) \<and> \<not> x \<noteq> fixed_date f \<and> cmos_fixed f (ports s1)" by auto
  qed
  obtain s1 where s1: "kpoll is_rtc_updating (\<lambda>u. \<not> u) s = Ok (False, s1)" "cmos_fixed f (ports s1)"
    using is_rtc_updating_fixed [OF assms] by blast
  obtain s2 where s2: "read_rtc_register StatusRegisterB s1 = Ok (f 0x0B, s2)" "cmos_fixed f (ports s2)"
    using read_rtc_register_fixed [OF s1(2), of StatusRegisterB] by auto
  obtain s3 where s3: "read_rtc_date s2 = Ok (fixed_date f, s3)" "cmos_fixed f (ports s3)"
    using read_rtc_date_fixed [OF s2(2)] by blast
  show ?thesis using s1(1) s2(1) s3(1) hang [OF s3(2)]
    by (simp only: read_rtc_time_def kbind_Ok kbind_Hang)
qed

theorem rtc_waits_for_change_witness: "read_rtc_time boot_console = Hang"
  by (rule rtc_waits_for_change [of "\<lambda>_. 0x60"]) (simp_all add: cmos_fixed_def idle_ports_def)


text \<open>A machine whose counter advances by 1000 with every reading.\<close>

definition counting_ports :: "u64 ports" where
  "counting_ports = \<lparr>pdev = 5000, pin8 = (\<lambda>_ d. (0x60, d)), pout8 = (\<lambda>_ _ d. d), pin32 = (\<lambda>_ d. (0, d)),
     pout32 = (\<lambda>_ _ d. d), ptsc = (\<lambda>d. (d, d + 1000)), plog = []\<rparr>"

definition counting_rtc :: "(unit, u64) rtc_state" where
  "counting_rtc = console.extend (kernel.extend boot_kernel (console.fields counting_ports unlocked_lock))
     (rtc_state.fields 2 100 4000)"

lemma counting_rtc_simps [simp]:
  "ports counting_rtc = counting_ports" "tsc_frequency counting_rtc = 2" "initial_rtc counting_rtc = 100"
  "initial_tsc counting_rtc = 4000"
  by (simp_all add: counting_rtc_def kernel.defs console.defs rtc_state.defs)


end
