(* ===== verification/Fb.thy ===== *)
theory Fb
  imports Rtc
begin

text \<open>
  The framebuffer device, \<^verbatim>\<open>src/kernel/device/fb.c\<close>: the screen the boot loader hands
  over, the size a program draws with, and the write and control operations of the device. The
  results are C \<open>int\<close>s.
\<close>

section \<open>State and operations\<close>

record limine_framebuffer =
  address :: u64
  width :: u64
  height :: u64
  pitch :: u64
  bpp :: u16

text \<open>A framebuffer pointer that is not \<open>NULL\<close> is the structure it points to, which nobody changes.\<close>

record ('d, 'p) fb_state = "('d, 'p) rtc_state" +
  main_framebuffer :: "limine_framebuffer option"
  current_width :: u64
  current_height :: u64

definition fb_init :: "limine_framebuffer \<Rightarrow> (('d, 'p, 'z) fb_state_scheme, unit) kern" where
  "fb_init fb =
     kbind (kmodify (\<lambda>s. s\<lparr>main_framebuffer := Some fb, current_width := width fb, current_height := height fb\<rparr>)) (\<lambda>_.
     kbind (kprintf (chars ''Initialized framebuffer with %llux%llu dimensions and %u bpp\<newline>'')
              [width fb, height fb, ucast (bpp fb)]) (\<lambda>_.
     kassert (bpp fb = 32) ''fb_init: expected the framebuffer to be 32 bits per pixel''))"

text \<open>
  The rows copied in full; the result is the memory, the row, the number of pixels displayed, the
  pointer to the rest of the buffer and the number of pixels left in it.
\<close>

function fb_rows ::
  "limine_framebuffer \<Rightarrow> u64 \<Rightarrow> u64 \<Rightarrow> mem \<Rightarrow> u64 \<Rightarrow> u64 \<Rightarrow> u64 \<Rightarrow> u64 \<Rightarrow> mem \<times> u64 \<times> u64 \<times> u64 \<times> u64" where
  "fb_rows fb w h m row displayed given_buffer sz =
     (if w < sz \<and> row < h
      then fb_rows fb w h (memcpy (address fb + 4 * (row * (pitch fb div 4))) given_buffer (w * 4) m)
             (row + 1) (displayed + w) (given_buffer + 4 * w) (sz - w)
      else (m, row, displayed, given_buffer, sz))"
  by pat_completeness auto
termination fb_rows
proof (relation "measure (\<lambda>(_, _, h, _, row, _, _, _). unat h - unat row)")
  fix fb :: limine_framebuffer and w h :: u64 and m :: mem and row displayed given_buffer sz :: u64
  assume "w < sz \<and> row < h"
  then have lt: "unat row < unat h" by (simp add: word_less_nat_alt)
  have "unat row + 1 < 18446744073709551616" using lt unat_lt64 [of h] by linarith
  then have "unat (row + 1) = unat row + 1" using unat_add64 [of row 1] by simp
  with lt show "((fb, w, h, memcpy (address fb + 4 * (row * (pitch fb div 4))) given_buffer (w * 4) m, row + 1,
      displayed + w, given_buffer + 4 * w, sz - w), fb, w, h, m, row, displayed, given_buffer, sz)
    \<in> measure (\<lambda>(_, _, h, _, row, _, _, _). unat h - unat row)" by simp
qed simp

declare fb_rows.simps [simp del]

definition fb_write :: "u64 \<Rightarrow> u64 \<Rightarrow> (('d, 'p, 'z) fb_state_scheme, u32) kern" where
  "fb_write buffer sz s =
     (case main_framebuffer s of
        None \<Rightarrow> Ok (-1, s)
      | Some fb \<Rightarrow>
          (case fb_rows fb (current_width s) (current_height s) (mem s) 0 0 buffer sz of
             (m, row, displayed, given_buffer, rest) \<Rightarrow>
               if row < current_height s \<and> rest \<noteq> 0
               then Ok (ucast (displayed + rest),
                        s\<lparr>mem := memcpy (address fb + 4 * (row * (pitch fb div 4))) given_buffer (rest * 4) m\<rparr>)
               else Ok (ucast displayed, s\<lparr>mem := m\<rparr>)))"

definition fb_control :: "u32 \<Rightarrow> u64 \<Rightarrow> (('d, 'p, 'z) fb_state_scheme, u32) kern" where
  "fb_control command data s =
     (case main_framebuffer s of
        None \<Rightarrow> Ok (-1, s)
      | Some fb \<Rightarrow>
          if command = 0 then Ok (0, s\<lparr>mem := store64 (mem s) data (current_width s)\<rparr>)
          else if command = 1 then Ok (0, s\<lparr>mem := store64 (mem s) data (width fb)\<rparr>)
          else if command = 2 then (if data \<le> width fb then Ok (0, s\<lparr>current_width := data\<rparr>) else Ok (-3, s))
          else if command = 3 then Ok (0, s\<lparr>mem := store64 (mem s) data (current_height s)\<rparr>)
          else if command = 4 then Ok (0, s\<lparr>mem := store64 (mem s) data (height fb)\<rparr>)
          else if command = 5 then (if data \<le> height fb then Ok (0, s\<lparr>current_height := data\<rparr>) else Ok (-3, s))
          else if command = 6
          then Ok (0, s\<lparr>mem := memset (address fb) 0 (width fb * height fb * ucast (bpp fb) div 4) (mem s)\<rparr>)
          else Ok (-2, s))"

section \<open>What a write shows\<close>

text \<open>
  A screen of \<open>height\<close> rows of \<open>pitch\<close> bytes, at most half the address space, whose pixels fit
  their row; the size a program draws with fits the screen.
\<close>

definition screen_bytes :: "limine_framebuffer \<Rightarrow> nat" where
  "screen_bytes fb = unat (pitch fb) * unat (height fb)"

definition fb_geometry :: "limine_framebuffer \<Rightarrow> bool" where
  "fb_geometry fb \<longleftrightarrow> 4 dvd unat (pitch fb) \<and> 0 < unat (pitch fb) \<and> 4 * unat (width fb) \<le> unat (pitch fb) \<and>
     screen_bytes fb \<le> 2 ^ 63"

definition fb_ok :: "('d, 'p, 'z) fb_state_scheme \<Rightarrow> bool" where
  "fb_ok s \<longleftrightarrow> (\<forall>fb. main_framebuffer s = Some fb \<longrightarrow>
     fb_geometry fb \<and> current_width s \<le> width fb \<and> current_height s \<le> height fb)"

text \<open>
  The memory in which the first \<open>n\<close> pixels of a buffer are shown, in rows of \<open>W\<close> pixels: the byte \<open>o\<close>
  of the row \<open>y\<close> is the byte \<open>4 * W * y + o\<close> of the buffer.
\<close>

definition drawn :: "limine_framebuffer \<Rightarrow> nat \<Rightarrow> u64 \<Rightarrow> nat \<Rightarrow> mem \<Rightarrow> mem" where
  "drawn fb W buffer n m x =
     (let k = unat (x - address fb); y = k div unat (pitch fb); o' = k mod unat (pitch fb)
      in if k < screen_bytes fb \<and> o' < 4 * W \<and> 4 * W * y + o' < 4 * n
         then m (buffer + of_nat (4 * W * y + o')) else m x)"

lemma in_region_shift:
  assumes "n + j \<le> 18446744073709551616"
  shows "in_region (a + of_nat n) j x \<longleftrightarrow> n \<le> unat (x - a) \<and> unat (x - a) < n + j"
proof (cases "n = 18446744073709551616")
  case True
  then have "\<not> n \<le> unat (x - a)" "j = 0" using assms unat_lt64 [of "x - a"] by linarith+
  then show ?thesis by (simp add: in_region_def)
next
  case False
  then have n: "unat (of_nat n :: u64) = n" using assms by (intro unat_of_nat64) simp
  have e: "x - (a + of_nat n) = (x - a) - of_nat n" by (simp add: algebra_simps)
  have k: "unat (x - a) < 18446744073709551616" by simp
  show ?thesis
    unfolding in_region_def e unat_diff_cases n using assms k by (auto simp: not_le)
qed

text \<open>A buffer of \<open>N\<close> pixels does not overlap the screen.\<close>

definition apart :: "limine_framebuffer \<Rightarrow> u64 \<Rightarrow> nat \<Rightarrow> bool" where
  "apart fb buffer N \<longleftrightarrow> (\<forall>j<4 * N. \<not> in_region (address fb) (screen_bytes fb) (buffer + of_nat j))"

lemma apartD: "apart fb buffer N \<Longrightarrow> j < 4 * N \<Longrightarrow> \<not> in_region (address fb) (screen_bytes fb) (buffer + of_nat j)"
  by (simp add: apart_def)

text \<open>One row, or a part of one, is copied.\<close>

lemma row_offset:
  assumes "fb_geometry fb"
  shows "4 * (row * (pitch fb div 4)) = (of_nat (unat row * unat (pitch fb)) :: u64)"
proof -
  obtain q where q: "unat (pitch fb) = 4 * q" using assms by (auto simp: fb_geometry_def)
  moreover have "q < 18446744073709551616" using q unat_lt64 [of "pitch fb"] by linarith
  ultimately have "pitch fb div 4 = of_nat q" by (simp add: word_unat_eq_iff unat_div unat_of_nat64)
  with q show ?thesis by (simp add: algebra_simps)
qed

lemma draw_row:
  assumes "fb_geometry fb" and "r < unat (height fb)" and "c \<le> W" and "4 * W \<le> unat (pitch fb)"
    and "r * W + c \<le> N" and "apart fb buffer N"
  shows "memcpy (address fb + of_nat (r * unat (pitch fb))) (buffer + of_nat (4 * (r * W))) (of_nat (4 * c))
      (drawn fb W buffer (r * W) m) = drawn fb W buffer (r * W + c) m"
    (is "memcpy ?dest ?src ?n ?m = _")
proof
  fix x
  let ?P = "unat (pitch fb)" let ?k = "unat (x - address fb)"
  have P: "0 < ?P" "screen_bytes fb \<le> 9223372036854775808" using assms(1) by (simp_all add: fb_geometry_def)
  have row: "r * ?P + ?P \<le> screen_bytes fb"
    using mult_le_mono1 [of "Suc r" "unat (height fb)" ?P] assms(2) by (simp add: screen_bytes_def mult.commute)
  have c: "4 * c \<le> ?P" using assms(3,4) by linarith
  have n: "unat ?n = 4 * c" using c row P(2) by (intro unat_of_nat64) linarith
  have reg: "in_region ?dest (4 * c) x \<longleftrightarrow> r * ?P \<le> ?k \<and> ?k < r * ?P + 4 * c"
    using c row P(2) by (intro in_region_shift) linarith
  have sep: "unat ?n \<le> unat (?dest - ?src)"
  proof (rule ccontr)
    assume "\<not> ?thesis"
    then have lt: "unat (?dest - ?src) < 4 * c" using n by simp
    define j where "j = 4 * (r * W) + unat (?dest - ?src)"
    have "?dest = buffer + of_nat j" by (simp add: j_def)
    moreover have "j < 4 * N" using lt assms(5) by (simp add: j_def)
    moreover have "in_region (address fb) (screen_bytes fb) ?dest"
    proof -
      have "unat (of_nat (r * ?P) :: u64) = r * ?P" using row P by (intro unat_of_nat64) linarith
      then show ?thesis using row P unfolding in_region_def add_diff_cancel_left' by linarith
    qed
    ultimately show False using apartD [OF assms(6), of j] by metis
  qed
  have src: "?m (?src + (x - ?dest)) = m (buffer + of_nat (4 * (r * W) + (?k - r * ?P)))" if "r * ?P \<le> ?k" "?k < r * ?P + 4 * c"
  proof -
    have "x - ?dest = of_nat (?k - r * ?P)" using that(1) by (simp add: of_nat_diff algebra_simps)
    then have e: "?src + (x - ?dest) = buffer + of_nat (4 * (r * W) + (?k - r * ?P))" by simp
    have "4 * (r * W) + (?k - r * ?P) < 4 * N" using that assms(5) by linarith
    from apartD [OF assms(6) this] show ?thesis unfolding e by (simp add: drawn_def Let_def in_region_def)
  qed
  show "memcpy ?dest ?src ?n ?m x = drawn fb W buffer (r * W + c) m x"
  proof (cases "r * ?P \<le> ?k \<and> ?k < r * ?P + 4 * c")
    case True
    define d where "d = ?k - r * ?P"
    have k: "?k = d + r * ?P" "d < 4 * c" "d < ?P" using True c by (auto simp: d_def)
    then have "?k div ?P = r" "?k mod ?P = d" by simp_all
    moreover have "?k < screen_bytes fb" using k row by linarith
    moreover have "4 * W * r + d < 4 * (r * W + c)" "d < 4 * W" using k(2) assms(3) by (simp_all add: algebra_simps)
    ultimately have "drawn fb W buffer (r * W + c) m x = m (buffer + of_nat (4 * W * r + d))"
      by (simp add: drawn_def Let_def)
    with True src reg memcpy_apply [OF disjI2 [OF sep], of ?m x] n show ?thesis
      by (simp add: d_def algebra_simps)
  next
    case False
    have "4 * W * y + d < 4 * (r * W) \<longleftrightarrow> 4 * W * y + d < 4 * (r * W + c)"
      if "y = ?k div ?P" "d = ?k mod ?P" "d < 4 * W" for y d
    proof (cases y r rule: linorder_cases)
      case less
      then have "4 * (W * Suc y) \<le> 4 * (W * r)" by (intro mult_le_mono order_refl) simp
      with that(3) show ?thesis by (simp add: algebra_simps)
    next
      case equal
      have "?k = r * ?P + d" using that(1,2) equal by simp
      with False show ?thesis using equal by (auto simp: algebra_simps)
    next
      case greater
      then have "4 * (W * Suc r) \<le> 4 * (W * y)" by (intro mult_le_mono order_refl) simp
      with assms(3) show ?thesis by (simp add: algebra_simps)
    qed
    then have "drawn fb W buffer (r * W) m x = drawn fb W buffer (r * W + c) m x"
      by (simp add: drawn_def Let_def cong: conj_cong)
    moreover have "memcpy ?dest ?src ?n ?m x = ?m x"
      unfolding memcpy_apply [OF disjI2 [OF sep]] n reg using False by (rule if_not_P)
    ultimately show ?thesis by simp
  qed
qed

text \<open>The state of the loop after \<open>r\<close> rows of a buffer of \<open>N\<close> pixels.\<close>

definition rows_done :: "limine_framebuffer \<Rightarrow> nat \<Rightarrow> u64 \<Rightarrow> nat \<Rightarrow> mem \<Rightarrow> nat \<Rightarrow> mem \<times> u64 \<times> u64 \<times> u64 \<times> u64" where
  "rows_done fb W buffer N m r =
     (drawn fb W buffer (r * W) m, of_nat r, of_nat (r * W), buffer + of_nat (4 * (r * W)), of_nat (N - r * W))"

definition fb_rows_from ::
  "limine_framebuffer \<Rightarrow> u64 \<Rightarrow> u64 \<Rightarrow> mem \<times> u64 \<times> u64 \<times> u64 \<times> u64 \<Rightarrow> mem \<times> u64 \<times> u64 \<times> u64 \<times> u64" where
  "fb_rows_from fb w h = (\<lambda>(m, row, displayed, given_buffer, sz). fb_rows fb w h m row displayed given_buffer sz)"

lemma fb_rows_step:
  assumes "fb_geometry fb" and "h \<le> height fb" and "4 * unat w \<le> unat (pitch fb)"
    and "apart fb buffer N"
    and "N < 2 ^ 62" and "r < unat h" and "unat w < N - r * unat w"
  shows "fb_rows_from fb w h (rows_done fb (unat w) buffer N m r) = fb_rows_from fb w h (rows_done fb (unat w) buffer N m (Suc r))"
proof -
  let ?W = "unat w"
  have r: "unat (of_nat r :: u64) = r" using assms(6) unat_lt64 [of h] by (intro unat_of_nat64) linarith
  have sz: "unat (of_nat (N - r * ?W) :: u64) = N - r * ?W" using assms(5) by (intro unat_of_nat64) simp
  have c: "w < of_nat (N - r * ?W) \<and> of_nat r < h" using r sz assms(6,7) by (simp add: word_less_nat_alt)
  have W: "w * 4 = of_nat (4 * ?W)" by simp
  have rh: "r < unat (height fb)" using assms(2,6) by (simp add: word_le_nat_alt)
  have le: "r * ?W + ?W \<le> N" using assms(7) by linarith
  have step: "memcpy (address fb + 4 * (of_nat r * (pitch fb div 4))) (buffer + of_nat (4 * (r * ?W))) (w * 4)
      (drawn fb ?W buffer (r * ?W) m) = drawn fb ?W buffer (Suc r * ?W) m"
    unfolding row_offset [OF assms(1)] r W draw_row [OF assms(1) rh order_refl assms(3) le assms(4)]
    by (simp add: add.commute)
  have n: "(of_nat (N - r * ?W) :: u64) - w = of_nat (N - Suc r * ?W)"
  proof -
    have e: "N - r * ?W = (N - Suc r * ?W) + ?W" using le by simp
    show ?thesis by (simp only: e of_nat_add) simp
  qed
  have b: "buffer + of_nat (4 * (r * ?W)) + 4 * w = buffer + of_nat (4 * (Suc r * ?W))" by (simp add: algebra_simps)
  have d: "of_nat (r * ?W) + w = of_nat (Suc r * ?W)" by (simp add: algebra_simps)
  have s: "of_nat r + 1 = (of_nat (Suc r) :: u64)" by simp
  show ?thesis
    unfolding fb_rows_from_def rows_done_def prod.case
    by (subst fb_rows.simps) (simp only: c if_True step n b d s simp_thms)
qed

lemma fb_rows_draws:
  assumes "fb_geometry fb" and "h \<le> height fb" and "4 * unat w \<le> unat (pitch fb)"
    and "apart fb buffer N"
    and "N < 2 ^ 62" and "r \<le> unat h" and "r * unat w \<le> N"
  shows "\<exists>R. fb_rows_from fb w h (rows_done fb (unat w) buffer N m r) = rows_done fb (unat w) buffer N m R \<and>
    R \<le> unat h \<and> R * unat w \<le> N \<and> (R < unat h \<longrightarrow> N - R * unat w \<le> unat w)"
  using assms(6,7)
proof (induction "unat h - r" arbitrary: r)
  case 0
  then have "r = unat h" by simp
  then have "fb_rows_from fb w h (rows_done fb (unat w) buffer N m r) = rows_done fb (unat w) buffer N m r"
    unfolding fb_rows_from_def rows_done_def prod.case by (subst fb_rows.simps) simp
  with 0 show ?case by (intro exI [of _ r]) simp
next
  case (Suc d)
  have lt: "r < unat h" using Suc.hyps(2) by simp
  show ?case
  proof (cases "unat w < N - r * unat w")
    case True
    have le: "d = unat h - Suc r" "Suc r \<le> unat h" "Suc r * unat w \<le> N" using True lt Suc.hyps(2) by simp_all
    show ?thesis
      using Suc.hyps(1) [OF le] unfolding fb_rows_step [OF assms(1-5) lt True] .
  next
    case False
    have "unat (of_nat (N - r * unat w) :: u64) = N - r * unat w" using assms(5) by (intro unat_of_nat64) simp
    then have "\<not> w < of_nat (N - r * unat w)" using False by (simp add: word_less_nat_alt)
    then have "fb_rows_from fb w h (rows_done fb (unat w) buffer N m r) = rows_done fb (unat w) buffer N m r"
      unfolding fb_rows_from_def rows_done_def prod.case by (subst fb_rows.simps) simp
    with Suc.prems False show ?thesis by (intro exI [of _ r]) simp
  qed
qed

text \<open>
  C17. A write to the framebuffer shows its buffer. For a screen and a drawing size as \<open>fb_init\<close> and
  \<open>fb_control\<close> leave them and a buffer of \<open>sz\<close> pixels outside the screen, \<open>fb_write\<close> shows the pixels
  row by row in the drawing size, as many as it has room for, returns their number, and changes no
  byte besides those of the shown pixels, in particular none outside the screen.
\<close>

theorem fb_write_correct:
  assumes "fb_ok s" and "main_framebuffer s = Some fb" and "apart fb buffer (unat sz)" and "unat sz < 2 ^ 62"
    and "n = min (unat sz) (unat (current_width s) * unat (current_height s))"
  shows "fb_write buffer sz s =
    Ok (ucast (of_nat n :: u64), s\<lparr>mem := drawn fb (unat (current_width s)) buffer n (mem s)\<rparr>)"
proof -
  let ?w = "current_width s" let ?h = "current_height s" let ?W = "unat ?w" let ?H = "unat ?h" let ?N = "unat sz"
  have fb: "fb_geometry fb" "?w \<le> width fb" "?h \<le> height fb" using assms(1,2) by (simp_all add: fb_ok_def)
  then have W: "4 * ?W \<le> unat (pitch fb)" by (auto simp: fb_geometry_def word_le_nat_alt)
  have start: "rows_done fb ?W buffer ?N (mem s) 0 = (mem s, 0, 0, buffer, sz)"
    by (simp add: rows_done_def drawn_def fun_eq_iff)
  obtain R where R: "fb_rows fb ?w ?h (mem s) 0 0 buffer sz = rows_done fb ?W buffer ?N (mem s) R"
    "R \<le> ?H" "R * ?W \<le> ?N" "R < ?H \<longrightarrow> ?N - R * ?W \<le> ?W"
    using fb_rows_draws [OF fb(1,3) W assms(3,4), of 0 "mem s"] unfolding start by (auto simp: fb_rows_from_def)
  have r: "unat (of_nat R :: u64) = R" using R(2) unat_lt64 [of ?h] by (intro unat_of_nat64) linarith
  have rest: "unat (of_nat (?N - R * ?W) :: u64) = ?N - R * ?W" using assms(4) by (intro unat_of_nat64) simp
  show ?thesis
  proof (cases "R < ?H \<and> ?N - R * ?W \<noteq> 0")
    case True
    then have c: "of_nat R < ?h \<and> (of_nat (?N - R * ?W) :: u64) \<noteq> 0"
      using r rest by (auto simp: word_less_nat_alt)
    have "Suc R * ?W \<le> ?H * ?W" using True by (intro mult_le_mono1) simp
    then have n: "n = R * ?W + (?N - R * ?W)" using True R(3,4) assms(5) by (simp add: mult.commute)
    have rh: "R < unat (height fb)" using True fb(3) by (simp add: word_le_nat_alt)
    have le: "R * ?W + (?N - R * ?W) \<le> ?N" using R(3) by simp
    have four: "(of_nat (?N - R * ?W) :: u64) * 4 = of_nat (4 * (?N - R * ?W))" by simp
    have "memcpy (address fb + 4 * (of_nat R * (pitch fb div 4))) (buffer + of_nat (4 * (R * ?W)))
        (of_nat (?N - R * ?W) * 4) (drawn fb ?W buffer (R * ?W) (mem s)) = drawn fb ?W buffer n (mem s)"
      using draw_row [OF fb(1) rh _ W le assms(3), of "mem s"] True R(4)
      unfolding row_offset [OF fb(1)] r four n by blast
    moreover have "of_nat (R * ?W) + of_nat (?N - R * ?W) = (of_nat n :: u64)" unfolding n of_nat_add ..
    ultimately show ?thesis
      by (simp only: fb_write_def assms(2) option.case R(1) rows_done_def prod.case c if_True simp_thms)
  next
    case False
    then have c: "\<not> (of_nat R < ?h \<and> (of_nat (?N - R * ?W) :: u64) \<noteq> 0)"
      using r rest by (auto simp: word_less_nat_alt)
    have n: "n = R * ?W"
    proof (cases "R < ?H")
      case True
      then have "Suc R * ?W \<le> ?H * ?W" by (intro mult_le_mono1) simp
      with True False R(3) assms(5) show ?thesis by (simp add: mult.commute)
    qed (use R assms(5) in \<open>simp add: mult.commute\<close>)
    show ?thesis
      by (simp only: fb_write_def assms(2) option.case R(1) rows_done_def prod.case c if_False n simp_thms)
  qed
qed

text \<open>A screen of two by two pixels.\<close>

definition small_screen :: limine_framebuffer where
  "small_screen = \<lparr>address = 0xffff900000000000, width = 2, height = 2, pitch = 8, bpp = 32\<rparr>"

definition screen_machine :: "(unit, u64) fb_state" where
  "screen_machine = rtc_state.extend counting_rtc (fb_state.fields (Some small_screen) 2 2)"

lemma screen_machine_simps [simp]:
  "main_framebuffer screen_machine = Some small_screen" "current_width screen_machine = 2"
  "current_height screen_machine = 2"
  by (simp_all add: screen_machine_def rtc_state.defs fb_state.defs)

lemma fb_ok_screen_machine: "fb_ok screen_machine"
  by (simp add: fb_ok_def fb_geometry_def small_screen_def screen_bytes_def)

lemma apart_small_screen: "apart small_screen 0x1000 3"
  unfolding apart_def
proof (intro allI impI)
  fix j :: nat assume "j < 4 * 3"
  then have u: "unat (0x1000 + of_nat j :: u64) = 0x1000 + j"
    using unat_add64 [of "0x1000" "of_nat j"] by (simp add: unat_of_nat64)
  have "16 \<le> unat ((0x1000 + of_nat j) - 0xffff900000000000 :: u64)"
    unfolding unat_diff_cases u using \<open>j < 4 * 3\<close> by simp
  then show "\<not> in_region (address small_screen) (screen_bytes small_screen) (0x1000 + of_nat j)"
    by (simp only: in_region_def small_screen_def screen_bytes_def limine_framebuffer.simps) simp
qed

theorem fb_write_correct_witness:
  "fb_write 0x1000 3 screen_machine =
    Ok (3, screen_machine\<lparr>mem := drawn small_screen 2 0x1000 3 (mem screen_machine)\<rparr>)"
proof -
  have "fb_write 0x1000 3 screen_machine = Ok (ucast (of_nat 3 :: u64),
      screen_machine\<lparr>mem := drawn small_screen (unat (current_width screen_machine)) 0x1000 3 (mem screen_machine)\<rparr>)"
    by (rule fb_write_correct) (simp_all add: fb_ok_screen_machine apart_small_screen)
  then show ?thesis by simp
qed

text \<open>
  C18. Clearing the screen clears twice as much. For a screen without padding, the control command
  that clears it zeroes every byte of it and, as many again, the bytes that follow it in memory: the
  size is computed from the bits per pixel divided by 4.
\<close>

theorem fb_clear_overruns:
  assumes "main_framebuffer s = Some fb" and "bpp fb = 32" and "pitch fb = 4 * width fb"
    and "unat (width fb) * unat (height fb) < 2 ^ 59" and "k < 8 * (unat (width fb) * unat (height fb))"
  shows "\<exists>s'. fb_control 6 data s = Ok (0, s') \<and> mem s' (address fb + of_nat k) = 0"
proof -
  let ?n = "unat (width fb) * unat (height fb)"
  have wh: "width fb * height fb = of_nat ?n" by simp
  have n: "unat (of_nat ?n * 32 :: u64) = 32 * ?n"
    using unat_of_nat64 [of "32 * ?n"] assms(4) by (simp add: mult.commute)
  have sz: "unat (width fb * height fb * ucast (bpp fb) div 4) = 8 * ?n"
    unfolding wh assms(2) using n by (simp add: unat_div)
  have "unat (of_nat k :: u64) = k" using assms(4,5) by (intro unat_of_nat64) simp
  then have "in_region (address fb) (8 * ?n) (address fb + of_nat k)" using assms(5) by (simp add: in_region_def)
  then show ?thesis using assms(1) sz by (simp add: fb_control_def memset_apply)
qed

theorem fb_clear_overruns_witness:
  "\<exists>s'. fb_control 6 0 screen_machine = Ok (0, s') \<and> mem s' (address small_screen + of_nat 31) = 0"
  by (rule fb_clear_overruns) (simp_all add: small_screen_def)

end
