(* ===== verification/Fs.thy ===== *)
theory Fs
  imports Fb Pagecache
begin

text \<open>
  The table of open inodes on top of the file system, \<^verbatim>\<open>src/kernel/fs/fs.c\<close>. The file
  system itself, CrowFS, is a separate library: its operations and constants are the argument
  \<open>C\<close> of the definitions that use them. An operation of it runs on the state of the kernel, since
  it calls back into it for blocks and memory. A pointer to an inode is the index of its slot.
\<close>

section \<open>The file system library\<close>

record crowfs_stat =
  stat_type :: u8
  stat_creation_date :: u64
  stat_size :: u32
  stat_name :: "u8 list"

record 's crowfs =
  CROWFS_OK :: u32
  CROWFS_ERR_LIMIT :: u32
  CROWFS_O_CREATE :: u32
  CROWFS_O_DIR :: u32
  CROWFS_ENTITY_FILE :: u8
  CROWFS_ENTITY_FOLDER :: u8
  CROWFS_BLOCK_SIZE :: u32
  crowfs_init :: "('s, u32) kern"
  crowfs_open_relative :: "u64 \<Rightarrow> u32 \<Rightarrow> u32 \<Rightarrow> ('s, u32 \<times> u32 \<times> u32) kern"
  crowfs_stat_of :: "u32 \<Rightarrow> ('s, u32 \<times> crowfs_stat) kern"
  crowfs_write :: "u32 \<Rightarrow> u64 \<Rightarrow> u64 \<Rightarrow> u64 \<Rightarrow> ('s, u32) kern"
  crowfs_read :: "u32 \<Rightarrow> u64 \<Rightarrow> u64 \<Rightarrow> u64 \<Rightarrow> ('s, u32) kern"
  crowfs_delete :: "u32 \<Rightarrow> u32 \<Rightarrow> ('s, u32) kern"
  crowfs_read_dir :: "u32 \<Rightarrow> u32 \<Rightarrow> ('s, u32 \<times> crowfs_stat) kern"

section \<open>State\<close>

datatype inode_type = INODE_EMPTY | INODE_FILE | INODE_DIRECTORY

record fs_inode =
  ilock :: spinlock
  itype :: inode_type
  dnode :: u32
  parent_dnode :: u32
  isize :: u32
  reference_count :: u32

text \<open>
  \<open>main_filesystem\<close> is what CrowFS keeps in memory, with the number of the root directory, the one
  field of it that the kernel reads.
\<close>

record ('d, 'p, 'f) fs_state = "('d, 'p) fb_state" +
  main_filesystem :: 'f
  root_dnode :: u32
  inodes :: "nat \<Rightarrow> fs_inode"
  inode_list_lock :: spinlock

definition MAX_INODES :: nat where
  "MAX_INODES = 64"

definition set_inode ::
  "nat \<Rightarrow> (fs_inode \<Rightarrow> fs_inode) \<Rightarrow> ('d, 'p, 'f, 'z) fs_state_scheme \<Rightarrow> ('d, 'p, 'f, 'z) fs_state_scheme" where
  "set_inode i f s = s\<lparr>inodes := (inodes s)(i := f (inodes s i))\<rparr>"

definition ilock_update_at ::
  "nat \<Rightarrow> (spinlock \<Rightarrow> spinlock) \<Rightarrow> ('d, 'p, 'f, 'z) fs_state_scheme \<Rightarrow> ('d, 'p, 'f, 'z) fs_state_scheme" where
  "ilock_update_at i f = set_inode i (ilock_update f)"

section \<open>Blocks for the library\<close>

definition PARTITION_OFFSET :: u64 where
  "PARTITION_OFFSET = 133120"

definition PARTITION_SIZE :: u64 where
  "PARTITION_SIZE = 204766 - PARTITION_OFFSET"

definition allocate_mem_block :: "(('d, 'z) kernel_scheme, u64) kern" where
  "allocate_mem_block = kcalloc"

definition free_mem_block :: "u64 \<Rightarrow> (('d, 'z) kernel_scheme, unit) kern" where
  "free_mem_block block = kfree block"

text \<open>The first sector of a block; a sector size of 0 is a division by zero.\<close>

definition block_lba :: "u32 \<Rightarrow> u32 \<Rightarrow> ('d, 'z) kernel_scheme \<Rightarrow> u64" where
  "block_lba bs block_index s = PARTITION_OFFSET + ucast block_index * ucast (bs div nvme_block_size s)"

definition write_block :: "'s crowfs \<Rightarrow> u32 \<Rightarrow> u64 \<Rightarrow> (('d, 'z) kernel_scheme, u32) kern" where
  "write_block C block_index block =
     kbind (kgets (\<lambda>s. (nvme_block_size s, block_lba (CROWFS_BLOCK_SIZE C) block_index s))) (\<lambda>(bs, lba).
     if bs = 0 then kundef else kbind (pagecache_write (ucast lba) block) (\<lambda>_. kret 0))"

definition read_block :: "'s crowfs \<Rightarrow> u32 \<Rightarrow> u64 \<Rightarrow> (('d, 'z) kernel_scheme, u32) kern" where
  "read_block C block_index block =
     kbind (kgets (\<lambda>s. (nvme_block_size s, block_lba (CROWFS_BLOCK_SIZE C) block_index s))) (\<lambda>(bs, lba).
     if bs = 0 then kundef else kbind (pagecache_read (ucast lba) block) (\<lambda>_. kret 0))"

definition fs_total_blocks :: "'s crowfs \<Rightarrow> u32" where
  "fs_total_blocks C = ucast (PARTITION_SIZE div ucast (CROWFS_BLOCK_SIZE C))"

definition current_date :: "(('d, 'p, 'z) rtc_state_scheme, u64) kern" where
  "current_date = rtc_now"

section \<open>Inodes\<close>

definition lock_inode :: "nat \<Rightarrow> (('d, 'p, 'f, 'z) fs_state_scheme, unit) kern" where
  "lock_inode i = klock (\<lambda>s. ilock (inodes s i)) (ilock_update_at i)"

definition unlock_inode :: "nat \<Rightarrow> (('d, 'p, 'f, 'z) fs_state_scheme, unit) kern" where
  "unlock_inode i = kunlock (\<lambda>s. ilock (inodes s i)) (ilock_update_at i)"

definition add_reference :: "fs_inode \<Rightarrow> fs_inode" where
  "add_reference n = n\<lparr>reference_count := reference_count n + 1\<rparr>"

text \<open>
  The search of \<open>fs_open\<close> over the slots that are left: the slot that holds the file, its reference
  counted, and the last free slot seen on the way.
\<close>

primrec fs_open_scan ::
  "nat \<Rightarrow> u32 \<Rightarrow> nat option \<Rightarrow> (('d, 'p, 'f, 'z) fs_state_scheme, nat option \<times> nat option) kern" where
  "fs_open_scan 0 dn free_inode = kret (None, free_inode)"
| "fs_open_scan (Suc k) dn free_inode =
     (let i = MAX_INODES - Suc k in
      kbind (lock_inode i) (\<lambda>_.
      kbind (kgets (\<lambda>s. inodes s i)) (\<lambda>n.
      if itype n = INODE_EMPTY
      then kbind (unlock_inode i) (\<lambda>_. fs_open_scan k dn (Some i))
      else if dnode n = dn
      then kbind (kmodify (set_inode i add_reference)) (\<lambda>_.
           kbind (unlock_inode i) (\<lambda>_. kret (Some i, free_inode)))
      else kbind (unlock_inode i) (\<lambda>_. fs_open_scan k dn free_inode))))"

definition fs_open ::
  "('d, 'p, 'f, 'z) fs_state_scheme crowfs \<Rightarrow> u64 \<Rightarrow> nat option \<Rightarrow> u32 \<Rightarrow>
   (('d, 'p, 'f, 'z) fs_state_scheme, nat option) kern" where
  "fs_open C path relative_to flags =
     kbind (kgets (\<lambda>s. case relative_to of None \<Rightarrow> root_dnode s | Some r \<Rightarrow> dnode (inodes s r))) (\<lambda>relative_to_dnode.
     kbind (crowfs_open_relative C path relative_to_dnode flags) (\<lambda>(result, dn, parent).
     if result \<noteq> CROWFS_OK C then kret None else
     kbind (klock inode_list_lock inode_list_lock_update) (\<lambda>_.
     kbind (fs_open_scan MAX_INODES dn None) (\<lambda>(inode, free_inode).
     kbind (case (inode, free_inode) of
              (None, Some i) \<Rightarrow>
                kbind (kmodify (set_inode i (\<lambda>n. n\<lparr>dnode := dn, parent_dnode := parent, reference_count := 1\<rparr>))) (\<lambda>_.
                kbind (crowfs_stat_of C dn) (\<lambda>(result, stat).
                kbind (kassert (result = CROWFS_OK C) ''fs_open stat failed'') (\<lambda>_.
                if stat_type stat = CROWFS_ENTITY_FILE C
                then kbind (kmodify (set_inode i (\<lambda>n. n\<lparr>itype := INODE_FILE, isize := stat_size stat\<rparr>))) (\<lambda>_. kret (Some i))
                else if stat_type stat = CROWFS_ENTITY_FOLDER C
                then kbind (kmodify (set_inode i (\<lambda>n. n\<lparr>itype := INODE_DIRECTORY, isize := stat_size stat\<rparr>))) (\<lambda>_. kret (Some i))
                else kpanic ''open: invalid dnode type'')))
            | _ \<Rightarrow> kret inode) (\<lambda>inode.
     kbind (kunlock inode_list_lock inode_list_lock_update) (\<lambda>_. kret inode))))))"

definition fs_dup :: "nat \<Rightarrow> (('d, 'p, 'f, 'z) fs_state_scheme, unit) kern" where
  "fs_dup i = kmodify (set_inode i add_reference)"

definition drop_reference :: "fs_inode \<Rightarrow> fs_inode" where
  "drop_reference n =
     (let c = reference_count n - 1; n1 = n\<lparr>reference_count := c\<rparr>
      in if c = 0 then n1\<lparr>itype := INODE_EMPTY, dnode := 0, parent_dnode := 0, isize := 0\<rparr> else n1)"

definition fs_close :: "nat \<Rightarrow> (('d, 'p, 'f, 'z) fs_state_scheme, unit) kern" where
  "fs_close i =
     kbind (lock_inode i) (\<lambda>_.
     kbind (kmodify (set_inode i drop_reference)) (\<lambda>_.
     unlock_inode i))"

definition fs_write ::
  "('d, 'p, 'f, 'z) fs_state_scheme crowfs \<Rightarrow> nat \<Rightarrow> u64 \<Rightarrow> u64 \<Rightarrow> u64 \<Rightarrow> (('d, 'p, 'f, 'z) fs_state_scheme, u32) kern" where
  "fs_write C i buffer len offset =
     kbind (lock_inode i) (\<lambda>_.
     kbind (kgets (\<lambda>s. dnode (inodes s i))) (\<lambda>dn.
     kbind (crowfs_write C dn buffer len offset) (\<lambda>result.
     if result \<noteq> CROWFS_OK C then kbind (unlock_inode i) (\<lambda>_. kret (-1))
     else kbind (kmodify (set_inode i (\<lambda>n. if ucast (isize n) < offset + len then n\<lparr>isize := ucast (offset + len)\<rparr> else n))) (\<lambda>_.
          kbind (unlock_inode i) (\<lambda>_. kret (ucast len))))))"

definition fs_read ::
  "('d, 'p, 'f, 'z) fs_state_scheme crowfs \<Rightarrow> nat \<Rightarrow> u64 \<Rightarrow> u64 \<Rightarrow> u64 \<Rightarrow> (('d, 'p, 'f, 'z) fs_state_scheme, u32) kern" where
  "fs_read C i buffer len offset =
     kbind (lock_inode i) (\<lambda>_.
     kbind (kgets (\<lambda>s. dnode (inodes s i))) (\<lambda>dn.
     kbind (crowfs_read C dn buffer len offset) (\<lambda>result.
     kbind (unlock_inode i) (\<lambda>_. kret (if sint result < 0 then -1 else result)))))"

definition fs_rename :: "u64 \<Rightarrow> u64 \<Rightarrow> nat option \<Rightarrow> (('d, 'p, 'f, 'z) fs_state_scheme, u32) kern" where
  "fs_rename old_path new_path relative_to = kpanic ''NOT IMPLEMENTED''"

text \<open>A \<open>NULL\<close> directory is dereferenced.\<close>

definition fs_delete ::
  "('d, 'p, 'f, 'z) fs_state_scheme crowfs \<Rightarrow> u64 \<Rightarrow> nat option \<Rightarrow> (('d, 'p, 'f, 'z) fs_state_scheme, u32) kern" where
  "fs_delete C path relative_to =
     (case relative_to of None \<Rightarrow> kundef | Some r \<Rightarrow>
      kbind (kgets (\<lambda>s. dnode (inodes s r))) (\<lambda>rd.
      kbind (crowfs_open_relative C path rd 0) (\<lambda>(result, dn, parent).
      if result \<noteq> CROWFS_OK C then kret (-1)
      else kbind (crowfs_delete C dn parent) (\<lambda>result.
           kret (if result \<noteq> CROWFS_OK C then -1 else 0)))))"

definition fs_mkdir ::
  "('d, 'p, 'f, 'z) fs_state_scheme crowfs \<Rightarrow> u64 \<Rightarrow> nat option \<Rightarrow> (('d, 'p, 'f, 'z) fs_state_scheme, u32) kern" where
  "fs_mkdir C directory relative_to =
     (case relative_to of None \<Rightarrow> kundef | Some r \<Rightarrow>
      kbind (kgets (\<lambda>s. dnode (inodes s r))) (\<lambda>rd.
      kbind (crowfs_open_relative C directory rd (CROWFS_O_CREATE C OR CROWFS_O_DIR C)) (\<lambda>(result, dn, parent).
      kret (if result \<noteq> CROWFS_OK C then -1 else 0))))"

text \<open>
  A directory entry in a buffer: \<open>creation_date\<close> at 0, \<open>size\<close> at 8, \<open>type\<close> at 12, the name with its NUL
  byte from 13; the structure without the name has 16 bytes.
\<close>

definition put_dirent :: "u64 \<Rightarrow> u8 \<Rightarrow> crowfs_stat \<Rightarrow> mem \<Rightarrow> mem" where
  "put_dirent d dt st m =
     (let m1 = m(d + 12 := dt);
          m2 = store64 m1 d (stat_creation_date st);
          m3 = store32 m2 (d + 8) (stat_size st)
      in store_bytes m3 (d + 13) (stat_name st @ [0]))"

lemma readdir_step:
  assumes "\<not> 2 ^ 32 \<le> length xs" and "\<not> len \<le> 16 + of_nat (length xs)"
  shows "unat (len - (16 + of_nat (length xs))) < unat (len :: u64)"
proof -
  have "unat (of_nat (length xs) :: u64) = length xs" using assms(1) by (intro unat_of_nat64) simp
  then have n: "unat (16 + of_nat (length xs) :: u64) = 16 + length xs"
    using assms(1) unat_add64 [of 16 "of_nat (length xs)"] by simp
  then have "16 + length xs < unat len" using assms(2) by (simp add: word_le_nat_alt)
  then show ?thesis unfolding unat_diff_cases n by simp
qed

function fs_readdir_loop ::
  "('d, 'p, 'f, 'z) fs_state_scheme crowfs \<Rightarrow> u32 \<Rightarrow> u64 \<Rightarrow> u64 \<Rightarrow> u32 \<Rightarrow> u32 \<Rightarrow>
   ('d, 'p, 'f, 'z) fs_state_scheme \<Rightarrow> (u32 \<times> ('d, 'p, 'f, 'z) fs_state_scheme) outcome" where
  "fs_readdir_loop C dn buffer len offset read_directories s =
     (case crowfs_read_dir C dn offset s of
        Ok ((result, st), s1) \<Rightarrow>
          if result = CROWFS_ERR_LIMIT C then Ok (read_directories, s1)
          else if result \<noteq> CROWFS_OK C then Ok (-2, s1)
          else if 2 ^ 32 \<le> length (stat_name st) then Undef
          else let n = of_nat (length (stat_name st)) in
               if len \<le> 16 + n then Ok (read_directories, s1)
               else if stat_type st \<noteq> CROWFS_ENTITY_FILE C \<and> stat_type st \<noteq> CROWFS_ENTITY_FOLDER C
               then Panic ''fs_readdir: invalid type''
               else let dt = (if stat_type st = CROWFS_ENTITY_FILE C then 2 else 1);
                        s2 = s1\<lparr>mem := put_dirent buffer dt st (mem s1)\<rparr>
                    in fs_readdir_loop C dn (buffer + (16 + n)) (len - (16 + n)) (offset + 1) (read_directories + 1) s2
      | Panic e \<Rightarrow> Panic e | Hang \<Rightarrow> Hang | Undef \<Rightarrow> Undef)"
  by pat_completeness auto
termination fs_readdir_loop
  by (relation "measure (\<lambda>(_, _, _, len, _, _, _). unat len)") (auto intro: readdir_step)

definition fs_readdir ::
  "('d, 'p, 'f, 'z) fs_state_scheme crowfs \<Rightarrow> nat \<Rightarrow> u64 \<Rightarrow> u64 \<Rightarrow> u32 \<Rightarrow> (('d, 'p, 'f, 'z) fs_state_scheme, u32) kern" where
  "fs_readdir C i buffer len offset =
     kbind (kgets (\<lambda>s. inodes s i)) (\<lambda>n.
     if itype n \<noteq> INODE_DIRECTORY then kret (-1)
     else fs_readdir_loop C (dnode n) buffer len offset 0)"

definition fs_init ::
  "('d, 'p, 'f, 'z) fs_state_scheme crowfs \<Rightarrow> (('d, 'p, 'f, 'z) fs_state_scheme, unit) kern" where
  "fs_init C =
     kbind (kgets nvme_block_size) (\<lambda>bs.
     if bs = 0 then kundef else
     kbind (kassert (CROWFS_BLOCK_SIZE C mod bs = 0) ''fs/nvme indivisible block size'') (\<lambda>_.
     kbind (crowfs_init C) (\<lambda>result.
     kassert (result = CROWFS_OK C) ''fs: bad filesystem'')))"

section \<open>The table of open inodes\<close>

lemma ilock_update_id: "f (ilock n) = ilock n \<Longrightarrow> ilock_update f n = n"
  by (cases n) simp

lemma inodes_update_id: "s\<lparr>inodes := inodes s\<rparr> = s"
  by (cases s) simp

interpretation ilk: lock_field "\<lambda>s. ilock (inodes s i)" "ilock_update_at i" for i
  by unfold_locales
    (simp_all add: ilock_update_at_def set_inode_def comp_def ilock_update_id inodes_update_id)

interpretation ill: lock_field inode_list_lock inode_list_lock_update
  by unfold_locales simp_all

text \<open>
  Between operations: every lock is free, a slot is empty exactly when nobody refers to it, and no
  file has two slots.
\<close>

definition in_use :: "fs_inode \<Rightarrow> bool" where
  "in_use n \<longleftrightarrow> itype n \<noteq> INODE_EMPTY"

definition inodes_ok :: "(nat \<Rightarrow> fs_inode) \<Rightarrow> bool" where
  "inodes_ok N \<longleftrightarrow> (\<forall>i<MAX_INODES. ilock (N i) = unlocked_lock \<and> (in_use (N i) \<longleftrightarrow> reference_count (N i) \<noteq> 0)) \<and>
     (\<forall>i<MAX_INODES. \<forall>j<MAX_INODES. in_use (N i) \<and> in_use (N j) \<and> dnode (N i) = dnode (N j) \<longrightarrow> i = j)"

definition fs_ok :: "('d, 'p, 'f, 'z) fs_state_scheme \<Rightarrow> bool" where
  "fs_ok s \<longleftrightarrow> inodes_ok (inodes s) \<and> inode_list_lock s = unlocked_lock \<and> cpu_ok (cpu s) \<and> unat (depth (cpu s)) < 1000"

text \<open>What the table stands for: how often each file is open.\<close>

definition references :: "u32 \<Rightarrow> fs_inode \<Rightarrow> nat" where
  "references d n = (if in_use n \<and> dnode n = d then unat (reference_count n) else 0)"

definition open_count :: "(nat \<Rightarrow> fs_inode) \<Rightarrow> u32 \<Rightarrow> nat" where
  "open_count N d = (\<Sum>i<MAX_INODES. references d (N i))"

lemma open_count_update:
  assumes "i < MAX_INODES"
  shows "open_count (N(i := n)) d + references d (N i) = open_count N d + references d n"
proof -
  have "open_count M d = references d (M i) + (\<Sum>j \<in> {..<MAX_INODES} - {i}. references d (M j))" for M
    unfolding open_count_def using assms by (intro sum.remove) simp_all
  from this [of N] this [of "N(i := n)"] show ?thesis by simp
qed

lemma set_inode_simps [simp]:
  "inodes (set_inode i f s) = (inodes s)(i := f (inodes s i))" "cpu (set_inode i f s) = cpu s"
  "inode_list_lock (set_inode i f s) = inode_list_lock s"
  by (simp_all add: set_inode_def)

lemma cpu_ok_save: "cpu_ok c \<Longrightarrow> unat (depth c) < 1000 \<Longrightarrow> cpu_ok (save_and_disable_interrupts c)"
proof -
  assume "cpu_ok c" and d: "unat (depth c) < 1000"
  have "unat (depth c + 1) = unat (depth c) + 1" using d by (simp add: unat_word_ariths)
  with d show ?thesis by (simp add: cpu_ok_def)
qed

lemma settled_save: "unat (depth c) < 1000 \<Longrightarrow> settled (save_and_disable_interrupts c) = save_and_disable_interrupts c"
  using depth_Suc_nonzero [of "depth c"] by (simp add: settled_def)

text \<open>A critical section on one inode that leaves its lock alone.\<close>

lemma inode_section:
  assumes "cpu_ok (cpu s)" and "ilock (inodes s i) = unlocked_lock" and "\<And>n l. f (n\<lparr>ilock := l\<rparr>) = (f n)\<lparr>ilock := l\<rparr>"
  shows "kbind (lock_inode i) (\<lambda>_. kbind (kmodify (set_inode i f)) (\<lambda>_. unlock_inode i)) s =
    Ok ((), (set_inode i f s)\<lparr>cpu := settled (cpu s)\<rparr>)"
proof -
  have f: "f (inodes s i) = (f (inodes s i))\<lparr>ilock := unlocked_lock\<rparr>"
    using assms(3) [of unlocked_lock "inodes s i"] assms(2) by (metis ilock_update_id)
  have lock: "lock_inode i s = Ok ((), ilk.entered i s)"
    unfolding lock_inode_def by (rule ilk.lock_free [OF assms(1,2)])
  let ?s = "set_inode i f (ilk.entered i s)"
  have "unlock_inode i ?s = Ok ((), (ilock_update_at i (\<lambda>_. unlocked_lock) ?s)\<lparr>cpu := settled (cpu s)\<rparr>)"
    unfolding unlock_inode_def using assms(1)
    by (rule ilk.unlock_entered) (simp_all add: ilk.entered_def ilock_update_at_def assms(3))
  moreover have "(ilock_update_at i (\<lambda>_. unlocked_lock) ?s)\<lparr>cpu := settled (cpu s)\<rparr> = (set_inode i f s)\<lparr>cpu := settled (cpu s)\<rparr>"
    using f by (simp add: ilk.entered_def ilock_update_at_def set_inode_def assms(3))
  ultimately show ?thesis using lock by simp
qed

lemma drop_reference_ilock: "drop_reference (n\<lparr>ilock := l\<rparr>) = (drop_reference n)\<lparr>ilock := l\<rparr>"
  by (simp add: drop_reference_def Let_def)

lemma add_reference_ilock: "add_reference (n\<lparr>ilock := l\<rparr>) = (add_reference n)\<lparr>ilock := l\<rparr>"
  by (simp add: add_reference_def)

lemma fs_close_eq:
  "cpu_ok (cpu s) \<Longrightarrow> ilock (inodes s i) = unlocked_lock \<Longrightarrow>
   fs_close i s = Ok ((), (set_inode i drop_reference s)\<lparr>cpu := settled (cpu s)\<rparr>)"
  unfolding fs_close_def by (rule inode_section) (simp_all add: drop_reference_ilock)

lemma inode_look:
  assumes "cpu_ok (cpu s)" and "ilock (inodes s i) = unlocked_lock"
  shows "kbind (lock_inode i) (\<lambda>_. kbind (kgets (\<lambda>s. inodes s i)) g) s =
    g ((inodes s i)\<lparr>ilock := held_lock (cpu s)\<rparr>) (ilk.entered i s)"
    and "unlock_inode i (ilk.entered i s) = Ok ((), s\<lparr>cpu := settled (cpu s)\<rparr>)"
proof -
  have lock: "lock_inode i s = Ok ((), ilk.entered i s)"
    unfolding lock_inode_def by (rule ilk.lock_free [OF assms])
  then show "kbind (lock_inode i) (\<lambda>_. kbind (kgets (\<lambda>s. inodes s i)) g) s =
    g ((inodes s i)\<lparr>ilock := held_lock (cpu s)\<rparr>) (ilk.entered i s)"
    by (simp add: ilk.entered_def ilock_update_at_def)
  show "unlock_inode i (ilk.entered i s) = Ok ((), s\<lparr>cpu := settled (cpu s)\<rparr>)"
    unfolding unlock_inode_def by (rule ilk.leave_entered [OF assms])
qed

text \<open>The search without its locks.\<close>

primrec find_inode :: "nat \<Rightarrow> u32 \<Rightarrow> nat option \<Rightarrow> (nat \<Rightarrow> fs_inode) \<Rightarrow> nat option \<times> nat option" where
  "find_inode 0 dn free_inode N = (None, free_inode)"
| "find_inode (Suc k) dn free_inode N =
     (let i = MAX_INODES - Suc k in
      if \<not> in_use (N i) then find_inode k dn (Some i) N
      else if dnode (N i) = dn then (Some i, free_inode)
      else find_inode k dn free_inode N)"

lemma fs_open_scan_eq:
  assumes "cpu_ok (cpu s)" and "settled (cpu s) = cpu s" and "\<forall>i<MAX_INODES. ilock (inodes s i) = unlocked_lock"
    and "k \<le> MAX_INODES"
  shows "fs_open_scan k dn fr s = Ok (find_inode k dn fr (inodes s),
    case fst (find_inode k dn fr (inodes s)) of None \<Rightarrow> s | Some i \<Rightarrow> set_inode i add_reference s)"
  using assms(4)
proof (induction k arbitrary: fr)
  case 0
  then show ?case by simp
next
  case (Suc k)
  let ?i = "MAX_INODES - Suc k"
  have i: "?i < MAX_INODES" using Suc.prems by simp
  then have free: "ilock (inodes s ?i) = unlocked_lock" using assms(3) by blast
  have id: "t\<lparr>cpu := cpu s\<rparr> = t" if "cpu t = cpu s" for t :: "('a, 'b, 'c, 'd) fs_state_scheme"
    using that by (cases t) simp
  note look = inode_look [OF assms(1) free]
  have unlock: "unlock_inode ?i (ilk.entered ?i s) = Ok ((), s)" using look(2) assms(2) id by simp
  have lock: "lock_inode ?i s = Ok ((), ilk.entered ?i s)"
    unfolding lock_inode_def by (rule ilk.lock_free [OF assms(1) free])
  have "kbind (kmodify (set_inode ?i add_reference)) (\<lambda>_. unlock_inode ?i) (ilk.entered ?i s) =
      Ok ((), (set_inode ?i add_reference s)\<lparr>cpu := settled (cpu s)\<rparr>)"
    using inode_section [OF assms(1) free add_reference_ilock] lock by simp
  then have count: "unlock_inode ?i (set_inode ?i add_reference (ilk.entered ?i s)) = Ok ((), set_inode ?i add_reference s)"
    using assms(2) id by simp
  have scan: "fs_open_scan (Suc k) dn fr s =
      (if \<not> in_use (inodes s ?i) then fs_open_scan k dn (Some ?i) s
       else if dnode (inodes s ?i) = dn then Ok ((Some ?i, fr), set_inode ?i add_reference s)
       else fs_open_scan k dn fr s)"
    unfolding fs_open_scan.simps Let_def look(1) using unlock count by (simp add: in_use_def)
  show ?case
    unfolding scan find_inode.simps Let_def using Suc by simp
qed

lemma find_inode_found:
  "find_inode k dn fr N = (Some i, fr') \<Longrightarrow> k \<le> MAX_INODES \<Longrightarrow> i < MAX_INODES \<and> in_use (N i) \<and> dnode (N i) = dn"
  by (induction k arbitrary: fr) (auto simp: Let_def split: if_splits)

lemma find_inode_none:
  "find_inode k dn fr N = (None, fr') \<Longrightarrow> MAX_INODES - k \<le> i \<Longrightarrow> i < MAX_INODES \<Longrightarrow> k \<le> MAX_INODES \<Longrightarrow>
   in_use (N i) \<Longrightarrow> dnode (N i) \<noteq> dn"
proof (induction k arbitrary: fr)
  case (Suc k)
  then show ?case by (cases "i = MAX_INODES - Suc k") (auto simp: Let_def split: if_splits)
qed simp

lemma find_inode_free:
  "find_inode k dn fr N = (r, Some j) \<Longrightarrow> fr = None \<or> (the fr < MAX_INODES \<and> \<not> in_use (N (the fr))) \<Longrightarrow> k \<le> MAX_INODES \<Longrightarrow>
   j < MAX_INODES \<and> \<not> in_use (N j)"
proof (induction k arbitrary: fr)
  case (Suc k)
  show ?case
  proof (cases "in_use (N (MAX_INODES - Suc k))")
    case True
    with Suc.prems Suc.IH [of fr] show ?thesis by (auto simp: Let_def split: if_splits)
  next
    case False
    then have "find_inode k dn (Some (MAX_INODES - Suc k)) N = (r, Some j)" using Suc.prems(1) by simp
    then show ?thesis by (rule Suc.IH) (use False Suc.prems(3) in simp_all)
  qed
qed auto

text \<open>
  What the table relies on of the library: its operations know nothing of the table and its lock, and
  leave the interrupt nesting of the core as they found it.
\<close>

definition keeps_inodes :: "(('d, 'p, 'f, 'z) fs_state_scheme, 'a) kern \<Rightarrow> bool" where
  "keeps_inodes m \<longleftrightarrow> (\<forall>s r s'. m s = Ok (r, s') \<longrightarrow>
     inodes s' = inodes s \<and> inode_list_lock s' = inode_list_lock s \<and> (cpu_ok (cpu s) \<longrightarrow> cpu s' = settled (cpu s)))"

definition crowfs_frame :: "('d, 'p, 'f, 'z) fs_state_scheme crowfs \<Rightarrow> bool" where
  "crowfs_frame C \<longleftrightarrow> (\<forall>path d flags. keeps_inodes (crowfs_open_relative C path d flags)) \<and>
     (\<forall>d. keeps_inodes (crowfs_stat_of C d)) \<and>
     (\<forall>d b l off. keeps_inodes (crowfs_read C d b l off)) \<and> (\<forall>d b l off. keeps_inodes (crowfs_write C d b l off))"

text \<open>The table after a file was opened at the slot \<open>i\<close>.\<close>

definition opened :: "(nat \<Rightarrow> fs_inode) \<Rightarrow> nat \<Rightarrow> (nat \<Rightarrow> fs_inode) \<Rightarrow> bool" where
  "opened N i N' \<longleftrightarrow> i < MAX_INODES \<and> in_use (N' i) \<and> (\<forall>j. j \<noteq> i \<longrightarrow> N' j = N j) \<and>
     unat (reference_count (N' i)) = unat (reference_count (N i)) + 1 \<and>
     open_count N' = (open_count N)(dnode (N' i) := open_count N (dnode (N' i)) + 1)"

lemma inodes_okD:
  "inodes_ok N \<Longrightarrow> i < MAX_INODES \<Longrightarrow> ilock (N i) = unlocked_lock"
  "inodes_ok N \<Longrightarrow> i < MAX_INODES \<Longrightarrow> in_use (N i) \<longleftrightarrow> reference_count (N i) \<noteq> 0"
  "inodes_ok N \<Longrightarrow> i < MAX_INODES \<Longrightarrow> j < MAX_INODES \<Longrightarrow> in_use (N i) \<Longrightarrow> in_use (N j) \<Longrightarrow>
   dnode (N i) = dnode (N j) \<Longrightarrow> i = j"
  by (simp_all add: inodes_ok_def)

lemma inodes_ok_update:
  assumes "inodes_ok N" and "ilock n = unlocked_lock" and "in_use n \<longleftrightarrow> reference_count n \<noteq> 0"
    and other: "\<And>j. j < MAX_INODES \<Longrightarrow> j \<noteq> i \<Longrightarrow> in_use (N j) \<Longrightarrow> in_use n \<Longrightarrow> dnode (N j) \<noteq> dnode n"
  shows "inodes_ok (N(i := n))"
  unfolding inodes_ok_def
proof (intro conjI allI impI)
  fix k assume k: "k < MAX_INODES"
  show "ilock ((N(i := n)) k) = unlocked_lock" using assms(2) inodes_okD(1) [OF assms(1) k] by simp
  show "in_use ((N(i := n)) k) = (reference_count ((N(i := n)) k) \<noteq> 0)"
    using assms(3) inodes_okD(2) [OF assms(1) k] by simp
next
  fix k j assume kj: "k < MAX_INODES" "j < MAX_INODES"
    and u: "in_use ((N(i := n)) k) \<and> in_use ((N(i := n)) j) \<and> dnode ((N(i := n)) k) = dnode ((N(i := n)) j)"
  show "k = j"
  proof (cases "k = i \<or> j = i")
    case True
    then show ?thesis using u other [of k] other [of j] kj by (auto split: if_splits)
  next
    case False
    then show ?thesis using u inodes_okD(3) [OF assms(1) kj] by simp
  qed
qed

lemma open_count_change:
  assumes "i < MAX_INODES" and "\<And>d. d \<noteq> dn \<Longrightarrow> references d n = references d (N i)"
    and "open_count N dn + references dn n = c + references dn (N i)"
  shows "open_count (N(i := n)) = (open_count N)(dn := c)"
proof
  fix d
  show "open_count (N(i := n)) d = ((open_count N)(dn := c)) d"
    using open_count_update [OF assms(1), of N n d] assms(2) [of d] assms(3) by (cases "d = dn") simp_all
qed

lemma references_le: "i < MAX_INODES \<Longrightarrow> references d (N i) \<le> open_count N d"
  unfolding open_count_def by (rule member_le_sum) simp_all

lemma opened_again:
  assumes "inodes_ok N" and "i < MAX_INODES" and "in_use (N i)" and "unat (reference_count (N i)) < 2 ^ 32 - 1"
  shows "inodes_ok (N(i := add_reference (N i))) \<and> opened N i (N(i := add_reference (N i)))"
proof -
  let ?n = "add_reference (N i)"
  have u: "unat (reference_count (N i) + 1) = unat (reference_count (N i)) + 1"
    using assms(4) by (simp add: unat_word_ariths)
  then have nz: "reference_count (N i) + 1 \<noteq> 0" by (auto simp: word_unat_eq_iff)
  have n: "ilock ?n = unlocked_lock" "in_use ?n" "dnode ?n = dnode (N i)" "reference_count ?n = reference_count (N i) + 1"
    using assms(3) inodes_okD(1) [OF assms(1,2)] by (simp_all add: add_reference_def in_use_def)
  have "inodes_ok (N(i := ?n))"
    using assms(1) n(1)
  proof (rule inodes_ok_update)
    show "dnode (N j) \<noteq> dnode ?n" if "j < MAX_INODES" "j \<noteq> i" "in_use (N j)" for j
      using inodes_okD(3) [OF assms(1) that(1) assms(2) that(3) assms(3)] that(2) n(3) by auto
  qed (use n nz in simp_all)
  moreover have "open_count (N(i := ?n)) = (open_count N)(dnode (N i) := open_count N (dnode (N i)) + 1)"
    by (rule open_count_change [OF assms(2)]) (use n u assms(3) in \<open>simp_all add: references_def\<close>)
  ultimately show ?thesis using assms(2) n u by (simp add: opened_def)
qed

lemma opened_new:
  assumes "inodes_ok N" and "i < MAX_INODES" and "\<not> in_use (N i)" and "\<forall>j<MAX_INODES. in_use (N j) \<longrightarrow> dnode (N j) \<noteq> dn"
    and "ilock n = unlocked_lock" and "in_use n" and "dnode n = dn" and "reference_count n = 1"
  shows "inodes_ok (N(i := n)) \<and> opened N i (N(i := n))"
proof -
  have "inodes_ok (N(i := n))"
    using assms(1,5) by (rule inodes_ok_update) (use assms(4,6-8) in auto)
  moreover have "open_count (N(i := n)) = (open_count N)(dn := open_count N dn + 1)"
    by (rule open_count_change [OF assms(2)]) (use assms(3,6-8) in \<open>simp_all add: references_def\<close>)
  moreover have "reference_count (N i) = 0" using inodes_okD(2) [OF assms(1,2)] assms(3) by simp
  ultimately show ?thesis using assms(2,6-8) by (simp add: opened_def)
qed

lemma closed_once:
  assumes "inodes_ok N" and "i < MAX_INODES" and "in_use (N i)"
  shows "inodes_ok (N(i := drop_reference (N i))) \<and>
    open_count (N(i := drop_reference (N i))) = (open_count N)(dnode (N i) := open_count N (dnode (N i)) - 1)"
proof -
  let ?n = "drop_reference (N i)"
  have nz: "reference_count (N i) \<noteq> 0" using assms inodes_okD(2) by blast
  then have u: "unat (reference_count (N i) - 1) = unat (reference_count (N i)) - 1" by (rule unat_minus_one)
  have pos: "0 < unat (reference_count (N i))" using nz by (simp add: unat_gt_0)
  have n: "ilock ?n = unlocked_lock" "reference_count ?n = reference_count (N i) - 1"
    "in_use ?n \<longleftrightarrow> reference_count (N i) - 1 \<noteq> 0" "in_use ?n \<Longrightarrow> dnode ?n = dnode (N i)"
    using assms(3) inodes_okD(1) [OF assms(1,2)] by (auto simp: drop_reference_def in_use_def Let_def)
  have "inodes_ok (N(i := ?n))"
    using assms(1) n(1)
  proof (rule inodes_ok_update)
    show "dnode (N j) \<noteq> dnode ?n" if "j < MAX_INODES" "j \<noteq> i" "in_use (N j)" "in_use ?n" for j
      using inodes_okD(3) [OF assms(1) that(1) assms(2) that(3) assms(3)] that(2) n(4) [OF that(4)] by auto
  qed (use n in simp)
  moreover have "open_count (N(i := ?n)) = (open_count N)(dnode (N i) := open_count N (dnode (N i)) - 1)"
  proof (rule open_count_change [OF assms(2)])
    show "references d ?n = references d (N i)" if "d \<noteq> dnode (N i)" for d
      using that n(4) by (auto simp: references_def)
    have "references (dnode (N i)) ?n = unat (reference_count (N i)) - 1"
      using n u by (auto simp: references_def word_unat_eq_iff)
    moreover have "references (dnode (N i)) (N i) = unat (reference_count (N i))" using assms(3) by (simp add: references_def)
    ultimately show "open_count N (dnode (N i)) + references (dnode (N i)) ?n =
        open_count N (dnode (N i)) - 1 + references (dnode (N i)) (N i)"
      using pos references_le [OF assms(2), of "dnode (N i)" N] by simp
  qed
  ultimately show ?thesis by simp
qed

section \<open>Properties\<close>

text \<open>
  The library answers a request for the properties of a file it has just opened, with one of the two
  types of file it has.
\<close>

definition stats_file :: "('d, 'p, 'f, 'z) fs_state_scheme crowfs \<Rightarrow> u32 \<Rightarrow> bool" where
  "stats_file C dn \<longleftrightarrow> (\<forall>t. \<exists>st t'. crowfs_stat_of C dn t = Ok ((CROWFS_OK C, st), t') \<and>
     (stat_type st = CROWFS_ENTITY_FILE C \<or> stat_type st = CROWFS_ENTITY_FOLDER C))"

definition relative_dnode :: "nat option \<Rightarrow> ('d, 'p, 'f, 'z) fs_state_scheme \<Rightarrow> u32" where
  "relative_dnode relative_to s = (case relative_to of None \<Rightarrow> root_dnode s | Some r \<Rightarrow> dnode (inodes s r))"

text \<open>The part of \<open>fs_open\<close> that fills a free slot.\<close>

definition fill_inode ::
  "('d, 'p, 'f, 'z) fs_state_scheme crowfs \<Rightarrow> nat \<Rightarrow> u32 \<Rightarrow> u32 \<Rightarrow> (('d, 'p, 'f, 'z) fs_state_scheme, nat option) kern" where
  "fill_inode C i dn parent =
     kbind (kmodify (set_inode i (\<lambda>n. n\<lparr>dnode := dn, parent_dnode := parent, reference_count := 1\<rparr>))) (\<lambda>_.
     kbind (crowfs_stat_of C dn) (\<lambda>(result, stat).
     kbind (kassert (result = CROWFS_OK C) ''fs_open stat failed'') (\<lambda>_.
     if stat_type stat = CROWFS_ENTITY_FILE C
     then kbind (kmodify (set_inode i (\<lambda>n. n\<lparr>itype := INODE_FILE, isize := stat_size stat\<rparr>))) (\<lambda>_. kret (Some i))
     else if stat_type stat = CROWFS_ENTITY_FOLDER C
     then kbind (kmodify (set_inode i (\<lambda>n. n\<lparr>itype := INODE_DIRECTORY, isize := stat_size stat\<rparr>))) (\<lambda>_. kret (Some i))
     else kpanic ''open: invalid dnode type'')))"

lemma fill_inode_ok:
  assumes "stats_file C dn" and "crowfs_frame C" and "inodes_ok (inodes s)" and "i < MAX_INODES" and "\<not> in_use (inodes s i)"
    and "\<forall>j<MAX_INODES. in_use (inodes s j) \<longrightarrow> dnode (inodes s j) \<noteq> dn" and "cpu_ok (cpu s)"
  shows "\<exists>s'. fill_inode C i dn parent s = Ok (Some i, s') \<and> inodes_ok (inodes s') \<and> opened (inodes s) i (inodes s') \<and>
    dnode (inodes s' i) = dn \<and> cpu s' = settled (cpu s) \<and> inode_list_lock s' = inode_list_lock s"
proof -
  let ?s1 = "set_inode i (\<lambda>n. n\<lparr>dnode := dn, parent_dnode := parent, reference_count := 1\<rparr>) s"
  obtain st s2 where st: "crowfs_stat_of C dn ?s1 = Ok ((CROWFS_OK C, st), s2)"
    and ty: "stat_type st = CROWFS_ENTITY_FILE C \<or> stat_type st = CROWFS_ENTITY_FOLDER C"
    using assms(1) unfolding stats_file_def by blast
  have "keeps_inodes (crowfs_stat_of C dn)" using assms(2) by (simp add: crowfs_frame_def)
  then have k: "inodes s2 = inodes ?s1" "inode_list_lock s2 = inode_list_lock ?s1" "cpu s2 = settled (cpu ?s1)"
    using st assms(7) unfolding keeps_inodes_def by (metis set_inode_simps(2))+
  define ty' where "ty' = (if stat_type st = CROWFS_ENTITY_FILE C then INODE_FILE else INODE_DIRECTORY)"
  let ?n = "(inodes s i)\<lparr>dnode := dn, parent_dnode := parent, reference_count := 1, itype := ty', isize := stat_size st\<rparr>"
  let ?s3 = "set_inode i (\<lambda>n. n\<lparr>itype := ty', isize := stat_size st\<rparr>) s2"
  have "fill_inode C i dn parent s = Ok (Some i, ?s3)"
    using st ty unfolding fill_inode_def ty'_def by (cases "stat_type st = CROWFS_ENTITY_FILE C") simp_all
  moreover have n: "inodes ?s3 = (inodes s)(i := ?n)" by (simp add: k)
  moreover have "inodes_ok ((inodes s)(i := ?n)) \<and> opened (inodes s) i ((inodes s)(i := ?n))"
    by (rule opened_new [OF assms(3,4,5,6)]) (use inodes_okD(1) [OF assms(3,4)] in \<open>simp_all add: in_use_def ty'_def\<close>)
  moreover have "cpu ?s3 = settled (cpu s)" "inode_list_lock ?s3 = inode_list_lock s" by (simp_all add: k)
  ultimately show ?thesis by (intro exI [of _ ?s3]) (simp only: fun_upd_same, simp)
qed

definition table_section ::
  "('d, 'p, 'f, 'z) fs_state_scheme crowfs \<Rightarrow> u32 \<Rightarrow> u32 \<Rightarrow> (('d, 'p, 'f, 'z) fs_state_scheme, nat option) kern" where
  "table_section C dn parent =
     kbind (fs_open_scan MAX_INODES dn None) (\<lambda>(inode, free_inode).
     case (inode, free_inode) of (None, Some i) \<Rightarrow> fill_inode C i dn parent | _ \<Rightarrow> kret inode)"

lemma fs_open_eq:
  "fs_open C path relative_to flags =
     kbind (kgets (relative_dnode relative_to)) (\<lambda>d.
     kbind (crowfs_open_relative C path d flags) (\<lambda>(result, dn, parent).
     if result \<noteq> CROWFS_OK C then kret None else
     kbind (klock inode_list_lock inode_list_lock_update) (\<lambda>_.
     kbind (table_section C dn parent) (\<lambda>inode.
     kbind (kunlock inode_list_lock inode_list_lock_update) (\<lambda>_. kret inode)))))"
  unfolding fs_open_def fill_inode_def relative_dnode_def table_section_def kbind_assoc split_def ..

text \<open>The critical section of \<open>fs_open\<close>, from a state that has just taken the lock of the list.\<close>

definition table_step :: "u32 \<Rightarrow> (nat \<Rightarrow> fs_inode) \<Rightarrow> nat option \<Rightarrow> (nat \<Rightarrow> fs_inode) \<Rightarrow> bool" where
  "table_step dn N r N' \<longleftrightarrow> inodes_ok N' \<and>
     (case r of None \<Rightarrow> N' = N \<and> (\<forall>j<MAX_INODES. in_use (N j) \<and> dnode (N j) \<noteq> dn)
      | Some i \<Rightarrow> opened N i N' \<and> dnode (N' i) = dn)"

lemma find_inode_keeps [simp]: "find_inode k dn (Some i) N \<noteq> (None, None)"
  by (induction k arbitrary: i) (auto simp: Let_def)

lemma find_inode_full:
  "find_inode k dn fr N = (None, None) \<Longrightarrow> k \<le> MAX_INODES \<Longrightarrow> MAX_INODES - k \<le> j \<Longrightarrow> j < MAX_INODES \<Longrightarrow> in_use (N j)"
proof (induction k arbitrary: fr)
  case (Suc k)
  then show ?case by (cases "j = MAX_INODES - Suc k") (auto simp: Let_def split: if_splits)
qed simp

lemma fs_open_section:
  assumes "stats_file C dn" and "crowfs_frame C" and ok: "inodes_ok (inodes s)" and c: "cpu_ok (cpu s)" "settled (cpu s) = cpu s"
    and "\<forall>i<MAX_INODES. unat (reference_count (inodes s i)) < 2 ^ 32 - 1"
  shows "\<exists>r s'. table_section C dn parent s = Ok (r, s') \<and>
    table_step dn (inodes s) r (inodes s') \<and> cpu s' = cpu s \<and> inode_list_lock s' = inode_list_lock s"
proof -
  obtain r fr where f: "find_inode MAX_INODES dn None (inodes s) = (r, fr)" by (cases "find_inode MAX_INODES dn None (inodes s)")
  have scan: "fs_open_scan MAX_INODES dn None s = Ok ((r, fr), case r of None \<Rightarrow> s | Some i \<Rightarrow> set_inode i add_reference s)"
    using fs_open_scan_eq [OF c, of MAX_INODES dn None] inodes_okD(1) [OF ok] by (simp add: f)
  consider (found) i where "r = Some i" | (free) i where "r = None" "fr = Some i" | (full) "r = None" "fr = None"
    by (cases r; cases fr) auto
  then show ?thesis
  proof cases
    case found
    with f have i: "i < MAX_INODES" "in_use (inodes s i)" "dnode (inodes s i) = dn" using find_inode_found by blast+
    moreover have "unat (reference_count (inodes s i)) < 2 ^ 32 - 1" using assms(6) i(1) by blast
    ultimately have "inodes_ok ((inodes s)(i := add_reference (inodes s i))) \<and> opened (inodes s) i ((inodes s)(i := add_reference (inodes s i)))"
      using opened_again [OF ok] by blast
    with found scan i(3) show ?thesis by (simp add: table_section_def table_step_def add_reference_def)
  next
    case free
    then have i: "i < MAX_INODES" "\<not> in_use (inodes s i)" using f find_inode_free by blast+
    have "\<forall>j<MAX_INODES. in_use (inodes s j) \<longrightarrow> dnode (inodes s j) \<noteq> dn"
      using find_inode_none [OF f [unfolded free]] by simp
    from fill_inode_ok [OF assms(1,2) ok i this c(1), of parent] obtain s' where
      "fill_inode C i dn parent s = Ok (Some i, s')" "table_step dn (inodes s) (Some i) (inodes s')"
      "cpu s' = cpu s" "inode_list_lock s' = inode_list_lock s" by (auto simp: table_step_def c(2))
    with free scan show ?thesis by (simp add: table_section_def)
  next
    case full
    have "\<forall>j<MAX_INODES. in_use (inodes s j) \<and> dnode (inodes s j) \<noteq> dn"
      using find_inode_none [OF f [unfolded full]] find_inode_full [OF f [unfolded full]] by simp
    with full scan ok show ?thesis by (simp add: table_section_def table_step_def)
  qed
qed

lemma fs_open_ok:
  assumes "fs_ok s" and "crowfs_frame C" and "\<forall>i<MAX_INODES. unat (reference_count (inodes s i)) < 2 ^ 32 - 1"
    and open1: "crowfs_open_relative C path (relative_dnode relative_to s) flags s = Ok ((result, dn, parent), s1)"
    and "stats_file C dn"
  shows "\<exists>r s'. fs_open C path relative_to flags s = Ok (r, s') \<and> fs_ok s' \<and>
    (if result = CROWFS_OK C then table_step dn (inodes s) r (inodes s') else r = None \<and> inodes s' = inodes s)"
proof -
  have c: "cpu_ok (cpu s)" "unat (depth (cpu s)) < 1000" "inodes_ok (inodes s)" "inode_list_lock s = unlocked_lock"
    using assms(1) by (simp_all add: fs_ok_def)
  have "keeps_inodes (crowfs_open_relative C path (relative_dnode relative_to s) flags)"
    using assms(2) by (simp add: crowfs_frame_def)
  then have s1: "inodes s1 = inodes s" "inode_list_lock s1 = unlocked_lock" "cpu s1 = settled (cpu s)"
    using open1 c unfolding keeps_inodes_def by metis+
  have ok1: "fs_ok s1" using c s1 by (simp add: fs_ok_def)
  show ?thesis
  proof (cases "result = CROWFS_OK C")
    case False
    then have "fs_open C path relative_to flags s = Ok (None, s1)" unfolding fs_open_eq using open1 by simp
    with False ok1 s1 show ?thesis by simp
  next
    case True
    let ?s2 = "ill.entered s1"
    have e: "inodes ?s2 = inodes s" "cpu ?s2 = save_and_disable_interrupts (cpu s1)" "inode_list_lock ?s2 = held_lock (cpu s1)"
      by (simp_all add: ill.entered_def s1(1))
    have "cpu_ok (cpu ?s2)" "settled (cpu ?s2) = cpu ?s2"
      using cpu_ok_save [of "cpu s1"] settled_save [of "cpu s1"] c s1 e by simp_all
    then obtain r s3 where sec: "table_section C dn parent ?s2 = Ok (r, s3)"
      and s3: "table_step dn (inodes s) r (inodes s3)" "cpu s3 = cpu ?s2" "inode_list_lock s3 = inode_list_lock ?s2"
      using fs_open_section [OF assms(5,2), of ?s2 parent] c(3) assms(3) e(1) by auto
    let ?s' = "(inode_list_lock_update (\<lambda>_. unlocked_lock) s3)\<lparr>cpu := settled (cpu s1)\<rparr>"
    have "fs_open C path relative_to flags s = Ok (r, ?s')"
      unfolding fs_open_eq using open1 True
        ill.bracket [of s1 "table_section C dn parent", OF _ s1(2) sec] s3 e c(1) s1(3) by simp
    moreover have "fs_ok ?s'" using s3(1) c s1 by (simp add: fs_ok_def table_step_def)
    ultimately show ?thesis using True s3(1) by auto
  qed
qed


text \<open>A library that knows one file, number 5 of 42 bytes, and a machine on which nothing is open.\<close>

definition one_file :: "('d, 'p, 'f, 'z) fs_state_scheme crowfs" where
  "one_file = \<lparr>CROWFS_OK = 0, CROWFS_ERR_LIMIT = 6, CROWFS_O_CREATE = 1, CROWFS_O_DIR = 2, CROWFS_ENTITY_FILE = 1,
     CROWFS_ENTITY_FOLDER = 2, CROWFS_BLOCK_SIZE = 4096,
     crowfs_init = kret 0,
     crowfs_open_relative = (\<lambda>path d flags. kbind (kmodify (\<lambda>s. s\<lparr>cpu := settled (cpu s)\<rparr>)) (\<lambda>_. kret (0, 5, 1))),
     crowfs_stat_of = (\<lambda>d. kbind (kmodify (\<lambda>s. s\<lparr>cpu := settled (cpu s)\<rparr>)) (\<lambda>_.
       kret (0, \<lparr>stat_type = 1, stat_creation_date = 0, stat_size = 42, stat_name = []\<rparr>))),
     crowfs_write = (\<lambda>d b l off. kbind (kmodify (\<lambda>s. s\<lparr>cpu := settled (cpu s)\<rparr>)) (\<lambda>_. kret 0)),
     crowfs_read = (\<lambda>d b l off. kbind (kmodify (\<lambda>s. s\<lparr>cpu := settled (cpu s)\<rparr>)) (\<lambda>_. kret 0)),
     crowfs_delete = (\<lambda>d p. kret 0),
     crowfs_read_dir = (\<lambda>d off. kret (6, \<lparr>stat_type = 0, stat_creation_date = 0, stat_size = 0, stat_name = []\<rparr>))\<rparr>"

definition empty_inode :: fs_inode where
  "empty_inode = \<lparr>ilock = unlocked_lock, itype = INODE_EMPTY, dnode = 0, parent_dnode = 0, isize = 0, reference_count = 0\<rparr>"

definition fs_machine :: "(unit, u64, unit) fs_state" where
  "fs_machine = fb_state.extend screen_machine (fs_state.fields () 1 (\<lambda>_. empty_inode) unlocked_lock)"

lemma fs_machine_simps [simp]:
  "inodes fs_machine = (\<lambda>_. empty_inode)" "inode_list_lock fs_machine = unlocked_lock" "cpu fs_machine = boot_cpu"
  "root_dnode fs_machine = 1" "mem fs_machine = mem screen_machine"
  by (simp_all add: fs_machine_def fb_state.defs fs_state.defs screen_machine_def rtc_state.defs counting_rtc_def console.defs kernel.defs boot_kernel_def)

lemma fs_ok_fs_machine: "fs_ok fs_machine"
  by (simp add: fs_ok_def inodes_ok_def empty_inode_def in_use_def boot_cpu_def cpu_ok_def)

lemma one_file_frame: "crowfs_frame one_file" and one_file_stats: "stats_file one_file dn"
  by (simp_all add: crowfs_frame_def keeps_inodes_def one_file_def stats_file_def)


text \<open>
  C20. \<open>fs_close\<close> takes back one opening: it returns with the count of the file one lower and all
  other counts kept, the table well-formed, and the slot free again exactly when that was the last
  reference.
\<close>

theorem fs_close_refines:
  assumes "fs_ok s" and "i < MAX_INODES" and "in_use (inodes s i)"
  shows "\<exists>s'. fs_close i s = Ok ((), s') \<and> fs_ok s' \<and>
    open_count (inodes s') = (open_count (inodes s))(dnode (inodes s i) := open_count (inodes s) (dnode (inodes s i)) - 1) \<and>
    (in_use (inodes s' i) \<longleftrightarrow> reference_count (inodes s i) \<noteq> 1)"
proof -
  have c: "cpu_ok (cpu s)" "unat (depth (cpu s)) < 1000" "inodes_ok (inodes s)" "inode_list_lock s = unlocked_lock"
    using assms(1) by (simp_all add: fs_ok_def)
  have "fs_close i s = Ok ((), (set_inode i drop_reference s)\<lparr>cpu := settled (cpu s)\<rparr>)"
    by (rule fs_close_eq [OF c(1) inodes_okD(1) [OF c(3) assms(2)]])
  moreover have "in_use (drop_reference (inodes s i)) \<longleftrightarrow> reference_count (inodes s i) \<noteq> 1"
    using assms(3) by (simp add: drop_reference_def in_use_def Let_def)
  ultimately show ?thesis using closed_once [OF c(3) assms(2,3)] c by (simp add: fs_ok_def)
qed

definition used_machine :: "(unit, u64, unit) fs_state" where
  "used_machine = fs_machine\<lparr>inodes := (\<lambda>_. empty_inode)(3 := empty_inode\<lparr>itype := INODE_FILE, dnode := 5, reference_count := 1\<rparr>)\<rparr>"

lemma fs_ok_used_machine: "fs_ok used_machine"
  by (simp add: used_machine_def fs_ok_def inodes_ok_def empty_inode_def in_use_def boot_cpu_def cpu_ok_def)

theorem fs_close_refines_witness:
  "\<exists>s'. fs_close 3 used_machine = Ok ((), s') \<and> fs_ok s' \<and> open_count (inodes s') 5 = open_count (inodes used_machine) 5 - 1 \<and>
    \<not> in_use (inodes s' 3)"
  using fs_close_refines [OF fs_ok_used_machine, of 3]
  by (simp add: used_machine_def in_use_def MAX_INODES_def) (metis fun_upd_same)

end
