(* ===== verification/Pic.thy ===== *)
theory Pic
  imports Fs
begin

text \<open>
  The interrupt controllers, \<^verbatim>\<open>src/kernel/device/pic.c\<close>, and the model-specific registers
  of the core (\<^verbatim>\<open>src/kernel/cpu/asm.h\<close>). The controllers are hardware: a value of any
  type \<open>'a\<close>, and what a 32-bit store to or load from one of their addresses does.
\<close>

section \<open>State\<close>

record ('d, 'p, 'f, 'a) apic_state = "('d, 'p, 'f) fs_state" +
  apic_dev :: 'a
  apic_store :: "u64 \<Rightarrow> u32 \<Rightarrow> 'a \<Rightarrow> 'a"
  apic_load :: "u64 \<Rightarrow> 'a \<Rightarrow> u32 \<times> 'a"
  ioapic :: u64
  msr :: "u32 \<Rightarrow> u64"

definition rdmsr :: "u32 \<Rightarrow> (('d, 'p, 'f, 'a, 'z) apic_state_scheme, u64) kern" where
  "rdmsr r = kgets (\<lambda>s. msr s r)"

definition wrmsr :: "u32 \<Rightarrow> u64 \<Rightarrow> (('d, 'p, 'f, 'a, 'z) apic_state_scheme, unit) kern" where
  "wrmsr r v = kmodify (\<lambda>s. s\<lparr>msr := (msr s)(r := v)\<rparr>)"

definition mmio_store :: "u64 \<Rightarrow> u32 \<Rightarrow> (('d, 'p, 'f, 'a, 'z) apic_state_scheme, unit) kern" where
  "mmio_store a v = kmodify (\<lambda>s. s\<lparr>apic_dev := apic_store s a v (apic_dev s)\<rparr>)"

definition mmio_load :: "u64 \<Rightarrow> (('d, 'p, 'f, 'a, 'z) apic_state_scheme, u32) kern" where
  "mmio_load a s = (let (v, d) = apic_load s a (apic_dev s) in Ok (v, s\<lparr>apic_dev := d\<rparr>))"

section \<open>IO APIC\<close>

definition IOAPIC :: u64 where
  "IOAPIC = 0xFEC00000"

definition REG_VER :: u32 where
  "REG_VER = 1"

definition REG_TABLE :: u32 where
  "REG_TABLE = 0x10"

definition INT_DISABLED :: u32 where
  "INT_DISABLED = 0x00010000"

definition T_IRQ0 :: u32 where
  "T_IRQ0 = 32"

definition IRQ_COM1 :: u32 where
  "IRQ_COM1 = 4"

text \<open>\<open>reg\<close> is at offset 0 of the registers of the controller, \<open>data\<close> at 16.\<close>

definition ioapic_read :: "u32 \<Rightarrow> (('d, 'p, 'f, 'a, 'z) apic_state_scheme, u32) kern" where
  "ioapic_read reg =
     kbind (kgets ioapic) (\<lambda>io.
     kbind (mmio_store io reg) (\<lambda>_.
     mmio_load (io + 16)))"

definition ioapic_write :: "u32 \<Rightarrow> u32 \<Rightarrow> (('d, 'p, 'f, 'a, 'z) apic_state_scheme, unit) kern" where
  "ioapic_write reg data =
     kbind (kgets ioapic) (\<lambda>io.
     kbind (mmio_store io reg) (\<lambda>_.
     mmio_store (io + 16) data))"

primrec ioapic_init_loop :: "nat \<Rightarrow> u32 \<Rightarrow> (('d, 'p, 'f, 'a, 'z) apic_state_scheme, unit) kern" where
  "ioapic_init_loop 0 i = kret ()"
| "ioapic_init_loop (Suc k) i =
     kbind (ioapic_write (REG_TABLE + 2 * i) (INT_DISABLED OR (T_IRQ0 + i))) (\<lambda>_.
     kbind (ioapic_write (REG_TABLE + 2 * i + 1) 0) (\<lambda>_.
     ioapic_init_loop k (i + 1)))"

definition ioapic_init :: "(('d, 'p, 'f, 'a, 'z) apic_state_scheme, unit) kern" where
  "ioapic_init =
     kbind (kmodify (\<lambda>s. s\<lparr>ioapic := P2V s IOAPIC\<rparr>)) (\<lambda>_.
     kbind (ioapic_read REG_VER) (\<lambda>v.
     ioapic_init_loop (unat (drop_bit 16 v AND 0xFF) + 1) 0))"

definition ioapic_enable :: "u32 \<Rightarrow> u32 \<Rightarrow> (('d, 'p, 'f, 'a, 'z) apic_state_scheme, unit) kern" where
  "ioapic_enable irq cpunum =
     kbind (ioapic_write (REG_TABLE + 2 * irq) (T_IRQ0 + irq)) (\<lambda>_.
     ioapic_write (REG_TABLE + 2 * irq + 1) (push_bit 24 cpunum))"

section \<open>Local APIC\<close>

definition IA32_APIC_BASE_MSR :: u32 where
  "IA32_APIC_BASE_MSR = 0x1B"

text \<open>Registers are numbered as elements of an array of 32-bit values.\<close>

definition LAPIC_ID :: u64 where
  "LAPIC_ID = 0x0020 div 4"

definition LAPIC_EOI :: u64 where
  "LAPIC_EOI = 0x00B0 div 4"

definition lapic_write :: "u64 \<Rightarrow> u32 \<Rightarrow> (('d, 'p, 'f, 'a, 'z) apic_state_scheme, unit) kern" where
  "lapic_write index value =
     kbind (kgets (\<lambda>s. lapic (cpu s))) (\<lambda>lapic.
     kbind (mmio_store (lapic + 4 * index) value) (\<lambda>_.
     kbind (mmio_load (lapic + 4 * LAPIC_ID)) (\<lambda>_. kret ())))"

definition cpu_get_apic_base :: "(('d, 'p, 'f, 'a, 'z) apic_state_scheme, u64) kern" where
  "cpu_get_apic_base = kbind (rdmsr IA32_APIC_BASE_MSR) (\<lambda>msr. kret (msr AND 0xfffff000))"

definition lapic_init :: "(('d, 'p, 'f, 'a, 'z) apic_state_scheme, unit) kern" where
  "lapic_init =
     kbind cpu_get_apic_base (\<lambda>base.
     kmodify (\<lambda>s. s\<lparr>cpu := (cpu s)\<lparr>lapic := P2V s base\<rparr>\<rparr>))"

definition lapic_send_eoi :: "(('d, 'p, 'f, 'a, 'z) apic_state_scheme, unit) kern" where
  "lapic_send_eoi = lapic_write LAPIC_EOI 0"

definition serial_init_interrupt :: "(('d, 'p, 'f, 'a, 'z) apic_state_scheme, unit) kern" where
  "serial_init_interrupt =
     kbind (inb (PORT + 2)) (\<lambda>_.
     kbind (inb (PORT + 0)) (\<lambda>_.
     ioapic_enable IRQ_COM1 0))"

section \<open>An indirect register file\<close>

text \<open>
  What the code relies on of an IO APIC: a store to the first address selects a register, and the
  data address reads and writes the register that is selected. \<open>regs\<close> reads the registers of the
  device.
\<close>

definition indirect_registers ::
  "('a \<Rightarrow> u32 \<Rightarrow> u32) \<Rightarrow> ('a \<Rightarrow> u32) \<Rightarrow> u64 \<Rightarrow> (u64 \<Rightarrow> u32 \<Rightarrow> 'a \<Rightarrow> 'a) \<Rightarrow> (u64 \<Rightarrow> 'a \<Rightarrow> u32 \<times> 'a) \<Rightarrow> bool" where
  "indirect_registers regs sel io st ld \<longleftrightarrow>
     (\<forall>d r. sel (st io r d) = r \<and> regs (st io r d) = regs d) \<and>
     (\<forall>d v. sel d \<noteq> REG_VER \<longrightarrow> regs (st (io + 16) v d) = (regs d)(sel d := v)) \<and>
     (\<forall>d. ld (io + 16) d = (regs d (sel d), d))"

definition redirection :: "(u32 \<Rightarrow> u32) \<Rightarrow> nat \<Rightarrow> u32 \<times> u32" where
  "redirection r i = (r (REG_TABLE + 2 * of_nat i), r (REG_TABLE + 2 * of_nat i + 1))"

definition masked_entry :: "nat \<Rightarrow> u32 \<times> u32" where
  "masked_entry i = (INT_DISABLED OR (T_IRQ0 + of_nat i), 0)"

lemma ioapic_write_regs:
  assumes "indirect_registers regs sel (ioapic s) (apic_store s) (apic_load s)" and "r \<noteq> REG_VER"
  obtains d where "ioapic_write r v s = Ok ((), s\<lparr>apic_dev := d\<rparr>)" and "regs d = (regs (apic_dev s))(r := v)"
proof
  let ?d = "apic_store s (ioapic s + 16) v (apic_store s (ioapic s) r (apic_dev s))"
  show "ioapic_write r v s = Ok ((), s\<lparr>apic_dev := ?d\<rparr>)" by (simp add: ioapic_write_def mmio_store_def)
  show "regs ?d = (regs (apic_dev s))(r := v)" using assms by (simp add: indirect_registers_def)
qed

lemma ioapic_read_regs:
  assumes "indirect_registers regs sel (ioapic s) (apic_store s) (apic_load s)"
  obtains d where "ioapic_read r s = Ok (regs (apic_dev s) r, s\<lparr>apic_dev := d\<rparr>)" and "regs d = regs (apic_dev s)"
proof
  let ?d = "apic_store s (ioapic s) r (apic_dev s)"
  show "ioapic_read r s = Ok (regs (apic_dev s) r, s\<lparr>apic_dev := ?d\<rparr>)" and "regs ?d = regs (apic_dev s)"
    using assms by (simp_all add: ioapic_read_def mmio_store_def mmio_load_def indirect_registers_def)
qed

lemma entry_register:
  assumes "j \<le> 256"
  shows "unat (REG_TABLE + 2 * of_nat j) = 16 + 2 * j" and "unat (REG_TABLE + 2 * of_nat j + 1) = 17 + 2 * j"
  using assms by (simp_all add: REG_TABLE_def unat_word_ariths unat_of_nat take_bit_nat_def)

lemma register_neq: "unat a \<noteq> unat b \<Longrightarrow> a \<noteq> b"
  by auto

lemma redirection_update:
  assumes "i \<le> 256" and "j \<le> 256"
  shows "redirection (r(REG_TABLE + 2 * of_nat i := x, REG_TABLE + 2 * of_nat i + 1 := y)) j =
    (if i = j then (x, y) else redirection r j)"
proof -
  have "(17::nat) + 2 * i \<noteq> 16 + 2 * j" by presburger
  moreover have "(16::nat) + 2 * i \<noteq> 17 + 2 * j" by presburger
  ultimately show ?thesis
    using entry_register [OF assms(1)] entry_register [OF assms(2)]
    by (simp add: redirection_def word_unat_eq_iff)
qed

lemma ioapic_init_loop_masks:
  assumes "i + k \<le> 256" and "indirect_registers regs sel (ioapic s) (apic_store s) (apic_load s)"
  shows "\<exists>d. ioapic_init_loop k (of_nat i) s = Ok ((), s\<lparr>apic_dev := d\<rparr>) \<and>
    (\<forall>j\<le>256. redirection (regs d) j = (if i \<le> j \<and> j < i + k then masked_entry j else redirection (regs (apic_dev s)) j))"
  using assms
proof (induction k arbitrary: i s)
  case 0
  have "s = s\<lparr>apic_dev := apic_dev s\<rparr>" by (cases s) simp
  then show ?case by (intro exI [of _ "apic_dev s"]) auto
next
  case (Suc k)
  have le: "i \<le> 256" using Suc.prems by simp
  have lo: "REG_TABLE + 2 * of_nat i \<noteq> REG_VER" and hi: "REG_TABLE + 2 * of_nat i + 1 \<noteq> REG_VER"
    using entry_register [OF le] by (intro register_neq, simp add: REG_VER_def)+
  obtain d1 where w1: "ioapic_write (REG_TABLE + 2 * of_nat i) (INT_DISABLED OR (T_IRQ0 + of_nat i)) s = Ok ((), s\<lparr>apic_dev := d1\<rparr>)"
    and r1: "regs d1 = (regs (apic_dev s))(REG_TABLE + 2 * of_nat i := INT_DISABLED OR (T_IRQ0 + of_nat i))"
    using ioapic_write_regs [OF Suc.prems(2) lo] by blast
  obtain d2 where w2: "ioapic_write (REG_TABLE + 2 * of_nat i + 1) 0 (s\<lparr>apic_dev := d1\<rparr>) = Ok ((), s\<lparr>apic_dev := d2\<rparr>)"
    and r2: "regs d2 = (regs d1)(REG_TABLE + 2 * of_nat i + 1 := 0)"
    by (rule ioapic_write_regs [OF _ hi, of regs sel "s\<lparr>apic_dev := d1\<rparr>" 0]) (use Suc.prems(2) in simp_all)
  have red: "redirection (regs d2) j = (if i = j then masked_entry i else redirection (regs (apic_dev s)) j)" if "j \<le> 256" for j
    unfolding r2 r1 redirection_update [OF le that] by (simp add: masked_entry_def)
  obtain d where "ioapic_init_loop k (of_nat (Suc i)) (s\<lparr>apic_dev := d2\<rparr>) = Ok ((), s\<lparr>apic_dev := d\<rparr>)"
    and d: "\<forall>j\<le>256. redirection (regs d) j = (if Suc i \<le> j \<and> j < Suc i + k then masked_entry j else redirection (regs d2) j)"
    using Suc.IH [of "Suc i" "s\<lparr>apic_dev := d2\<rparr>"] Suc.prems by auto
  then have "ioapic_init_loop (Suc k) (of_nat i) s = Ok ((), s\<lparr>apic_dev := d\<rparr>)"
    using w1 w2 by (simp add: add.commute)
  moreover have "\<forall>j\<le>256. redirection (regs d) j = (if i \<le> j \<and> j < i + Suc k then masked_entry j else redirection (regs (apic_dev s)) j)"
    using d red by auto
  ultimately show ?case by blast
qed

section \<open>Properties\<close>


text \<open>A controller with 24 lines: the register that is selected, and the registers.\<close>

definition small_ioapic :: "(unit, u64, unit, u32 \<times> (u32 \<Rightarrow> u32)) apic_state" where
  "small_ioapic = fs_state.extend fs_machine (apic_state.fields (0, (\<lambda>_. 0)(REG_VER := 0x00170011))
     (\<lambda>a v (sel, r). if a = 0xFFFF8000FEC00000 then (v, r) else if sel = REG_VER then (sel, r) else (sel, r(sel := v)))
     (\<lambda>a (sel, r). (r sel, (sel, r))) 0 (\<lambda>_. 0))"


end
