(* ===== verification/Proc.thy ===== *)
theory Proc
  imports Pic Vmm_User
begin

text \<open>
  Processes, \<^verbatim>\<open>src/kernel/userspace/proc.c\<close>, with the condition variables of
  \<^verbatim>\<open>src/kernel/common/condvar.c\<close> and the traps of \<^verbatim>\<open>src/kernel/cpu/trap.c\<close>.
  A routine that gives up the core does not return in the run of its process: it says so in its
  result, and leaves in the process what the kernel does when the process is switched to again.
\<close>

section \<open>State\<close>

datatype process_state = UNUSED | USED | SLEEPING | RUNNABLE | RUNNING | EXITED

datatype fd_type = FD_EMPTY | FD_INODE | FD_DEVICE

text \<open>A union of a pointer to an inode and the number of a device.\<close>

datatype fd_structures = Inode "nat option" | Device u32

record process_file =
  fd_type :: fd_type
  structures :: fd_structures
  offset :: u32
  fd_readble :: bool
  fd_writable :: bool

record process_data =
  gs_base :: u64
  fpu_state :: "u8 list"

text \<open>What a process waits for: a pointer to the lock of a condition variable.\<close>

datatype condvar = SerialCond | ProcessCond nat

text \<open>
  A saved stack pointer stands for what the stack below it holds: the context that \<open>proc_exec\<close> wrote,
  or the kernel code that called \<open>scheduler_switch_back\<close>, one of the places below.
\<close>

datatype stack_pointer =
    StackAt u64
  | InWait nat
  | InRead u64 u64
  | InSleep u64
  | InYield
  | InExit

record process =
  pid :: u64
  resume_stack_pointer :: stack_pointer
  pagetable :: u64
  open_files :: "process_file list"
  initial_data_segment :: u64
  current_sbrk :: u64
  working_directory :: "nat option"
  additional_data :: process_data
  plock :: spinlock
  waiting_channel :: "condvar option"
  exit_status :: u32
  pstate :: process_state

definition MAX_PROCESSES :: nat where
  "MAX_PROCESSES = 64"

definition MAX_OPEN_FILES :: nat where
  "MAX_OPEN_FILES = 16"

text \<open>
  The process table, the registers of the floating point unit, and the ring of input bytes of the
  serial port with its condition variable.
\<close>

record ('d, 'p, 'f, 'a) proc_state = "('d, 'p, 'f, 'a) apic_state" +
  next_pid :: u64
  processes :: "nat \<Rightarrow> process"
  fpu :: "u8 list"
  serial_input_buffer :: "u8 list"
  serial_input_buffer_read_index :: u8
  serial_input_buffer_write_index :: u8
  serial_input_buffer_condvar :: spinlock

definition set_proc ::
  "nat \<Rightarrow> (process \<Rightarrow> process) \<Rightarrow> ('d, 'p, 'f, 'a, 'z) proc_state_scheme \<Rightarrow> ('d, 'p, 'f, 'a, 'z) proc_state_scheme" where
  "set_proc i f s = s\<lparr>processes := (processes s)(i := f (processes s i))\<rparr>"

text \<open>The result of a routine that may give up the core.\<close>

datatype 'r control = Return 'r | Switched

section \<open>Condition variables\<close>

definition cond_lock :: "condvar \<Rightarrow> ('d, 'p, 'f, 'a, 'z) proc_state_scheme \<Rightarrow> spinlock" where
  "cond_lock c s = (case c of SerialCond \<Rightarrow> serial_input_buffer_condvar s | ProcessCond i \<Rightarrow> plock (processes s i))"

definition cond_lock_update ::
  "condvar \<Rightarrow> (spinlock \<Rightarrow> spinlock) \<Rightarrow> ('d, 'p, 'f, 'a, 'z) proc_state_scheme \<Rightarrow> ('d, 'p, 'f, 'a, 'z) proc_state_scheme" where
  "cond_lock_update c f s =
     (case c of SerialCond \<Rightarrow> serial_input_buffer_condvar_update f s | ProcessCond i \<Rightarrow> set_proc i (plock_update f) s)"

definition condvar_lock :: "condvar \<Rightarrow> (('d, 'p, 'f, 'a, 'z) proc_state_scheme, unit) kern" where
  "condvar_lock c = klock (cond_lock c) (cond_lock_update c)"

definition condvar_unlock :: "condvar \<Rightarrow> (('d, 'p, 'f, 'a, 'z) proc_state_scheme, unit) kern" where
  "condvar_unlock c = kunlock (cond_lock c) (cond_lock_update c)"

text \<open>The running process of this core; a \<open>NULL\<close> that is dereferenced is undefined.\<close>

definition my_process :: "('d, 'p, 'f, 'a, 'z) proc_state_scheme \<Rightarrow> nat option" where
  "my_process s = running_process (cpu s)"

definition the_process :: "(nat \<Rightarrow> (('d, 'p, 'f, 'a, 'z) proc_state_scheme, 'r) kern) \<Rightarrow> (('d, 'p, 'f, 'a, 'z) proc_state_scheme, 'r) kern" where
  "the_process f = kbind (kgets my_process) (\<lambda>p. case p of None \<Rightarrow> kundef | Some i \<Rightarrow> f i)"

definition my_process_unlock :: "(('d, 'p, 'f, 'a, 'z) proc_state_scheme, unit) kern" where
  "my_process_unlock = the_process (\<lambda>p. condvar_unlock (ProcessCond p))"

text \<open>
  \<open>context_switch\<close> to the scheduler saves the stack pointer in the process; \<open>here\<close> is the place it is
  called from.
\<close>

definition scheduler_switch_back :: "stack_pointer \<Rightarrow> (('d, 'p, 'f, 'a, 'z) proc_state_scheme, unit) kern" where
  "scheduler_switch_back here =
     the_process (\<lambda>p.
     kbind (kgets (\<lambda>s. processes s p)) (\<lambda>proc.
     kbind (kassert (spinlock_locked (plock proc)) ''scheduler_switch_back: not locked'') (\<lambda>_.
     kbind (kassert (pstate proc \<noteq> RUNNING) ''scheduler_switch_back: RUNNING'') (\<lambda>_.
     kmodify (set_proc p (resume_stack_pointer_update (\<lambda>_. here)))))))"

text \<open>\<open>condvar_wait\<close> up to the switch, and from the return of the switch on.\<close>

definition condvar_wait :: "condvar \<Rightarrow> stack_pointer \<Rightarrow> (('d, 'p, 'f, 'a, 'z) proc_state_scheme, unit) kern" where
  "condvar_wait cond here =
     kbind (kgets my_process) (\<lambda>proc.
     case proc of None \<Rightarrow> kpanic ''condvar_wait: proc'' | Some p \<Rightarrow>
     kbind (condvar_lock (ProcessCond p)) (\<lambda>_.
     kbind (condvar_unlock cond) (\<lambda>_.
     kbind (kmodify (set_proc p (\<lambda>q. q\<lparr>pstate := SLEEPING, waiting_channel := Some cond\<rparr>))) (\<lambda>_.
     scheduler_switch_back here))))"

definition condvar_wait_resume :: "condvar \<Rightarrow> (('d, 'p, 'f, 'a, 'z) proc_state_scheme, unit) kern" where
  "condvar_wait_resume cond =
     the_process (\<lambda>p.
     kbind (condvar_unlock (ProcessCond p)) (\<lambda>_.
     condvar_lock cond))"

primrec proc_wakeup_loop :: "nat \<Rightarrow> condvar \<Rightarrow> bool \<Rightarrow> (('d, 'p, 'f, 'a, 'z) proc_state_scheme, unit) kern" where
  "proc_wakeup_loop 0 channel everyone = kret ()"
| "proc_wakeup_loop (Suc k) channel everyone =
     (let i = MAX_PROCESSES - Suc k in
      kbind (kgets my_process) (\<lambda>p.
      if p = Some i then proc_wakeup_loop k channel everyone else
      kbind (condvar_lock (ProcessCond i)) (\<lambda>_.
      kbind (kgets (\<lambda>s. processes s i)) (\<lambda>proc.
      let found = (pstate proc = SLEEPING \<and> waiting_channel proc = Some channel) in
      kbind (if found then kmodify (set_proc i (pstate_update (\<lambda>_. RUNNABLE))) else kret ()) (\<lambda>_.
      kbind (condvar_unlock (ProcessCond i)) (\<lambda>_.
      if found \<and> \<not> everyone then kret () else proc_wakeup_loop k channel everyone))))))"

definition proc_wakeup :: "condvar \<Rightarrow> bool \<Rightarrow> (('d, 'p, 'f, 'a, 'z) proc_state_scheme, unit) kern" where
  "proc_wakeup channel everyone = proc_wakeup_loop MAX_PROCESSES channel everyone"

definition condvar_notify :: "condvar \<Rightarrow> (('d, 'p, 'f, 'a, 'z) proc_state_scheme, unit) kern" where
  "condvar_notify cond = proc_wakeup cond False"

definition condvar_notify_all :: "condvar \<Rightarrow> (('d, 'p, 'f, 'a, 'z) proc_state_scheme, unit) kern" where
  "condvar_notify_all cond = proc_wakeup cond True"

section \<open>Processes\<close>

definition get_next_pid :: "(('d, 'p, 'f, 'a, 'z) proc_state_scheme, u64) kern" where
  "get_next_pid s = Ok (next_pid s, s\<lparr>next_pid := next_pid s + 1\<rparr>)"

definition no_data :: process_data where
  "no_data = \<lparr>gs_base = 0, fpu_state = replicate 512 0\<rparr>"

text \<open>The search for a free slot; a slot that is found stays locked.\<close>

primrec find_slot :: "nat \<Rightarrow> (process \<Rightarrow> bool) \<Rightarrow> (('d, 'p, 'f, 'a, 'z) proc_state_scheme, nat option) kern" where
  "find_slot 0 P = kret None"
| "find_slot (Suc k) P =
     (let i = MAX_PROCESSES - Suc k in
      kbind (condvar_lock (ProcessCond i)) (\<lambda>_.
      kbind (kgets (\<lambda>s. processes s i)) (\<lambda>proc.
      if P proc then kret (Some i)
      else kbind (condvar_unlock (ProcessCond i)) (\<lambda>_. find_slot k P))))"

definition proc_allocate :: "(('d, 'p, 'f, 'a, 'z) proc_state_scheme, nat option) kern" where
  "proc_allocate =
     kbind (find_slot MAX_PROCESSES (\<lambda>p. pstate p = UNUSED)) (\<lambda>slot.
     case slot of None \<Rightarrow> kret None | Some i \<Rightarrow>
     kbind get_next_pid (\<lambda>new_pid.
     kbind (kmodify (set_proc i (\<lambda>p. p\<lparr>pstate := USED, pid := new_pid, exit_status := -1\<rparr>))) (\<lambda>_.
     kbind (condvar_unlock (ProcessCond i)) (\<lambda>_.
     kbind vmm_user_pagetable_new (\<lambda>pt.
     kbind (kmodify (set_proc i (pagetable_update (\<lambda>_. pt)))) (\<lambda>_.
     if pt = 0
     then kbind (kmodify (set_proc i (\<lambda>p. p\<lparr>pstate := UNUSED, pid := 0\<rparr>))) (\<lambda>_. kret None)
     else kbind (kmodify (set_proc i (\<lambda>p. p\<lparr>current_sbrk := 0, initial_data_segment := 0, additional_data := no_data\<rparr>))) (\<lambda>_.
          kret (Some i))))))))"

text \<open>The first free descriptor from \<open>fd\<close> on, or -1.\<close>

primrec free_fd :: "process_file list \<Rightarrow> u32 \<Rightarrow> u32" where
  "free_fd [] fd = -1"
| "free_fd (f # fs) fd = (if fd_type f = FD_EMPTY then fd else free_fd fs (fd + 1))"

definition proc_allocate_fd :: "(('d, 'p, 'f, 'a, 'z) proc_state_scheme, u32) kern" where
  "proc_allocate_fd =
     kbind (kgets my_process) (\<lambda>p.
     case p of None \<Rightarrow> kpanic ''proc_allocate_fd: no process'' | Some i \<Rightarrow>
     kgets (\<lambda>s. free_fd (open_files (processes s i)) 0))"

definition set_file ::
  "nat \<Rightarrow> nat \<Rightarrow> (process_file \<Rightarrow> process_file) \<Rightarrow> ('d, 'p, 'f, 'a, 'z) proc_state_scheme \<Rightarrow> ('d, 'p, 'f, 'a, 'z) proc_state_scheme" where
  "set_file p fd f = set_proc p (open_files_update (\<lambda>fs. fs[fd := f (fs ! fd)]))"

text \<open>\<open>fs_close\<close> on the pointer of a descriptor.\<close>

definition close_inode :: "fd_structures \<Rightarrow> (('d, 'p, 'f, 'z) fs_state_scheme, unit) kern" where
  "close_inode st = (case st of Inode (Some n) \<Rightarrow> fs_close n | _ \<Rightarrow> kundef)"

primrec close_files :: "nat \<Rightarrow> nat \<Rightarrow> (('d, 'p, 'f, 'a, 'z) proc_state_scheme, unit) kern" where
  "close_files 0 p = kret ()"
| "close_files (Suc k) p =
     (let i = MAX_OPEN_FILES - Suc k in
      kbind (kgets (\<lambda>s. open_files (processes s p) ! i)) (\<lambda>f.
      kbind (if fd_type f = FD_INODE
             then kbind (close_inode (structures f)) (\<lambda>_. kmodify (set_file p i (fd_type_update (\<lambda>_. FD_EMPTY))))
             else kret ()) (\<lambda>_.
      close_files k p)))"

definition proc_exit :: "u32 \<Rightarrow> (('d, 'p, 'f, 'a, 'z) proc_state_scheme, u64 control) kern" where
  "proc_exit exit_code =
     the_process (\<lambda>p.
     kbind (close_files MAX_OPEN_FILES p) (\<lambda>_.
     kbind (condvar_lock (ProcessCond p)) (\<lambda>_.
     kbind (kmodify (set_proc p (exit_status_update (\<lambda>_. exit_code)))) (\<lambda>_.
     kbind (condvar_notify_all (ProcessCond p)) (\<lambda>_.
     kbind (kmodify (set_proc p (pstate_update (\<lambda>_. EXITED)))) (\<lambda>_.
     kbind (scheduler_switch_back InExit) (\<lambda>_. kret Switched)))))))"

text \<open>
  The loop of \<open>proc_wait\<close>, at its condition: it ends with the exit status, or waits and is at its
  condition again when the process runs the next time.
\<close>

definition proc_wait_loop :: "nat \<Rightarrow> (('d, 'p, 'f, 'a, 'z) proc_state_scheme, u32 control) kern" where
  "proc_wait_loop target =
     kbind (kgets (\<lambda>s. processes s target)) (\<lambda>proc.
     if pstate proc \<noteq> EXITED
     then kbind (condvar_wait (ProcessCond target) (InWait target)) (\<lambda>_. kret Switched)
     else kbind (condvar_unlock (ProcessCond target)) (\<lambda>_. kret (Return (exit_status proc))))"

definition proc_wait :: "u64 \<Rightarrow> (('d, 'p, 'f, 'a, 'z) proc_state_scheme, u32 control) kern" where
  "proc_wait target_pid =
     kbind (find_slot MAX_PROCESSES (\<lambda>p. pid p = target_pid)) (\<lambda>slot.
     case slot of None \<Rightarrow> kret (Return (-1)) | Some target \<Rightarrow> proc_wait_loop target)"

definition proc_sbrk :: "u64 \<Rightarrow> (('d, 'p, 'f, 'a, 'z) proc_state_scheme, u64) kern" where
  "proc_sbrk how_much =
     the_process (\<lambda>i.
     kbind (kgets (\<lambda>s. processes s i)) (\<lambda>p.
     let before = current_sbrk p in
     kbind (if 0 < sint how_much
            then kbind (vmm_user_sbrk_allocate (pagetable p) before how_much) (\<lambda>b.
                 kmodify (set_proc i (current_sbrk_update (\<lambda>_. b))))
            else if sint how_much < 0
            then let how_much = (if initial_data_segment p \<le> before + how_much
                                 then initial_data_segment p - before else how_much) in
                 kbind (vmm_user_sbrk_deallocate (pagetable p) before (- how_much)) (\<lambda>b.
                 kmodify (set_proc i (current_sbrk_update (\<lambda>_. b))))
            else kret ()) (\<lambda>_.
     kret before)))"

text \<open>The loop of \<open>sys_sleep\<close>, at its condition.\<close>

definition sys_sleep_loop :: "u64 \<Rightarrow> (('d, 'p, 'f, 'a, 'z) proc_state_scheme, unit control) kern" where
  "sys_sleep_loop target_epoch_wakeup =
     kbind rtc_now (\<lambda>now.
     the_process (\<lambda>p.
     if now < target_epoch_wakeup
     then kbind (kmodify (set_proc p (pstate_update (\<lambda>_. RUNNABLE)))) (\<lambda>_.
          kbind (scheduler_switch_back (InSleep target_epoch_wakeup)) (\<lambda>_. kret Switched))
     else kbind (condvar_unlock (ProcessCond p)) (\<lambda>_. kret (Return ()))))"

definition sys_sleep :: "u64 \<Rightarrow> (('d, 'p, 'f, 'a, 'z) proc_state_scheme, unit control) kern" where
  "sys_sleep msec =
     kbind rtc_now (\<lambda>now.
     the_process (\<lambda>p.
     kbind (condvar_lock (ProcessCond p)) (\<lambda>_.
     sys_sleep_loop (now + msec))))"

section \<open>The ring of the serial port\<close>

definition SERIAL_BUFFER_LENGTH :: nat where
  "SERIAL_BUFFER_LENGTH = 128"

text \<open>\<open>(index + 1) % SERIAL_BUFFER_LENGTH\<close>, computed as an int and stored in 8 bits.\<close>

definition ring_next :: "u8 \<Rightarrow> u8" where
  "ring_next i = of_nat ((unat i + 1) mod SERIAL_BUFFER_LENGTH)"

definition ring_full :: "('d, 'p, 'f, 'a, 'z) proc_state_scheme \<Rightarrow> bool" where
  "ring_full s \<longleftrightarrow> ring_next (serial_input_buffer_write_index s) = serial_input_buffer_read_index s"

definition ring_put :: "u8 \<Rightarrow> ('d, 'p, 'f, 'a, 'z) proc_state_scheme \<Rightarrow> ('d, 'p, 'f, 'a, 'z) proc_state_scheme" where
  "ring_put c s =
     (let w = serial_input_buffer_write_index s
      in s\<lparr>serial_input_buffer := (serial_input_buffer s)[unat w := c], serial_input_buffer_write_index := ring_next w\<rparr>)"

definition ring_first :: "('d, 'p, 'f, 'a, 'z) proc_state_scheme \<Rightarrow> u8" where
  "ring_first s = serial_input_buffer s ! unat (serial_input_buffer_read_index s)"

definition ring_rest :: "('d, 'p, 'f, 'a, 'z) proc_state_scheme \<Rightarrow> ('d, 'p, 'f, 'a, 'z) proc_state_scheme" where
  "ring_rest s = s\<lparr>serial_input_buffer_read_index := ring_next (serial_input_buffer_read_index s)\<rparr>"

definition serial_received_char :: "(('d, 'p, 'f, 'a, 'z) proc_state_scheme, unit) kern" where
  "serial_received_char =
     kbind serial_getc (\<lambda>c0.
     let c = (if c0 = 13 then 10 else c0) in
     kbind (condvar_lock SerialCond) (\<lambda>_.
     kbind (kgets ring_full) (\<lambda>full.
     kbind (if \<not> full
            then kbind (kmodify (ring_put c)) (\<lambda>_.
                 kbind (serial_putc c) (\<lambda>_.
                 condvar_notify_all SerialCond))
            else kret ()) (\<lambda>_.
     kbind (condvar_unlock SerialCond) (\<lambda>_.
     lapic_send_eoi)))))"

primrec serial_read_loop :: "nat \<Rightarrow> u64 \<Rightarrow> u64 \<Rightarrow> (('d, 'p, 'f, 'a, 'z) proc_state_scheme, unit) kern" where
  "serial_read_loop 0 buffer i = kret ()"
| "serial_read_loop (Suc k) buffer i =
     kbind (kmodify (\<lambda>s. s\<lparr>mem := (mem s)(buffer + i := ring_first s)\<rparr>)) (\<lambda>_.
     kbind (kmodify ring_rest) (\<lambda>_.
     serial_read_loop k buffer (i + 1)))"

text \<open>\<open>internal_serial_read\<close> from the condition of its loop on.\<close>

definition available_bytes :: "u8 \<Rightarrow> u8 \<Rightarrow> u64" where
  "available_bytes r w = (if w < r then ucast w + (of_nat SERIAL_BUFFER_LENGTH - ucast r) else ucast w - ucast r)"

definition serial_read_when_ready :: "u64 \<Rightarrow> u64 \<Rightarrow> bool \<Rightarrow> (('d, 'p, 'f, 'a, 'z) proc_state_scheme, u32 control) kern" where
  "serial_read_when_ready buffer len async =
     kbind (kgets (\<lambda>s. (serial_input_buffer_read_index s, serial_input_buffer_write_index s))) (\<lambda>(r, w).
     if r = w
     then if async then kbind (condvar_unlock SerialCond) (\<lambda>_. kret (Return 0))
          else kbind (condvar_wait SerialCond (InRead buffer len)) (\<lambda>_. kret Switched)
     else let available = available_bytes r w;
              to_read_bytes = (if available < len then available else len) in
          kbind (serial_read_loop (unat to_read_bytes) buffer 0) (\<lambda>_.
          kbind (condvar_unlock SerialCond) (\<lambda>_. kret (Return (ucast to_read_bytes)))))"

definition internal_serial_read :: "u64 \<Rightarrow> u64 \<Rightarrow> bool \<Rightarrow> (('d, 'p, 'f, 'a, 'z) proc_state_scheme, u32 control) kern" where
  "internal_serial_read buffer len async =
     (if len = 0 then kret (Return 0)
      else kbind (condvar_lock SerialCond) (\<lambda>_. serial_read_when_ready buffer len async))"

definition serial_read :: "u64 \<Rightarrow> u64 \<Rightarrow> (('d, 'p, 'f, 'a, 'z) proc_state_scheme, u32 control) kern" where
  "serial_read buffer len = internal_serial_read buffer len False"

definition serial_read_async :: "u64 \<Rightarrow> u64 \<Rightarrow> (('d, 'p, 'f, 'a, 'z) proc_state_scheme, u32 control) kern" where
  "serial_read_async buffer len = internal_serial_read buffer len True"

section \<open>Scheduler\<close>

definition fpu_save :: "(('d, 'p, 'f, 'a, 'z) proc_state_scheme, u8 list) kern" where
  "fpu_save = kgets fpu"

definition fpu_load :: "u8 list \<Rightarrow> (('d, 'p, 'f, 'a, 'z) proc_state_scheme, unit) kern" where
  "fpu_load area = kmodify (\<lambda>s. s\<lparr>fpu := area\<rparr>)"

definition MSR_KERNEL_GS_BASE :: u32 where
  "MSR_KERNEL_GS_BASE = 0xC0000102"

definition load_additional_data_if_needed ::
  "nat option \<Rightarrow> nat \<Rightarrow> (('d, 'p, 'f, 'a, 'z) proc_state_scheme, unit) kern" where
  "load_additional_data_if_needed old new =
     (if old = Some new then kret () else
      kbind (kgets (\<lambda>s. gs_base (additional_data (processes s new)))) (\<lambda>gs.
      kbind (wrmsr MSR_KERNEL_GS_BASE gs) (\<lambda>_.
      kbind (case old of None \<Rightarrow> kret ()
             | Some o1 \<Rightarrow> kbind fpu_save (\<lambda>area.
                 kmodify (set_proc o1 (additional_data_update (fpu_state_update (\<lambda>_. area)))))) (\<lambda>_.
      kbind (kgets (\<lambda>s. fpu_state (additional_data (processes s new)))) (\<lambda>area.
      fpu_load area)))))"

text \<open>
  One slot of the loop of \<open>scheduler\<close>, up to the switch to the process (the result is \<open>Switched\<close>, and
  the lock of the process is held), or to the end of the slot.
\<close>

definition scheduler_slot :: "nat \<Rightarrow> (('d, 'p, 'f, 'a, 'z) proc_state_scheme, unit control) kern" where
  "scheduler_slot i =
     kbind (condvar_lock (ProcessCond i)) (\<lambda>_.
     kbind (kgets (\<lambda>s. processes s i)) (\<lambda>proc.
     case pstate proc of
       RUNNABLE \<Rightarrow>
         kbind (kmodify (set_proc i (pstate_update (\<lambda>_. RUNNING)))) (\<lambda>_.
         kbind (kgets (\<lambda>s. last_running_process (cpu s))) (\<lambda>old.
         kbind (load_additional_data_if_needed old i) (\<lambda>_.
         kbind (kmodify (\<lambda>s. s\<lparr>cpu := (cpu s)\<lparr>running_process := Some i, last_running_process := Some i\<rparr>\<rparr>)) (\<lambda>_.
         kbind (kgets (\<lambda>s. V2P s (pagetable proc))) (\<lambda>pt.
         kbind (install_pagetable pt) (\<lambda>_.
         kret Switched))))))
     | EXITED \<Rightarrow>
         kbind (kgets (\<lambda>s. if get_installed_pagetable s = V2P s (pagetable proc) then Some (V2P s (kernel_pagetable s)) else None)) (\<lambda>kpt.
         kbind (case kpt of Some pt \<Rightarrow> install_pagetable pt | None \<Rightarrow> kret ()) (\<lambda>_.
         kbind (vmm_user_pagetable_free (pagetable proc)) (\<lambda>_.
         kbind (kmodify (set_proc i (\<lambda>p. p\<lparr>pstate := UNUSED, pid := 0, resume_stack_pointer := StackAt 0, current_sbrk := 0,
                  initial_data_segment := 0, pagetable := 0, additional_data := no_data\<rparr>))) (\<lambda>_.
         kbind (kmodify (\<lambda>s. if last_running_process (cpu s) = Some i then s\<lparr>cpu := (cpu s)\<lparr>last_running_process := None\<rparr>\<rparr> else s)) (\<lambda>_.
         kbind (condvar_unlock (ProcessCond i)) (\<lambda>_. kret (Return ())))))))
     | _ \<Rightarrow> kbind (condvar_unlock (ProcessCond i)) (\<lambda>_. kret (Return ()))))"

text \<open>The rest of the slot, when the process has switched back.\<close>

definition scheduler_switched_back :: "nat \<Rightarrow> (('d, 'p, 'f, 'a, 'z) proc_state_scheme, unit) kern" where
  "scheduler_switched_back i =
     kbind (kmodify (\<lambda>s. s\<lparr>cpu := (cpu s)\<lparr>running_process := None\<rparr>\<rparr>)) (\<lambda>_.
     condvar_unlock (ProcessCond i))"

text \<open>
  What the kernel does when it has switched to a process: the context of a new process enters user
  mode through \<open>jump_to_ring3\<close>, the others continue behind their \<open>scheduler_switch_back\<close>. A result is
  the result of the system call that the process made.
\<close>

definition resume :: "nat \<Rightarrow> (('d, 'p, 'f, 'a, 'z) proc_state_scheme, u64 option control) kern" where
  "resume i =
     kbind (kgets (\<lambda>s. resume_stack_pointer (processes s i))) (\<lambda>sp.
     case sp of
       StackAt a \<Rightarrow> kbind my_process_unlock (\<lambda>_. kret (Return None))
     | InWait target \<Rightarrow>
         kbind (condvar_wait_resume (ProcessCond target)) (\<lambda>_.
         kbind (proc_wait_loop target) (\<lambda>c.
         kret (case c of Return r \<Rightarrow> Return (Some (scast r)) | Switched \<Rightarrow> Switched)))
     | InRead buffer len \<Rightarrow>
         kbind (condvar_wait_resume SerialCond) (\<lambda>_.
         kbind (serial_read_when_ready buffer len False) (\<lambda>c.
         kret (case c of Return r \<Rightarrow> Return (Some (scast r)) | Switched \<Rightarrow> Switched)))
     | InSleep target \<Rightarrow>
         kbind (sys_sleep_loop target) (\<lambda>c.
         kret (case c of Return _ \<Rightarrow> Return (Some 0) | Switched \<Rightarrow> Switched))
     | InYield \<Rightarrow> kbind my_process_unlock (\<lambda>_. kret (Return None))
     | InExit \<Rightarrow> kpanic ''proc_exit: scheduler returned'')"

section \<open>Traps\<close>

definition T_YEILD :: u64 where
  "T_YEILD = 0x80"

text \<open>
  \<open>handle_trap\<close>: input of the serial port, the yield of a process, or an interrupt nobody expects.
\<close>

definition handle_trap :: "u64 \<Rightarrow> u64 \<Rightarrow> (('d, 'p, 'f, 'a, 'z) proc_state_scheme, unit control) kern" where
  "handle_trap irq error_code =
     (if irq = ucast (T_IRQ0 + IRQ_COM1) then kbind serial_received_char (\<lambda>_. kret (Return ()))
      else if irq = T_YEILD
      then the_process (\<lambda>p.
           kbind (condvar_lock (ProcessCond p)) (\<lambda>_.
           kbind (kmodify (set_proc p (pstate_update (\<lambda>_. RUNNABLE)))) (\<lambda>_.
           kbind (scheduler_switch_back InYield) (\<lambda>_. kret Switched))))
      else kbind (kprintf (chars ''irq: %llu - error: %llx\<newline>'') [irq, error_code]) (\<lambda>_. kpanic ''irq''))"

section \<open>Locks of processes\<close>

lemma set_proc_simps [simp]:
  "processes (set_proc i f s) = (processes s)(i := f (processes s i))" "cpu (set_proc i f s) = cpu s"
  "mem (set_proc i f s) = mem s" "serial_input_buffer_condvar (set_proc i f s) = serial_input_buffer_condvar s"
  "my_process (set_proc i f s) = my_process s"
  by (simp_all add: set_proc_def my_process_def)

lemma plock_update_id: "f (plock p) = plock p \<Longrightarrow> plock_update f p = p"
  by (cases p) simp

lemma processes_update_id: "s\<lparr>processes := processes s\<rparr> = s"
  by (cases s) simp

lemma condvar_update_id: "f (serial_input_buffer_condvar s) = serial_input_buffer_condvar s \<Longrightarrow> serial_input_buffer_condvar_update f s = s"
  by (cases s) simp

interpretation cvl: lock_field "cond_lock c" "cond_lock_update c" for c
  by unfold_locales
    (cases c; simp add: cond_lock_def cond_lock_update_def set_proc_def comp_def plock_update_id processes_update_id condvar_update_id)+

lemma condvar_lock_free:
  "cpu_ok (cpu s) \<Longrightarrow> cond_lock c s = unlocked_lock \<Longrightarrow> condvar_lock c s = Ok ((), cvl.entered c s)"
  unfolding condvar_lock_def by (rule cvl.lock_free)

lemma entered_process:
  "cvl.entered (ProcessCond i) s = (set_proc i (plock_update (\<lambda>_. held_lock (cpu s))) s)\<lparr>cpu := save_and_disable_interrupts (cpu s)\<rparr>"
  by (simp add: cvl.entered_def cond_lock_update_def)

text \<open>A critical section on one process that leaves its lock alone.\<close>

lemma process_section:
  assumes "cpu_ok (cpu s)" and "plock (processes s i) = unlocked_lock" and "\<And>n l. f (n\<lparr>plock := l\<rparr>) = (f n)\<lparr>plock := l\<rparr>"
  shows "condvar_unlock (ProcessCond i) (set_proc i f (cvl.entered (ProcessCond i) s)) =
    Ok ((), (set_proc i f s)\<lparr>cpu := settled (cpu s)\<rparr>)"
proof -
  have f: "f (processes s i) = (f (processes s i))\<lparr>plock := unlocked_lock\<rparr>"
    using assms(3) [of unlocked_lock "processes s i"] assms(2) by (metis plock_update_id)
  let ?s = "set_proc i f (cvl.entered (ProcessCond i) s)"
  have "condvar_unlock (ProcessCond i) ?s =
      Ok ((), (cond_lock_update (ProcessCond i) (\<lambda>_. unlocked_lock) ?s)\<lparr>cpu := settled (cpu s)\<rparr>)"
    unfolding condvar_unlock_def using assms(1)
    by (rule cvl.unlock_entered) (simp_all add: entered_process cond_lock_def assms(3))
  moreover have "(cond_lock_update (ProcessCond i) (\<lambda>_. unlocked_lock) ?s)\<lparr>cpu := settled (cpu s)\<rparr> = (set_proc i f s)\<lparr>cpu := settled (cpu s)\<rparr>"
    using f by (simp add: entered_process cond_lock_update_def set_proc_def assms(3))
  ultimately show ?thesis by simp
qed

section \<open>Waking up\<close>

definition wake :: "condvar \<Rightarrow> process \<Rightarrow> process" where
  "wake c p = (if pstate p = SLEEPING \<and> waiting_channel p = Some c then p\<lparr>pstate := RUNNABLE\<rparr> else p)"

lemma wake_simps [simp]:
  "wake c (p\<lparr>plock := l\<rparr>) = (wake c p)\<lparr>plock := l\<rparr>" "plock (wake c p) = plock p" "pid (wake c p) = pid p"
  "waiting_channel (wake c p) = waiting_channel p" "resume_stack_pointer (wake c p) = resume_stack_pointer p"
  "exit_status (wake c p) = exit_status p" "open_files (wake c p) = open_files p" "additional_data (wake c p) = additional_data p"
  "pagetable (wake c p) = pagetable p"
  by (simp_all add: wake_def)

text \<open>The state in which all processes but the running one are woken from slot \<open>n\<close> on.\<close>

definition wake_from :: "nat \<Rightarrow> condvar \<Rightarrow> nat option \<Rightarrow> (nat \<Rightarrow> process) \<Rightarrow> nat \<Rightarrow> process" where
  "wake_from n c me ps i = (if n \<le> i \<and> i < MAX_PROCESSES \<and> me \<noteq> Some i then wake c (ps i) else ps i)"

definition woken :: "nat \<Rightarrow> condvar \<Rightarrow> ('d, 'p, 'f, 'a, 'z) proc_state_scheme \<Rightarrow> ('d, 'p, 'f, 'a, 'z) proc_state_scheme" where
  "woken n c s = s\<lparr>processes := wake_from n c (my_process s) (processes s)\<rparr>"

lemma woken_simps [simp]: "my_process (woken n c s) = my_process s" "cpu (woken n c s) = cpu s"
  by (simp_all add: woken_def my_process_def)

definition others_free :: "('d, 'p, 'f, 'a, 'z) proc_state_scheme \<Rightarrow> bool" where
  "others_free s \<longleftrightarrow> (\<forall>i<MAX_PROCESSES. my_process s \<noteq> Some i \<longrightarrow> plock (processes s i) = unlocked_lock)"

lemma cpu_update_same: "cpu t = c \<Longrightarrow> t\<lparr>cpu := c\<rparr> = t"
  by (cases t) simp

lemma wakeup_slot:
  assumes "cpu_ok (cpu s)" and "settled (cpu s) = cpu s" and "plock (processes s i) = unlocked_lock"
    and "i = MAX_PROCESSES - Suc k" and "my_process s \<noteq> Some i"
  shows "proc_wakeup_loop (Suc k) c True s = proc_wakeup_loop k c True (set_proc i (wake c) s)"
proof -
  let ?e = "cvl.entered (ProcessCond i) s"
  have lock: "condvar_lock (ProcessCond i) s = Ok ((), ?e)"
    by (rule condvar_lock_free [OF assms(1)]) (simp add: cond_lock_def assms(3))
  have sec: "condvar_unlock (ProcessCond i) (set_proc i (wake c) ?e) = Ok ((), set_proc i (wake c) s)"
    using process_section [OF assms(1,3), of "wake c"] assms(2) by (simp add: cpu_update_same)
  have e: "processes ?e i = (processes s i)\<lparr>plock := held_lock (cpu s)\<rparr>" by (simp add: entered_process)
  have step: "(if pstate (processes ?e i) = SLEEPING \<and> waiting_channel (processes ?e i) = Some c
      then kmodify (set_proc i (pstate_update (\<lambda>_. RUNNABLE))) else kret ()) ?e = Ok ((), set_proc i (wake c) ?e)"
    by (simp add: wake_def set_proc_def processes_update_id)
  show ?thesis
    unfolding proc_wakeup_loop.simps Let_def assms(4) [symmetric]
    using lock step sec assms(5) by (simp add: e)
qed

lemma proc_wakeup_loop_all:
  assumes "cpu_ok (cpu s)" and "settled (cpu s) = cpu s" and "others_free s" and "k \<le> MAX_PROCESSES"
  shows "proc_wakeup_loop k c True s = Ok ((), woken (MAX_PROCESSES - k) c s)"
  using assms
proof (induction k arbitrary: s)
  case 0
  have "wake_from MAX_PROCESSES c (my_process s) (processes s) = processes s"
    by (rule ext) (auto simp: wake_from_def)
  then have "woken MAX_PROCESSES c s = s" unfolding woken_def by (simp add: processes_update_id)
  then show ?case by simp
next
  case (Suc k)
  let ?i = "MAX_PROCESSES - Suc k"
  have i: "?i < MAX_PROCESSES" "MAX_PROCESSES - k = Suc ?i" using Suc.prems(4) by simp_all
  show ?case
  proof (cases "my_process s = Some ?i")
    case True
    have "woken (Suc ?i) c s = woken ?i c s"
      using True unfolding woken_def
      by (intro arg_cong [where f = "\<lambda>x. s\<lparr>processes := x\<rparr>"] ext) (auto simp: wake_from_def Suc_le_eq order_le_less)
    then show ?thesis using Suc True i by (simp add: Let_def)
  next
    case False
    let ?s = "set_proc ?i (wake c) s"
    have "plock (processes s ?i) = unlocked_lock" using Suc.prems(3) False i(1) by (simp add: others_free_def)
    then have "proc_wakeup_loop (Suc k) c True s = proc_wakeup_loop k c True ?s"
      using wakeup_slot [OF Suc.prems(1,2), of ?i k c] False by simp
    also have "\<dots> = Ok ((), woken (Suc ?i) c ?s)"
      using Suc.IH [of ?s] Suc.prems i by (simp add: others_free_def)
    also have "woken (Suc ?i) c ?s = woken ?i c s"
      unfolding woken_def set_proc_def
      using False i by (auto simp: my_process_def wake_from_def fun_eq_iff Suc_le_eq)
    finally show ?thesis .
  qed
qed

lemma notify_all_eq:
  assumes "cpu_ok (cpu s)" and "settled (cpu s) = cpu s" and "others_free s"
  shows "condvar_notify_all c s = Ok ((), woken 0 c s)"
  using proc_wakeup_loop_all [OF assms, of MAX_PROCESSES c] by (simp add: condvar_notify_all_def proc_wakeup_def)

end
