(* ===== verification/Serial_Input.thy ===== *)
theory Serial_Input
  imports Proc
begin

text \<open>
  The ring of input bytes of \<^verbatim>\<open>src/kernel/device/serial_port.c\<close> is a bounded queue: the
  interrupt appends to it, readers take from its front.
\<close>

section \<open>Bounded queues\<close>

locale bounded_queue =
  fixes inv :: "'q \<Rightarrow> bool"
    and contents :: "'q \<Rightarrow> 'c list"
    and capacity :: nat
    and full :: "'q \<Rightarrow> bool"
    and put :: "'c \<Rightarrow> 'q \<Rightarrow> 'q"
    and front :: "'q \<Rightarrow> 'c"
    and rest :: "'q \<Rightarrow> 'q"
  assumes bounded: "inv q \<Longrightarrow> length (contents q) \<le> capacity"
    and full_iff: "inv q \<Longrightarrow> full q \<longleftrightarrow> length (contents q) = capacity"
    and put: "inv q \<Longrightarrow> \<not> full q \<Longrightarrow> inv (put c q) \<and> contents (put c q) = contents q @ [c]"
    and front: "inv q \<Longrightarrow> contents q \<noteq> [] \<Longrightarrow> front q = hd (contents q)"
    and rest: "inv q \<Longrightarrow> contents q \<noteq> [] \<Longrightarrow> inv (rest q) \<and> contents (rest q) = tl (contents q)"
begin

definition offer :: "'c \<Rightarrow> 'q \<Rightarrow> 'q" where
  "offer c q = (if full q then q else put c q)"

lemma offer_inv: "inv q \<Longrightarrow> inv (offer c q)"
  by (simp add: offer_def put)

lemma offer_contents: "inv q \<Longrightarrow> contents (offer c q) = take capacity (contents q @ [c])"
  using bounded [of q] by (auto simp: offer_def put full_iff)

lemma offers_contents:
  "inv q \<Longrightarrow> inv (fold offer cs q) \<and> contents (fold offer cs q) = take capacity (contents q @ cs)"
proof (induction cs arbitrary: q)
  case Nil
  then show ?case using bounded [of q] by simp
next
  case (Cons c cs)
  then show ?case using Cons.IH [OF offer_inv [OF Cons.prems, of c]] offer_contents [OF Cons.prems, of c]
    by (cases "length (contents q) < capacity") auto
qed

lemma rests:
  "inv q \<Longrightarrow> n \<le> length (contents q) \<Longrightarrow> inv ((rest ^^ n) q) \<and> contents ((rest ^^ n) q) = drop n (contents q)"
proof (induction n)
  case (Suc n)
  then have *: "inv ((rest ^^ n) q)" "contents ((rest ^^ n) q) = drop n (contents q)" by simp_all
  moreover have "drop n (contents q) \<noteq> []" using Suc.prems(2) by simp
  ultimately show ?case using rest [of "(rest ^^ n) q"] by (simp add: drop_Suc tl_drop)
qed simp

lemma fronts: "inv q \<Longrightarrow> n < length (contents q) \<Longrightarrow> front ((rest ^^ n) q) = contents q ! n"
  using rests [of q n] front [of "(rest ^^ n) q"] by (simp add: hd_drop_conv_nth)

end

section \<open>The ring\<close>

definition ring_inv :: "('d, 'p, 'f, 'a, 'z) proc_state_scheme \<Rightarrow> bool" where
  "ring_inv s \<longleftrightarrow> length (serial_input_buffer s) = SERIAL_BUFFER_LENGTH \<and>
     unat (serial_input_buffer_read_index s) < SERIAL_BUFFER_LENGTH \<and> unat (serial_input_buffer_write_index s) < SERIAL_BUFFER_LENGTH"

definition ring_dist :: "nat \<Rightarrow> nat \<Rightarrow> nat" where
  "ring_dist r w = (if r \<le> w then w - r else w + 128 - r)"

definition ring_pos :: "nat \<Rightarrow> nat \<Rightarrow> nat" where
  "ring_pos r k = (if r + k < 128 then r + k else r + k - 128)"

definition ring_contents :: "('d, 'p, 'f, 'a, 'z) proc_state_scheme \<Rightarrow> u8 list" where
  "ring_contents s = map (\<lambda>k. serial_input_buffer s ! ring_pos (unat (serial_input_buffer_read_index s)) k)
     [0..<ring_dist (unat (serial_input_buffer_read_index s)) (unat (serial_input_buffer_write_index s))]"

lemma unat_ring_next: "unat i < 128 \<Longrightarrow> unat (ring_next i) = (if unat i = 127 then 0 else unat i + 1)"
proof -
  assume "unat i < 128"
  then have "(unat i + 1) mod 128 = (if unat i = 127 then 0 else unat i + 1)" by simp
  then show ?thesis by (simp add: ring_next_def SERIAL_BUFFER_LENGTH_def unat_of_nat take_bit_nat_def)
qed

lemma ring_laws:
  assumes inv: "ring_inv q"
  shows "length (ring_contents q) \<le> 127"
    and "ring_full q \<longleftrightarrow> length (ring_contents q) = 127"
    and "\<not> ring_full q \<Longrightarrow> ring_inv (ring_put c q) \<and> ring_contents (ring_put c q) = ring_contents q @ [c]"
    and "ring_contents q \<noteq> [] \<Longrightarrow> ring_first q = hd (ring_contents q)"
    and "ring_contents q \<noteq> [] \<Longrightarrow> ring_inv (ring_rest q) \<and> ring_contents (ring_rest q) = tl (ring_contents q)"
proof -
  define r w b where "r = unat (serial_input_buffer_read_index q)" and "w = unat (serial_input_buffer_write_index q)"
    and "b = serial_input_buffer q"
  have lt: "r < 128" "w < 128" "length b = 128" using inv by (simp_all add: r_def w_def b_def ring_inv_def SERIAL_BUFFER_LENGTH_def)
  have nw: "unat (ring_next (serial_input_buffer_write_index q)) = (if w = 127 then 0 else w + 1)"
    and nr: "unat (ring_next (serial_input_buffer_read_index q)) = (if r = 127 then 0 else r + 1)"
    using lt unat_ring_next by (simp_all add: r_def w_def)
  show "length (ring_contents q) \<le> 127" using lt by (auto simp: ring_contents_def ring_dist_def simp flip: r_def w_def)
  show full: "ring_full q \<longleftrightarrow> length (ring_contents q) = 127"
    using lt nw by (auto simp: ring_full_def word_unat_eq_iff ring_contents_def ring_dist_def simp flip: r_def w_def split: if_splits)
  have ne: "ring_contents q \<noteq> [] \<longleftrightarrow> r \<noteq> w" using lt by (auto simp: ring_contents_def ring_dist_def simp flip: r_def w_def)
  show "ring_first q = hd (ring_contents q)" if "ring_contents q \<noteq> []"
    using that lt ne by (simp add: ring_first_def ring_contents_def hd_map ring_pos_def upt_rec ring_dist_def flip: r_def w_def b_def)
  show "ring_inv (ring_rest q) \<and> ring_contents (ring_rest q) = tl (ring_contents q)" if "ring_contents q \<noteq> []"
  proof
    show "ring_inv (ring_rest q)" using inv nr lt by (simp add: ring_inv_def ring_rest_def SERIAL_BUFFER_LENGTH_def)
    define r' where "r' = (if r = 127 then 0 else r + 1)"
    have d: "ring_dist r w = Suc (ring_dist r' w)" using that ne lt by (auto simp: ring_dist_def r'_def)
    have pos: "ring_pos r' k = ring_pos r (Suc k)" if "k < ring_dist r' w" for k
      using that lt by (auto simp: ring_pos_def ring_dist_def r'_def split: if_splits)
    have "ring_contents (ring_rest q) = map (\<lambda>k. b ! ring_pos r' k) [0..<ring_dist r' w]"
      unfolding ring_contents_def ring_rest_def by (simp add: nr flip: r'_def w_def b_def)
    moreover have "ring_contents q = map (\<lambda>k. b ! ring_pos r k) [0..<Suc (ring_dist r' w)]"
      unfolding ring_contents_def by (simp add: d flip: r_def w_def b_def)
    ultimately show "ring_contents (ring_rest q) = tl (ring_contents q)"
      by (intro nth_equalityI) (simp_all add: nth_tl pos del: upt_Suc)
  qed
  show "ring_inv (ring_put c q) \<and> ring_contents (ring_put c q) = ring_contents q @ [c]" if "\<not> ring_full q"
  proof
    show "ring_inv (ring_put c q)" using inv nw lt by (simp add: ring_inv_def ring_put_def Let_def SERIAL_BUFFER_LENGTH_def)
    have "ring_dist r w \<noteq> 127" using that full by (simp add: ring_contents_def flip: r_def w_def)
    then have d: "ring_dist r (if w = 127 then 0 else w + 1) = Suc (ring_dist r w)" using lt by (auto simp: ring_dist_def)
    have last: "ring_pos r (ring_dist r w) = w" and old: "\<And>k. k < ring_dist r w \<Longrightarrow> w \<noteq> ring_pos r k"
      using lt by (auto simp: ring_pos_def ring_dist_def split: if_splits)
    show "ring_contents (ring_put c q) = ring_contents q @ [c]"
      using lt by (simp add: ring_contents_def ring_put_def Let_def nw d last old flip: r_def w_def b_def)
  qed
qed

interpretation ring: bounded_queue ring_inv ring_contents 127 ring_full ring_put ring_first ring_rest
  by unfold_locales (simp_all add: ring_laws)

lemma ring_frame [simp]:
  "ring_inv (s\<lparr>mem := m\<rparr>) = ring_inv s" "ring_contents (s\<lparr>mem := m\<rparr>) = ring_contents s"
  "ring_inv (s\<lparr>cpu := x\<rparr>) = ring_inv s" "ring_contents (s\<lparr>cpu := x\<rparr>) = ring_contents s"
  "ring_inv (s\<lparr>ports := y\<rparr>) = ring_inv s" "ring_contents (s\<lparr>ports := y\<rparr>) = ring_contents s"
  "ring_inv (s\<lparr>apic_dev := z\<rparr>) = ring_inv s" "ring_contents (s\<lparr>apic_dev := z\<rparr>) = ring_contents s"
  "ring_inv (serial_input_buffer_condvar_update f s) = ring_inv s"
  "ring_contents (serial_input_buffer_condvar_update f s) = ring_contents s"
  "ring_inv (s\<lparr>processes := ps\<rparr>) = ring_inv s" "ring_contents (s\<lparr>processes := ps\<rparr>) = ring_contents s"
  "ring_full (s\<lparr>cpu := x\<rparr>) = ring_full s" "ring_full (s\<lparr>ports := y\<rparr>) = ring_full s"
  "ring_full (serial_input_buffer_condvar_update f s) = ring_full s"
  by (simp_all add: ring_inv_def ring_contents_def ring_full_def)

lemma ring_rest_frame [simp]:
  "mem (ring_rest s) = mem s" "cpu (ring_rest s) = cpu s" "processes (ring_rest s) = processes s"
  "serial_input_buffer_condvar (ring_rest s) = serial_input_buffer_condvar s"
  "ring_rest (s\<lparr>mem := m\<rparr>) = (ring_rest s)\<lparr>mem := m\<rparr>"
  by (simp_all add: ring_rest_def)

lemma ring_rests_frame [simp]:
  "mem ((ring_rest ^^ n) s) = mem s" "cpu ((ring_rest ^^ n) s) = cpu s" "processes ((ring_rest ^^ n) s) = processes s"
  "serial_input_buffer_condvar ((ring_rest ^^ n) s) = serial_input_buffer_condvar s"
  "(ring_rest ^^ n) (s\<lparr>mem := m\<rparr>) = ((ring_rest ^^ n) s)\<lparr>mem := m\<rparr>"
  by (induction n) simp_all

section \<open>Reading\<close>

lemma entered_serial [simp]:
  "cvl.entered SerialCond s = s\<lparr>serial_input_buffer_condvar := held_lock (cpu s), cpu := save_and_disable_interrupts (cpu s)\<rparr>"
  by (simp add: cvl.entered_def cond_lock_update_def)

lemma serial_read_loop_eq:
  "ring_inv s \<Longrightarrow> n \<le> length (ring_contents s) \<Longrightarrow>
   serial_read_loop n buffer i s =
     Ok ((), ((ring_rest ^^ n) s)\<lparr>mem := store_bytes (mem s) (buffer + i) (take n (ring_contents s))\<rparr>)"
proof (induction n arbitrary: s i)
  case 0
  then show ?case by (cases s) simp
next
  case (Suc n)
  then obtain c cs where cs: "ring_contents s = c # cs" by (cases "ring_contents s") auto
  let ?s = "ring_rest (s\<lparr>mem := (mem s)(buffer + i := c)\<rparr>)"
  have first: "ring_first s = c" using ring.front [OF Suc.prems(1)] cs by simp
  have rest: "ring_inv ?s" "ring_contents ?s = cs" using ring.rest [OF Suc.prems(1)] cs by simp_all
  have "serial_read_loop (Suc n) buffer i s = serial_read_loop n buffer (i + 1) ?s" using first by simp
  also have "\<dots> = Ok ((), ((ring_rest ^^ n) ?s)\<lparr>mem := store_bytes (mem ?s) (buffer + (i + 1)) (take n (ring_contents ?s))\<rparr>)"
    using rest Suc.prems(2) cs by (intro Suc.IH) simp_all
  finally show ?case using cs rest by (simp add: funpow_Suc_right add.assoc del: funpow.simps)
qed

lemma unat_available:
  "ring_inv s \<Longrightarrow> unat (available_bytes (serial_input_buffer_read_index s) (serial_input_buffer_write_index s)) = length (ring_contents s)"
proof -
  assume inv: "ring_inv s"
  define r w where "r = serial_input_buffer_read_index s" and "w = serial_input_buffer_write_index s"
  have lt: "unat r < 128" "unat w < 128" using inv by (simp_all add: ring_inv_def r_def w_def SERIAL_BUFFER_LENGTH_def)
  have c: "(ucast x :: u64) = of_nat (unat x)" for x :: u8 by simp
  have sub: "(of_nat a :: u64) - of_nat b = of_nat (a - b)" if "b \<le> a" for a b using that by simp
  have "available_bytes r w = of_nat (ring_dist (unat r) (unat w))"
  proof (cases "w < r")
    case True
    then have "available_bytes r w = of_nat (unat w + (128 - unat r))"
      using lt sub [of "unat r" 128] unfolding available_bytes_def c SERIAL_BUFFER_LENGTH_def by (simp only: if_True of_nat_add)
    then show ?thesis using True lt by (simp add: ring_dist_def word_less_nat_alt)
  next
    case False
    then show ?thesis using sub [of "unat r" "unat w"] unfolding available_bytes_def c
      by (simp add: ring_dist_def word_less_nat_alt not_less)
  qed
  moreover have "ring_dist (unat r) (unat w) < 18446744073709551616" using lt by (auto simp: ring_dist_def)
  ultimately have "unat (available_bytes r w) = ring_dist (unat r) (unat w)" by (simp only: unat_of_nat64)
  then show ?thesis by (simp add: ring_contents_def flip: r_def w_def)
qed

lemma ring_empty_iff: "ring_inv s \<Longrightarrow> ring_contents s = [] \<longleftrightarrow> serial_input_buffer_read_index s = serial_input_buffer_write_index s"
  by (auto simp: ring_inv_def ring_contents_def ring_dist_def word_unat_eq_iff SERIAL_BUFFER_LENGTH_def)

lemma ucast_of_nat32: "(ucast (of_nat n :: u64) :: u32) = of_nat n"
  by transfer simp

lemma read_when_ready_ok:
  assumes "ring_inv s" and "ring_contents s \<noteq> []" and "cpu_ok (cpu s)" and n_def: "n = min (unat len) (length (ring_contents s))"
  obtains s' where "serial_read_when_ready buffer len async (cvl.entered SerialCond s) = Ok (Return (of_nat n), s')"
    "mem s' = store_bytes (mem s) buffer (take n (ring_contents s))" "ring_inv s'" "ring_contents s' = drop n (ring_contents s)"
    "processes s' = processes s" "serial_input_buffer_condvar s' = unlocked_lock" "cpu s' = settled (cpu s)"
proof -
  define r w a where "r = serial_input_buffer_read_index s" and "w = serial_input_buffer_write_index s" and "a = available_bytes r w"
  have a: "unat a = length (ring_contents s)" using unat_available [OF assms(1)] by (simp add: a_def r_def w_def)
  have n: "unat (if a < len then a else len) = n" using a by (simp add: n_def word_less_nat_alt)
  have n': "(if a < len then a else len) = of_nat n" unfolding n [symmetric] by simp
  let ?e = "cvl.entered SerialCond s"
  let ?s1 = "((ring_rest ^^ n) ?e)\<lparr>mem := store_bytes (mem s) buffer (take n (ring_contents s))\<rparr>"
  have loop: "serial_read_loop n buffer 0 ?e = Ok ((), ?s1)"
    using serial_read_loop_eq [of ?e n buffer 0] assms(1) by (simp add: n_def)
  let ?s2 = "(cond_lock_update SerialCond (\<lambda>_. unlocked_lock) ?s1)\<lparr>cpu := settled (cpu s)\<rparr>"
  have unlock: "condvar_unlock SerialCond ?s1 = Ok ((), ?s2)"
    unfolding condvar_unlock_def using assms(3) by (rule cvl.unlock_entered) (simp_all add: cond_lock_def)
  have ne: "r \<noteq> w" using ring_empty_iff [OF assms(1)] assms(2) by (simp add: r_def w_def)
  have "serial_read_when_ready buffer len async ?e = Ok (Return (of_nat n), ?s2)"
    unfolding serial_read_when_ready_def using loop unlock ne n n'
    by (simp add: Let_def ucast_of_nat32 flip: r_def w_def a_def)
  moreover have "ring_inv ?e" "n \<le> length (ring_contents ?e)" using assms(1) by (simp_all add: n_def)
  then have "ring_inv ?s2" "ring_contents ?s2 = drop n (ring_contents s)"
    using ring.rests [of ?e n] by (simp_all add: cond_lock_update_def)
  ultimately show ?thesis by (intro that [of ?s2]) (simp_all add: cond_lock_update_def)
qed

section \<open>Properties\<close>

text \<open>
  C22. Reading from the serial port takes from the front of the queue of input bytes. When input is
  there, a read of a buffer that is not empty returns at once, blocking or not, with the first bytes
  of the queue in order, as many as there are and the buffer takes, at least one; exactly these
  bytes leave the queue, and no process changes.
\<close>

theorem serial_read_refines:
  assumes "ring_inv s" and "ring_contents s \<noteq> []" and "len \<noteq> 0"
    and "cpu_ok (cpu s)" and "serial_input_buffer_condvar s = unlocked_lock"
  shows "\<exists>n s'. n = min (unat len) (length (ring_contents s)) \<and> 0 < n \<and>
    internal_serial_read buffer len async s = Ok (Return (of_nat n), s') \<and>
    mem s' = store_bytes (mem s) buffer (take n (ring_contents s)) \<and>
    ring_inv s' \<and> ring_contents s' = drop n (ring_contents s) \<and>
    processes s' = processes s \<and> serial_input_buffer_condvar s' = unlocked_lock \<and> cpu s' = settled (cpu s)"
proof -
  define n where "n = min (unat len) (length (ring_contents s))"
  have lock: "condvar_lock SerialCond s = Ok ((), cvl.entered SerialCond s)"
    by (rule condvar_lock_free [OF assms(4)]) (simp add: cond_lock_def assms(5))
  have "0 < n" using assms(2,3) by (simp add: n_def unat_gt_0)
  moreover obtain s' where "serial_read_when_ready buffer len async (cvl.entered SerialCond s) = Ok (Return (of_nat n), s')"
    "mem s' = store_bytes (mem s) buffer (take n (ring_contents s))" "ring_inv s'" "ring_contents s' = drop n (ring_contents s)"
    "processes s' = processes s" "serial_input_buffer_condvar s' = unlocked_lock" "cpu s' = settled (cpu s)"
    using read_when_ready_ok [OF assms(1,2,4) n_def] by blast
  ultimately show ?thesis
    using assms(3) lock n_def by (intro exI [of _ n] exI [of _ s']) (simp add: internal_serial_read_def del: entered_serial)
qed

text \<open>A machine without processes, with the letters A and B in the ring, across its end.\<close>

definition unused_process :: process where
  "unused_process = \<lparr>pid = 0, resume_stack_pointer = StackAt 0, pagetable = 0,
     open_files = replicate 16 \<lparr>fd_type = FD_EMPTY, structures = Inode None, offset = 0, fd_readble = False, fd_writable = False\<rparr>,
     initial_data_segment = 0, current_sbrk = 0, working_directory = None, additional_data = no_data, plock = unlocked_lock,
     waiting_channel = None, exit_status = 0, pstate = UNUSED\<rparr>"

definition input_machine :: "(unit, u64, unit, u32 \<times> (u32 \<Rightarrow> u32)) proc_state" where
  "input_machine = apic_state.extend small_ioapic (proc_state.fields 1 (\<lambda>_. unused_process) (replicate 512 0)
     ((replicate 128 0)[127 := 65, 0 := 66]) 127 1 unlocked_lock)"

lemma input_machine_simps [simp]:
  "serial_input_buffer input_machine = (replicate 128 0)[127 := 65, 0 := 66]" "serial_input_buffer_read_index input_machine = 127"
  "serial_input_buffer_write_index input_machine = 1" "serial_input_buffer_condvar input_machine = unlocked_lock"
  "cpu input_machine = boot_cpu" "processes input_machine = (\<lambda>_. unused_process)"
  by (simp_all add: input_machine_def proc_state.defs apic_state.defs small_ioapic_def fs_state.defs fs_machine_def fb_state.defs
    screen_machine_def rtc_state.defs counting_rtc_def console.defs kernel.defs boot_kernel_def)

lemma input_machine_ring: "ring_inv input_machine" "ring_contents input_machine = [65, 66]"
  by (simp_all add: ring_inv_def SERIAL_BUFFER_LENGTH_def ring_contents_def ring_dist_def ring_pos_def upt_rec)

theorem serial_read_refines_witness:
  "\<exists>s'. internal_serial_read 0x1000 10 False input_machine = Ok (Return 2, s') \<and>
    mem s' = store_bytes (mem input_machine) 0x1000 [65, 66] \<and> ring_contents s' = []"
  using serial_read_refines [of input_machine 10 "0x1000" False] by (auto simp: input_machine_ring)

text \<open>
  The data the port announces: the line status has its data bit set, and the data register then holds
  the byte.
\<close>

definition has_input :: "u8 \<Rightarrow> 'p ports \<Rightarrow> 'p ports \<Rightarrow> bool" where
  "has_input c P P' \<longleftrightarrow> (\<exists>st d1 d2. pin8 P (PORT + 5) (pdev P) = (st, d1) \<and> st AND 1 \<noteq> 0 \<and> pin8 P PORT d1 = (c, d2) \<and> P' = P\<lparr>pdev := d2\<rparr>)"

lemma serial_getc_input: "has_input c (ports s) P' \<Longrightarrow> serial_getc s = Ok (c, s\<lparr>ports := P'\<rparr>)"
proof -
  assume "has_input c (ports s) P'"
  then obtain st d1 d2 where st: "pin8 (ports s) (PORT + 5) (pdev (ports s)) = (st, d1)" "st AND 1 \<noteq> 0"
    and c: "pin8 (ports s) PORT d1 = (c, d2)" "P' = (ports s)\<lparr>pdev := d2\<rparr>" unfolding has_input_def by blast
  have "serial_received s = Ok (st AND 1, s\<lparr>ports := (ports s)\<lparr>pdev := d1\<rparr>\<rparr>)"
    unfolding serial_received_def using st(1) by (simp add: inb_def)
  from kpoll_stop [where m = serial_received and stop = "\<lambda>v. v \<noteq> 0", OF this] st(2)
  have "kpoll serial_received (\<lambda>v. v \<noteq> 0) s = Ok (st AND 1, s\<lparr>ports := (ports s)\<lparr>pdev := d1\<rparr>\<rparr>)" by simp
  then show ?thesis unfolding serial_getc_def using c by (simp add: inb_def)
qed

lemma transmits_input: "transmits P \<Longrightarrow> has_input c P P' \<Longrightarrow> transmits P'"
proof -
  assume t: "transmits P" and "has_input c P P'"
  then obtain st d1 d2 where "pin8 P (PORT + 5) (pdev P) = (st, d1)" "pin8 P PORT d1 = (c, d2)" and P': "P' = P\<lparr>pdev := d2\<rparr>"
    unfolding has_input_def by blast
  then have "dev_step P (pdev P) d1" "dev_step P d1 d2" unfolding dev_step_def by (metis snd_conv)+
  then have "(dev_step P)\<^sup>*\<^sup>* (pdev P) d2" by (meson rtranclp.simps)
  then show ?thesis using t unfolding transmits_def P' by (auto intro: rtranclp_trans)
qed

lemma serial_putc_ready:
  assumes "transmits (ports s)"
  obtains P where "serial_putc c s = Ok ((), s\<lparr>ports := P\<rparr>)" and "serial_out (s\<lparr>ports := P\<rparr>) = serial_out s @ [c]"
proof -
  have "console_ready s s" using assms by (simp add: console_ready_def)
  from serial.putc_ok [OF this, of c] obtain s' where s': "serial_putc c s = Ok ((), s')" "console_ready s s'" "serial_out s' = serial_out s @ [c]"
    by blast
  then have "s' = s\<lparr>ports := ports s'\<rparr>" by (simp add: console_ready_def)
  with s'(1,3) that show ?thesis by metis
qed

lemma lapic_send_eoi_ok: "\<exists>d. lapic_send_eoi s = Ok ((), s\<lparr>apic_dev := d\<rparr>)"
  by (cases "apic_load s (lapic (cpu s) + 4 * LAPIC_ID) (apic_store s (lapic (cpu s) + 4 * LAPIC_EOI) 0 (apic_dev s))")
    (auto simp: lapic_send_eoi_def lapic_write_def mmio_store_def mmio_load_def kbind_def)

lemma ring_put_frame [simp]:
  "mem (ring_put c s) = mem s" "cpu (ring_put c s) = cpu s" "processes (ring_put c s) = processes s" "ports (ring_put c s) = ports s"
  "serial_input_buffer_condvar (ring_put c s) = serial_input_buffer_condvar s"
  by (simp_all add: ring_put_def Let_def)

lemma woken_frame [simp]:
  "mem (woken n c s) = mem s" "ports (woken n c s) = ports s" "serial_input_buffer_condvar (woken n c s) = serial_input_buffer_condvar s"
  "ring_inv (woken n c s) = ring_inv s" "ring_contents (woken n c s) = ring_contents s"
  by (simp_all add: woken_def)

text \<open>The part of the handler between its lock and its unlock, for a ring that has room.\<close>

lemma receive_section:
  assumes "ring_inv s" and "\<not> ring_full s" and "cpu_ok (cpu s)" and "settled (cpu s) = cpu s" and "others_free s" and "transmits (ports s)"
  obtains P where
    "kbind (kmodify (ring_put c)) (\<lambda>_. kbind (serial_putc c) (\<lambda>_. condvar_notify_all SerialCond)) s =
       Ok ((), woken 0 SerialCond ((ring_put c s)\<lparr>ports := P\<rparr>))"
    "serial_out (s\<lparr>ports := P\<rparr>) = serial_out s @ [c]"
proof -
  obtain P where P: "serial_putc c (ring_put c s) = Ok ((), (ring_put c s)\<lparr>ports := P\<rparr>)"
    and out: "serial_out ((ring_put c s)\<lparr>ports := P\<rparr>) = serial_out (ring_put c s) @ [c]"
    using serial_putc_ready [of "ring_put c s" c] assms(6) by auto
  have "condvar_notify_all SerialCond ((ring_put c s)\<lparr>ports := P\<rparr>) = Ok ((), woken 0 SerialCond ((ring_put c s)\<lparr>ports := P\<rparr>))"
    using assms(3-5) by (intro notify_all_eq) (simp_all add: others_free_def my_process_def)
  with P out show ?thesis by (intro that [of P]) (simp_all add: serial_out_def)
qed

definition receive_body :: "u8 \<Rightarrow> (('d, 'p, 'f, 'a, 'z) proc_state_scheme, unit) kern" where
  "receive_body c =
     kbind (kgets ring_full) (\<lambda>full.
     if \<not> full then kbind (kmodify (ring_put c)) (\<lambda>_. kbind (serial_putc c) (\<lambda>_. condvar_notify_all SerialCond)) else kret ())"

lemma receive_body_ok:
  assumes "ring_inv s" and "cpu_ok (cpu s)" and "settled (cpu s) = cpu s" and "others_free s" and "transmits (ports s)"
  obtains s3 where "receive_body c s = Ok ((), s3)" "ring_inv s3" "ring_contents s3 = take 127 (ring_contents s @ [c])"
    "mem s3 = mem s" "processes s3 = (if ring_full s then processes s else processes (woken 0 SerialCond s))"
    "serial_out s3 = serial_out s @ (if ring_full s then [] else [c])"
    "serial_input_buffer_condvar s3 = serial_input_buffer_condvar s" "cpu s3 = cpu s"
proof (cases "ring_full s")
  case True
  then show ?thesis using that [of s] ring.full_iff [OF assms(1)] assms(1) by (simp add: receive_body_def)
next
  case False
  then obtain P where P: "kbind (kmodify (ring_put c)) (\<lambda>_. kbind (serial_putc c) (\<lambda>_. condvar_notify_all SerialCond)) s =
      Ok ((), woken 0 SerialCond ((ring_put c s)\<lparr>ports := P\<rparr>))" and out: "serial_out (s\<lparr>ports := P\<rparr>) = serial_out s @ [c]"
    using receive_section [of s c] assms by blast
  let ?s3 = "woken 0 SerialCond ((ring_put c s)\<lparr>ports := P\<rparr>)"
  have put: "ring_inv (ring_put c s)" "ring_contents (ring_put c s) = ring_contents s @ [c]"
    using ring.put [OF assms(1) False] by simp_all
  show ?thesis
  proof (rule that)
    show "receive_body c s = Ok ((), ?s3)" using P False by (simp only: receive_body_def kbind_Ok kgets_apply if_True simp_thms)
    show "ring_contents ?s3 = take 127 (ring_contents s @ [c])"
      using put ring.bounded [OF put(1)] by simp
    show "serial_out ?s3 = serial_out s @ (if ring_full s then [] else [c])"
      using out False by (simp add: serial_out_def)
    show "processes ?s3 = (if ring_full s then processes s else processes (woken 0 SerialCond s))"
      using False by (simp add: woken_def my_process_def)
  qed (use put in simp_all)
qed

lemma serial_received_char_eq:
  "serial_received_char =
     kbind serial_getc (\<lambda>c0.
     kbind (condvar_lock SerialCond) (\<lambda>_.
     kbind (receive_body (if c0 = 13 then 10 else c0)) (\<lambda>_.
     kbind (condvar_unlock SerialCond) (\<lambda>_.
     lapic_send_eoi))))"
  unfolding serial_received_char_def receive_body_def kbind_assoc Let_def ..

lemma serial_received_refines_aux:
  assumes "ring_inv s" and "cpu_ok (cpu s)" and "unat (depth (cpu s)) < 1000" and "serial_input_buffer_condvar s = unlocked_lock"
    and "others_free s" and "transmits (ports s)" and "has_input c0 (ports s) P'"
  shows "\<exists>s' c. c = (if c0 = 13 then 10 else c0) \<and> serial_received_char s = Ok ((), s') \<and>
    ring_inv s' \<and> ring_contents s' = take 127 (ring_contents s @ [c]) \<and>
    processes s' = (if length (ring_contents s) = 127 then processes s else processes (woken 0 SerialCond s)) \<and>
    serial_out s' = serial_out s @ (if length (ring_contents s) = 127 then [] else [c]) \<and>
    serial_input_buffer_condvar s' = unlocked_lock \<and> cpu s' = settled (cpu s) \<and> mem s' = mem s"
proof -
  define c where "c = (if c0 = 13 then 10 else c0)"
  let ?s1 = "s\<lparr>ports := P'\<rparr>" and ?e = "cvl.entered SerialCond (s\<lparr>ports := P'\<rparr>)"
  have getc: "serial_getc s = Ok (c0, ?s1)" using assms(7) by (rule serial_getc_input)
  have out: "serial_out ?s1 = serial_out s" using assms(7) by (auto simp: has_input_def serial_out_def)
  have lock: "condvar_lock SerialCond ?s1 = Ok ((), ?e)"
    by (rule condvar_lock_free) (simp_all add: cond_lock_def assms(2,4))
  have full: "ring_full s \<longleftrightarrow> length (ring_contents s) = 127" using assms(1) by (rule ring.full_iff)
  have e: "ring_inv ?e" "cpu_ok (cpu ?e)" "settled (cpu ?e) = cpu ?e" "others_free ?e" "transmits (ports ?e)" "ring_full ?e = ring_full s"
    using assms(1,5) cpu_ok_save [OF assms(2,3)] settled_save [OF assms(3)] transmits_input [OF assms(6,7)]
    by (simp_all add: others_free_def my_process_def)
  obtain s3 where sec: "receive_body c ?e = Ok ((), s3)" and s3: "ring_inv s3" "ring_contents s3 = take 127 (ring_contents ?e @ [c])"
      "mem s3 = mem ?e" "processes s3 = (if ring_full ?e then processes ?e else processes (woken 0 SerialCond ?e))"
      "serial_out s3 = serial_out ?e @ (if ring_full ?e then [] else [c])"
      "serial_input_buffer_condvar s3 = serial_input_buffer_condvar ?e" "cpu s3 = cpu ?e"
    using receive_body_ok [OF e(1-5)] by blast
  let ?s4 = "s3\<lparr>serial_input_buffer_condvar := unlocked_lock, cpu := settled (cpu s)\<rparr>"
  have unlock: "condvar_unlock SerialCond s3 = Ok ((), ?s4)"
    using cvl.unlock_entered [of s SerialCond s3] assms(2) s3(6,7)
    by (simp add: condvar_unlock_def cond_lock_def cond_lock_update_def)
  obtain d where eoi: "lapic_send_eoi ?s4 = Ok ((), ?s4\<lparr>apic_dev := d\<rparr>)" using lapic_send_eoi_ok [of ?s4] by (rule exE)
  have "serial_received_char s = Ok ((), ?s4\<lparr>apic_dev := d\<rparr>)"
    unfolding serial_received_char_eq using getc lock sec unlock eoi by (simp flip: c_def)
  moreover have "processes (woken 0 SerialCond ?e) = processes (woken 0 SerialCond s)" by (simp add: woken_def my_process_def)
  moreover have "serial_out ?e = serial_out s" using out by (simp add: serial_out_def)
  ultimately show ?thesis
    using s3 full e(6) by (intro exI [of _ "?s4\<lparr>apic_dev := d\<rparr>"] exI [of _ c]) (simp add: c_def serial_out_def)
qed

text \<open>
  C23. The interrupt of the serial port appends the byte it receives, a carriage return as a newline,
  to the queue of input bytes, echoes it, and makes every other process that sleeps on the queue
  runnable. When the queue holds its 127 bytes the byte is dropped without an echo, and no process
  changes.
\<close>

theorem serial_received_refines:
  assumes "ring_inv s" and "cpu_ok (cpu s)" and "unat (depth (cpu s)) < 1000" and "serial_input_buffer_condvar s = unlocked_lock"
    and "others_free s" and "transmits (ports s)" and "has_input c0 (ports s) P'"
  shows "\<exists>s' c. c = (if c0 = 13 then 10 else c0) \<and> serial_received_char s = Ok ((), s') \<and>
    ring_inv s' \<and> ring_contents s' = take 127 (ring_contents s @ [c]) \<and>
    processes s' = (if length (ring_contents s) = 127 then processes s else processes (woken 0 SerialCond s)) \<and>
    serial_out s' = serial_out s @ (if length (ring_contents s) = 127 then [] else [c]) \<and>
    serial_input_buffer_condvar s' = unlocked_lock \<and> cpu s' = settled (cpu s) \<and> mem s' = mem s"
  using assms by (rule serial_received_refines_aux)

text \<open>A terminal at which the return key was pressed, and a process that waits for it.\<close>

definition terminal_ports :: "u64 ports" where
  "terminal_ports = \<lparr>pdev = 0, pin8 = (\<lambda>port d. (if port = PORT + 5 then 0x21 else 13, d)), pout8 = (\<lambda>port v d. d),
     pin32 = (\<lambda>port d. (0, d)), pout32 = (\<lambda>port v d. d), ptsc = (\<lambda>d. (0, d)), plog = []\<rparr>"

definition terminal_machine :: "(unit, u64, unit, u32 \<times> (u32 \<Rightarrow> u32)) proc_state" where
  "terminal_machine = input_machine\<lparr>ports := terminal_ports,
     processes := (\<lambda>_. unused_process)(3 := unused_process\<lparr>pstate := SLEEPING, waiting_channel := Some SerialCond\<rparr>)\<rparr>"

lemma terminal_transmits: "transmits terminal_ports"
  by (auto simp: transmits_def terminal_ports_def intro!: exI [of _ 0])

theorem serial_received_refines_witness:
  "\<exists>s'. serial_received_char terminal_machine = Ok ((), s') \<and> ring_contents s' = [65, 66, 10] \<and>
    serial_out s' = [10] \<and> pstate (processes s' 3) = RUNNABLE"
proof -
  have out: "serial_out terminal_machine = []" by (simp add: serial_out_def terminal_machine_def terminal_ports_def)
  have ring: "ring_inv terminal_machine" "ring_contents terminal_machine = [65, 66]"
    using input_machine_ring by (simp_all add: terminal_machine_def)
  have "has_input 13 (ports terminal_machine) terminal_ports"
    by (simp add: has_input_def terminal_machine_def terminal_ports_def PORT_def)
  moreover have "others_free terminal_machine"
    by (simp add: others_free_def terminal_machine_def unused_process_def)
  ultimately show ?thesis
    using serial_received_refines [OF ring(1), of 13 terminal_ports] terminal_transmits out ring(2)
    by (auto simp: terminal_machine_def boot_cpu_def cpu_ok_def woken_def wake_from_def wake_def my_process_def MAX_PROCESSES_def)
qed

end
