(* ===== verification/Sched.thy ===== *)
theory Sched
  imports Serial_Input
begin

text \<open>
  The composition of the scheduler, the processes and the interrupt of the serial port as a step
  relation on one core, and what holds in every state it reaches.
\<close>

section \<open>Routines that leave the process table alone\<close>

text \<open>What a routine of the memory management keeps: everything behind its own globals.\<close>

definition keeps_more :: "'z \<Rightarrow> cpu \<Rightarrow> ('d, 'z) kernel_scheme \<Rightarrow> bool" where
  "keeps_more v c s \<longleftrightarrow> kernel.more s = v \<and> cpu_ok (cpu s) \<and> settled (cpu s) = c"

lemma kfree_keeps: "preserves (keeps_more v c) (kfree page)"
  unfolding preserves_def
proof (intro allI impI)
  fix s u s' assume k: "keeps_more v c s" and r: "kfree page s = Ok (u, s')"
  have ok: "cpu_ok (cpu s)" using k by (simp add: keeps_more_def)
  have "V2P s page mod PAGE_SIZE = 0" using r by (rule contrapos_pp) (simp add: kfree_def kassert_def kpanic_def kbind_def)
  moreover have "locked (freepages_lock s) = 0"
  proof (rule ccontr)
    assume "locked (freepages_lock s) \<noteq> 0"
    with r calculation show False
      by (simp add: kfree_def klock_def kbind_def spinlock_lock_def Let_def split: if_splits prod.splits)
  qed
  then have lock: "klock freepages_lock freepages_lock_update s = Ok ((), fpl.entered s)"
    using ok by (simp add: klock_def spinlock_lock_free fpl.entered_def)
  ultimately have "kunlock freepages_lock freepages_lock_update
      ((fpl.entered s)\<lparr>mem := store64 (mem s) page (freepages s), freepages := page\<rparr>) = Ok (u, s')"
    using r by (simp add: kfree_def fpl.entered_def)
  then show "keeps_more v c s'"
    using k fpl.unlock_entered [OF ok, of "(fpl.entered s)\<lparr>mem := store64 (mem s) page (freepages s), freepages := page\<rparr>"]
    by (auto simp: fpl.entered_def keeps_more_def)
qed

lemma get_pte_keeps: "preserves P (get_pte p)"
  by (simp add: preserves_def get_pte_def kgets_def)

lemma walk_from_keeps: "preserves P (walk_from l pt va False)"
  by (induction l arbitrary: pt) (simp_all only: walk_from.simps Let_def simp_thms if_True, (intro preserving get_pte_keeps | assumption)+)

lemma vmm_walkaddr_keeps: "preserves P (vmm_walkaddr pt va user)"
  unfolding vmm_walkaddr_def walk_def by (intro preserving get_pte_keeps walk_from_keeps)

lemma for_entries_keeps: "(\<And>i. preserves P (body i)) \<Longrightarrow> preserves P (for_entries k body)"
  by (induction k) (simp_all only: for_entries.simps, (intro preserving | assumption | blast)+)

lemma free_recursive_keeps: "preserves (keeps_more v c) (vmm_user_pagetable_free_recursive l pt va)"
proof (induction l arbitrary: pt va)
  case (Suc l)
  then show ?case
    unfolding vmm_user_pagetable_free_recursive.simps Let_def
    by (intro preserving for_entries_keeps get_pte_keeps kfree_keeps)
qed (simp only: vmm_user_pagetable_free_recursive.simps kfree_keeps)

lemma pagetable_free_keeps: "preserves (keeps_more v c) (vmm_user_pagetable_free pt)"
  unfolding vmm_user_pagetable_free_def free_stack_def
  by (intro preserving vmm_walkaddr_keeps kfree_keeps free_recursive_keeps)

section \<open>Quiet states\<close>

text \<open>No lock is held, and interrupts are not nested.\<close>

definition quiet :: "('d, 'p, 'f, 'a, 'z) proc_state_scheme \<Rightarrow> bool" where
  "quiet s \<longleftrightarrow> depth (cpu s) = 0 \<and> (\<forall>i<MAX_PROCESSES. plock (processes s i) = unlocked_lock) \<and>
     serial_input_buffer_condvar s = unlocked_lock \<and> ring_inv s"

lemma quietD:
  assumes "quiet s"
  shows "cpu_ok (cpu s)" "unat (depth (cpu s)) < 1000" "others_free s" "ring_inv s" "serial_input_buffer_condvar s = unlocked_lock"
    and "i < MAX_PROCESSES \<Longrightarrow> plock (processes s i) = unlocked_lock" "depth (cpu s) = 0"
  using assms by (simp_all add: quiet_def cpu_ok_def others_free_def)

lemma save_fields:
  "held_lock (save_and_disable_interrupts c) = held_lock c" "held_lock (settled c) = held_lock c"
  "depth c = 0 \<Longrightarrow> save_and_disable_interrupts (settled c) = save_and_disable_interrupts c"
  "(save_and_disable_interrupts c)\<lparr>running_process := r\<rparr> = save_and_disable_interrupts (c\<lparr>running_process := r\<rparr>)"
  "(save_and_disable_interrupts c)\<lparr>last_running_process := r\<rparr> = save_and_disable_interrupts (c\<lparr>last_running_process := r\<rparr>)"
  "last_running_process (save_and_disable_interrupts c) = last_running_process c"
  "held_lock (c\<lparr>running_process := r\<rparr>) = held_lock c" "held_lock (c\<lparr>last_running_process := r\<rparr>) = held_lock c"
  by (cases c; simp add: held_lock_def save_and_disable_interrupts_def settled_def Let_def)+

lemma entered_settled:
  "depth (cpu s) = 0 \<Longrightarrow> cvl.entered c (s\<lparr>cpu := settled (cpu s)\<rparr>) = cvl.entered c s"
  by (cases c) (simp_all add: cvl.entered_def cond_lock_update_def set_proc_def save_fields)

text \<open>What a process has done when it has switched to the scheduler with the changes \<open>f\<close> to itself.\<close>

definition left :: "nat \<Rightarrow> (process \<Rightarrow> process) \<Rightarrow> ('d, 'p, 'f, 'a, 'z) proc_state_scheme \<Rightarrow> ('d, 'p, 'f, 'a, 'z) proc_state_scheme" where
  "left p f s = set_proc p (\<lambda>q. f (q\<lparr>plock := held_lock (cpu s)\<rparr>)) (s\<lparr>cpu := save_and_disable_interrupts (cpu s)\<rparr>)"

definition gone :: "nat \<Rightarrow> (process \<Rightarrow> process) \<Rightarrow> ('d, 'p, 'f, 'a, 'z) proc_state_scheme \<Rightarrow> ('d, 'p, 'f, 'a, 'z) proc_state_scheme" where
  "gone p f s = (set_proc p (\<lambda>q. (f q)\<lparr>plock := unlocked_lock\<rparr>) s)\<lparr>cpu := settled ((cpu s)\<lparr>running_process := None\<rparr>)\<rparr>"

lemma switched_back_left:
  assumes "cpu_ok (cpu s)" and "\<And>q l. f (q\<lparr>plock := l\<rparr>) = (f q)\<lparr>plock := l\<rparr>"
  shows "scheduler_switched_back p (left p f s) = Ok ((), gone p f s)"
proof -
  let ?s = "s\<lparr>cpu := (cpu s)\<lparr>running_process := None\<rparr>\<rparr>" and ?s1 = "(left p f s)\<lparr>cpu := (cpu (left p f s))\<lparr>running_process := None\<rparr>\<rparr>"
  have "cpu_ok (cpu ?s)" using assms(1) by (simp add: cpu_ok_def)
  then have "kunlock (cond_lock (ProcessCond p)) (cond_lock_update (ProcessCond p)) ?s1 =
      Ok ((), (cond_lock_update (ProcessCond p) (\<lambda>_. unlocked_lock) ?s1)\<lparr>cpu := settled (cpu ?s)\<rparr>)"
    by (rule cvl.unlock_entered) (simp_all add: left_def cond_lock_def save_fields assms(2))
  then show ?thesis
    by (simp add: scheduler_switched_back_def condvar_unlock_def cond_lock_update_def gone_def left_def set_proc_def assms(2))
qed

lemma switch_back_ok:
  assumes "my_process s = Some p" and "locked (plock (processes s p)) \<noteq> 0" and "pstate (processes s p) \<noteq> RUNNING"
  shows "scheduler_switch_back here s = Ok ((), set_proc p (resume_stack_pointer_update (\<lambda>_. here)) s)"
  using assms by (simp add: scheduler_switch_back_def the_process_def spinlock_locked_def)

lemma wait_ok:
  assumes "quiet s" and "my_process s = Some p" and "p < MAX_PROCESSES" and "cond_lock cond s = unlocked_lock" and "cond \<noteq> ProcessCond p"
  shows "condvar_wait cond here (cvl.entered cond s) =
    Ok ((), left p (\<lambda>q. q\<lparr>pstate := SLEEPING, waiting_channel := Some cond, resume_stack_pointer := here\<rparr>) s)"
proof -
  note q = quietD [OF assms(1)]
  let ?e = "cvl.entered cond s"
  have c: "cpu ?e = save_and_disable_interrupts (cpu s)" by (simp add: cvl.entered_def)
  have ok: "cpu_ok (cpu ?e)" unfolding c using q(1,2) by (rule cpu_ok_save)
  have p: "processes ?e p = processes s p" using assms(5) by (cases cond) (simp_all add: cvl.entered_def cond_lock_update_def)
  have me: "my_process ?e = Some p" using assms(2) by (simp add: my_process_def c)
  let ?e2 = "cvl.entered (ProcessCond p) ?e"
  have lock: "condvar_lock (ProcessCond p) ?e = Ok ((), ?e2)"
    using ok by (rule condvar_lock_free) (simp add: cond_lock_def p q(6) [OF assms(3)])
  let ?s3 = "(cond_lock_update cond (\<lambda>_. unlocked_lock) ?e2)\<lparr>cpu := settled (cpu ?e)\<rparr>"
  have unlock: "condvar_unlock cond ?e2 = Ok ((), ?s3)"
    unfolding condvar_unlock_def using ok
    by (rule cvl.unlock_entered)
      (use assms(5) in \<open>cases cond; simp add: cvl.entered_def cond_lock_def cond_lock_update_def save_fields\<close>)+
  have s3: "?s3 = (set_proc p (plock_update (\<lambda>_. held_lock (cpu s))) s)\<lparr>cpu := save_and_disable_interrupts (cpu s)\<rparr>"
    using assms(4,5) settled_save [OF q(2)]
    by (cases cond) (auto simp: cvl.entered_def cond_lock_def cond_lock_update_def save_fields set_proc_def plock_update_id
      condvar_update_id fun_upd_twist)
  let ?s4 = "set_proc p (\<lambda>q. q\<lparr>pstate := SLEEPING, waiting_channel := Some cond\<rparr>) ?s3"
  have "scheduler_switch_back here ?s4 = Ok ((), set_proc p (resume_stack_pointer_update (\<lambda>_. here)) ?s4)"
    by (rule switch_back_ok) (use assms(2) in \<open>simp_all add: s3 my_process_def held_lock_def\<close>)
  then have "condvar_wait cond here ?e = Ok ((), set_proc p (resume_stack_pointer_update (\<lambda>_. here)) ?s4)"
    unfolding condvar_wait_def using me lock unlock by simp
  also have "set_proc p (resume_stack_pointer_update (\<lambda>_. here)) ?s4 =
      left p (\<lambda>q. q\<lparr>pstate := SLEEPING, waiting_channel := Some cond, resume_stack_pointer := here\<rparr>) s"
    unfolding s3 by (simp add: left_def set_proc_def)
  finally show ?thesis .
qed

section \<open>What the calls do\<close>

lemma wait_loop_ok:
  assumes "quiet s" and "my_process s = Some p" and "p < MAX_PROCESSES" and "t < MAX_PROCESSES"
  shows "pstate (processes s t) = EXITED \<Longrightarrow>
      proc_wait_loop t (cvl.entered (ProcessCond t) s) = Ok (Return (exit_status (processes s t)), s\<lparr>cpu := settled (cpu s)\<rparr>)"
    and "pstate (processes s t) \<noteq> EXITED \<Longrightarrow> t \<noteq> p \<Longrightarrow>
      proc_wait_loop t (cvl.entered (ProcessCond t) s) = Ok (Switched,
        left p (\<lambda>q. q\<lparr>pstate := SLEEPING, waiting_channel := Some (ProcessCond t), resume_stack_pointer := InWait t\<rparr>) s)"
    and "pstate (processes s t) \<noteq> EXITED \<Longrightarrow> t = p \<Longrightarrow>
      proc_wait_loop t (cvl.entered (ProcessCond t) s) = Panic ''deadlock''"
proof -
  note q = quietD [OF assms(1)]
  have free: "cond_lock (ProcessCond t) s = unlocked_lock" using q(6) [OF assms(4)] by (simp add: cond_lock_def)
  have e: "pstate (processes (cvl.entered (ProcessCond t) s) t) = pstate (processes s t)"
    "exit_status (processes (cvl.entered (ProcessCond t) s) t) = exit_status (processes s t)" by (simp_all add: entered_process)
  have unlock: "condvar_unlock (ProcessCond t) (cvl.entered (ProcessCond t) s) = Ok ((), s\<lparr>cpu := settled (cpu s)\<rparr>)"
    unfolding condvar_unlock_def by (rule cvl.leave_entered [OF q(1) free])
  show "proc_wait_loop t (cvl.entered (ProcessCond t) s) = Ok (Return (exit_status (processes s t)), s\<lparr>cpu := settled (cpu s)\<rparr>)"
    if "pstate (processes s t) = EXITED"
    unfolding proc_wait_loop_def using that e unlock by simp
  show "proc_wait_loop t (cvl.entered (ProcessCond t) s) = Ok (Switched,
      left p (\<lambda>q. q\<lparr>pstate := SLEEPING, waiting_channel := Some (ProcessCond t), resume_stack_pointer := InWait t\<rparr>) s)"
    if "pstate (processes s t) \<noteq> EXITED" "t \<noteq> p"
    unfolding proc_wait_loop_def using that(1) e wait_ok [OF assms(1-3) free, of "InWait t"] that(2) by simp
  show "proc_wait_loop t (cvl.entered (ProcessCond t) s) = Panic ''deadlock''"
    if "pstate (processes s t) \<noteq> EXITED" "t = p"
  proof -
    have "condvar_lock (ProcessCond p) (cvl.entered (ProcessCond p) s) = Panic ''deadlock''"
      using spinlock_lock_self [of "cpu s"] q(2) by (simp add: condvar_lock_def klock_def entered_process cond_lock_def)
    then show ?thesis
      unfolding proc_wait_loop_def condvar_wait_def using that e assms(2) by (simp add: my_process_def entered_process)
  qed
qed

lemma rtc_now_Ok: "rtc_now s = Ok (n, s') \<Longrightarrow> \<exists>P. s' = s\<lparr>ports := P\<rparr>"
  by (auto simp: rtc_now_def get_tsc_def kbind_def split: prod.splits if_splits)

lemma yield_ok:
  assumes "quiet s" and "my_process s = Some p" and "p < MAX_PROCESSES"
  shows "handle_trap T_YEILD err s = Ok (Switched, left p (\<lambda>q. q\<lparr>pstate := RUNNABLE, resume_stack_pointer := InYield\<rparr>) s)"
proof -
  note q = quietD [OF assms(1)]
  let ?e = "cvl.entered (ProcessCond p) s" and ?r = "set_proc p (pstate_update (\<lambda>_. RUNNABLE)) (cvl.entered (ProcessCond p) s)"
  have lock: "condvar_lock (ProcessCond p) s = Ok ((), ?e)"
    using q(1) by (rule condvar_lock_free) (simp add: cond_lock_def q(6) [OF assms(3)])
  have sback: "scheduler_switch_back InYield ?r = Ok ((), set_proc p (resume_stack_pointer_update (\<lambda>_. InYield)) ?r)"
    by (rule switch_back_ok) (use assms(2) in \<open>simp_all add: entered_process my_process_def held_lock_def\<close>)
  have "set_proc p (resume_stack_pointer_update (\<lambda>_. InYield)) ?r =
      left p (\<lambda>q. q\<lparr>pstate := RUNNABLE, resume_stack_pointer := InYield\<rparr>) s"
    by (simp add: left_def entered_process set_proc_def)
  moreover have "T_YEILD \<noteq> ucast (T_IRQ0 + IRQ_COM1)" by (simp add: T_YEILD_def T_IRQ0_def IRQ_COM1_def)
  ultimately show ?thesis
    unfolding handle_trap_def the_process_def using lock sback assms(2) by simp
qed

lemma sleep_loop_ok:
  assumes "quiet s" and "my_process s = Some p" and "p < MAX_PROCESSES"
    and "sys_sleep_loop target (cvl.entered (ProcessCond p) s) = Ok (r, s')"
  shows "\<exists>P. (r = Return () \<and> s' = s\<lparr>ports := P, cpu := settled (cpu s)\<rparr>) \<or>
    (r = Switched \<and> s' = left p (\<lambda>q. q\<lparr>pstate := RUNNABLE, resume_stack_pointer := InSleep target\<rparr>) (s\<lparr>ports := P\<rparr>))"
proof -
  note q = quietD [OF assms(1)]
  let ?e = "cvl.entered (ProcessCond p) s"
  obtain now P where now: "rtc_now ?e = Ok (now, ?e\<lparr>ports := P\<rparr>)"
  proof (cases "rtc_now ?e")
    case (Ok x)
    then show ?thesis using rtc_now_Ok [of ?e "fst x" "snd x"] that by (cases x) auto
  qed (use assms(4) in \<open>simp_all add: sys_sleep_loop_def\<close>)
  let ?s = "s\<lparr>ports := P\<rparr>"
  have e: "?e\<lparr>ports := P\<rparr> = cvl.entered (ProcessCond p) ?s" by (simp add: entered_process set_proc_def)
  have me: "my_process (cvl.entered (ProcessCond p) ?s) = Some p" using assms(2) by (simp add: entered_process my_process_def)
  let ?r = "set_proc p (pstate_update (\<lambda>_. RUNNABLE)) (cvl.entered (ProcessCond p) ?s)"
  have sback: "scheduler_switch_back (InSleep target) ?r = Ok ((), set_proc p (resume_stack_pointer_update (\<lambda>_. InSleep target)) ?r)"
    by (rule switch_back_ok) (use assms(2) in \<open>simp_all add: entered_process my_process_def held_lock_def\<close>)
  have left: "set_proc p (resume_stack_pointer_update (\<lambda>_. InSleep target)) ?r =
      left p (\<lambda>q. q\<lparr>pstate := RUNNABLE, resume_stack_pointer := InSleep target\<rparr>) ?s"
    by (simp add: left_def entered_process set_proc_def)
  have unlock: "condvar_unlock (ProcessCond p) (cvl.entered (ProcessCond p) ?s) = Ok ((), ?s\<lparr>cpu := settled (cpu ?s)\<rparr>)"
    unfolding condvar_unlock_def by (rule cvl.leave_entered) (simp_all add: cond_lock_def q(1) q(6) [OF assms(3)])
  show ?thesis
  proof (cases "now < target")
    case True
    then have "sys_sleep_loop target ?e = Ok (Switched, left p (\<lambda>q. q\<lparr>pstate := RUNNABLE, resume_stack_pointer := InSleep target\<rparr>) ?s)"
      unfolding sys_sleep_loop_def the_process_def using now me sback left by (simp add: e)
    with assms(4) show ?thesis by auto
  next
    case False
    then have "sys_sleep_loop target ?e = Ok (Return (), ?s\<lparr>cpu := settled (cpu ?s)\<rparr>)"
      unfolding sys_sleep_loop_def the_process_def using now me unlock by (simp add: e)
    with assms(4) show ?thesis by auto
  qed
qed

primrec first_from :: "nat \<Rightarrow> (process \<Rightarrow> bool) \<Rightarrow> (nat \<Rightarrow> process) \<Rightarrow> nat option" where
  "first_from 0 P ps = None"
| "first_from (Suc k) P ps = (let i = MAX_PROCESSES - Suc k in if P (ps i) then Some i else first_from k P ps)"

lemma first_from_Some: "first_from k P ps = Some i \<Longrightarrow> k \<le> MAX_PROCESSES \<Longrightarrow> i < MAX_PROCESSES \<and> P (ps i)"
  by (induction k) (auto simp: Let_def split: if_splits)

lemma quiet_settled [simp]: "quiet (s\<lparr>cpu := settled (cpu s)\<rparr>) = quiet s"
  by (simp add: quiet_def)

lemma find_slot_ok:
  assumes "\<And>q l. P (q\<lparr>plock := l\<rparr>) = P q"
  shows "quiet s \<Longrightarrow> k \<le> MAX_PROCESSES \<Longrightarrow> find_slot k P s =
    (case first_from k P (processes s) of
       None \<Rightarrow> Ok (None, if k = 0 then s else s\<lparr>cpu := settled (cpu s)\<rparr>)
     | Some i \<Rightarrow> Ok (Some i, cvl.entered (ProcessCond i) s))"
proof (induction k arbitrary: s)
  case (Suc k)
  let ?i = "MAX_PROCESSES - Suc k" and ?s = "s\<lparr>cpu := settled (cpu s)\<rparr>"
  note q = quietD [OF Suc.prems(1)]
  have free: "cond_lock (ProcessCond ?i) s = unlocked_lock" using q(6) [of ?i] Suc.prems(2) by (simp add: cond_lock_def)
  have lock: "condvar_lock (ProcessCond ?i) s = Ok ((), cvl.entered (ProcessCond ?i) s)"
    using q(1) free by (rule condvar_lock_free)
  have unlock: "condvar_unlock (ProcessCond ?i) (cvl.entered (ProcessCond ?i) s) = Ok ((), ?s)"
    unfolding condvar_unlock_def by (rule cvl.leave_entered [OF q(1) free])
  have P: "P (processes (cvl.entered (ProcessCond ?i) s) ?i) = P (processes s ?i)" by (simp add: entered_process assms)
  have step: "find_slot (Suc k) P s = (if P (processes s ?i) then Ok (Some ?i, cvl.entered (ProcessCond ?i) s) else find_slot k P ?s)"
    unfolding find_slot.simps Let_def using lock unlock P by simp
  have "quiet ?s" using Suc.prems(1) by simp
  from Suc.IH [OF this] Suc.prems(2) have IH: "find_slot k P ?s = (case first_from k P (processes s) of
      None \<Rightarrow> Ok (None, ?s) | Some i \<Rightarrow> Ok (Some i, cvl.entered (ProcessCond i) s))"
    by (simp add: entered_settled q(7) split: option.splits)
  show ?case unfolding step first_from.simps Let_def IH by simp
qed simp

lemma proc_wait_ok:
  assumes "quiet s"
  shows "proc_wait target s = (case first_from MAX_PROCESSES (\<lambda>q. pid q = target) (processes s) of
      None \<Rightarrow> Ok (Return (-1), s\<lparr>cpu := settled (cpu s)\<rparr>)
    | Some t \<Rightarrow> proc_wait_loop t (cvl.entered (ProcessCond t) s))"
  unfolding proc_wait_def
  using find_slot_ok [OF _ assms, of "\<lambda>q. pid q = target" MAX_PROCESSES] by (simp add: MAX_PROCESSES_def split: option.splits)

text \<open>What exiting changes before the process is locked: its open files and their inodes.\<close>

definition only_files :: "nat \<Rightarrow> ('d, 'p, 'f, 'a, 'z) proc_state_scheme \<Rightarrow> ('d, 'p, 'f, 'a, 'z) proc_state_scheme \<Rightarrow> bool" where
  "only_files p s s' \<longleftrightarrow> (\<forall>q. q \<noteq> p \<longrightarrow> processes s' q = processes s q) \<and>
     (processes s' p)\<lparr>open_files := []\<rparr> = (processes s p)\<lparr>open_files := []\<rparr> \<and>
     serial_input_buffer s' = serial_input_buffer s \<and> serial_input_buffer_read_index s' = serial_input_buffer_read_index s \<and>
     serial_input_buffer_write_index s' = serial_input_buffer_write_index s \<and>
     serial_input_buffer_condvar s' = serial_input_buffer_condvar s \<and> (cpu s' = cpu s \<or> cpu s' = settled (cpu s))"

lemma only_files_trans: "only_files p s s' \<Longrightarrow> only_files p s' s'' \<Longrightarrow> only_files p s s''"
  by (auto simp: only_files_def)

lemma fs_close_Ok:
  assumes "fs_close n s = Ok (u, s')" and "cpu_ok (cpu s)"
  shows "\<exists>N. s' = s\<lparr>inodes := N, cpu := settled (cpu s)\<rparr>"
proof -
  have "locked (ilock (inodes s n)) = 0"
  proof (rule ccontr)
    assume "locked (ilock (inodes s n)) \<noteq> 0"
    with assms(1) show False
      by (simp add: fs_close_def lock_inode_def klock_def kbind_def spinlock_lock_def Let_def split: if_splits prod.splits)
  qed
  then have lock: "lock_inode n s = Ok ((), ilk.entered n s)"
    using assms(2) by (simp add: lock_inode_def klock_def spinlock_lock_free ilk.entered_def)
  let ?s1 = "set_inode n drop_reference (ilk.entered n s)"
  have "unlock_inode n ?s1 = Ok ((), (ilock_update_at n (\<lambda>_. unlocked_lock) ?s1)\<lparr>cpu := settled (cpu s)\<rparr>)"
    unfolding unlock_inode_def using assms(2)
    by (rule ilk.unlock_entered) (simp_all add: ilk.entered_def ilock_update_at_def drop_reference_ilock)
  then have "s' = (ilock_update_at n (\<lambda>_. unlocked_lock) ?s1)\<lparr>cpu := settled (cpu s)\<rparr>"
    using assms(1) lock by (simp add: fs_close_def)
  then show ?thesis by (auto simp: ilk.entered_def ilock_update_at_def set_inode_def)
qed

lemma close_files_Ok:
  "close_files k p s = Ok (u, s') \<Longrightarrow> cpu_ok (cpu s) \<Longrightarrow> only_files p s s'"
proof (induction k arbitrary: s)
  case 0
  then show ?case by (simp add: only_files_def)
next
  case (Suc k)
  let ?i = "MAX_OPEN_FILES - Suc k"
  let ?f = "open_files (processes s p) ! ?i"
  have "\<exists>s1. (if fd_type ?f = FD_INODE then kbind (close_inode (structures ?f)) (\<lambda>_. kmodify (set_file p ?i (fd_type_update (\<lambda>_. FD_EMPTY))))
      else kret ()) s = Ok ((), s1) \<and> close_files k p s1 = Ok (u, s')"
    using Suc.prems(1) unfolding close_files.simps Let_def by (auto elim: kbind_OkE)
  then obtain s1 where s1: "(if fd_type ?f = FD_INODE then kbind (close_inode (structures ?f)) (\<lambda>_. kmodify (set_file p ?i (fd_type_update (\<lambda>_. FD_EMPTY))))
      else kret ()) s = Ok ((), s1)" "close_files k p s1 = Ok (u, s')" by blast
  have "only_files p s s1"
  proof (cases "fd_type ?f = FD_INODE")
    case False
    then show ?thesis using s1(1) by (simp add: only_files_def)
  next
    case True
    then obtain n where n: "structures ?f = Inode (Some n)"
      using s1(1) by (cases "structures ?f"; cases "case structures ?f of Inode x \<Rightarrow> x | _ \<Rightarrow> None")
        (auto simp: close_inode_def kundef_def kbind_def)
    obtain s2 where s2: "fs_close n s = Ok ((), s2)" "s1 = set_file p ?i (fd_type_update (\<lambda>_. FD_EMPTY)) s2"
      using s1(1) True by (auto simp: close_inode_def n elim: kbind_OkE)
    from fs_close_Ok [OF s2(1) Suc.prems(2)] s2(2) show ?thesis
      by (auto simp: only_files_def set_file_def set_proc_def)
  qed
  moreover then have "cpu_ok (cpu s1)" using Suc.prems(2) by (auto simp: only_files_def)
  ultimately show ?case using Suc.IH [OF s1(2)] only_files_trans by blast
qed

lemma reenter:
  assumes "plock (processes s i) = held_lock c" and "cpu s = save_and_disable_interrupts c"
  shows "cvl.entered (ProcessCond i) ((set_proc i (plock_update (\<lambda>_. l)) s)\<lparr>cpu := c\<rparr>) = s"
proof -
  have "set_proc i (plock_update (\<lambda>_. held_lock c)) s = s"
    using assms(1) by (simp add: set_proc_def plock_update_id processes_update_id)
  moreover have "cvl.entered (ProcessCond i) ((set_proc i (plock_update (\<lambda>_. l)) s)\<lparr>cpu := c\<rparr>) =
      (set_proc i (plock_update (\<lambda>_. held_lock c)) s)\<lparr>cpu := save_and_disable_interrupts c\<rparr>"
    by (simp add: entered_process set_proc_def)
  ultimately show ?thesis using cpu_update_same [OF assms(2)] by simp
qed

lemma exit_ok:
  assumes "quiet s" and "my_process s = Some p" and "p < MAX_PROCESSES" and "proc_exit code s = Ok (r, s')"
  shows "r = Switched \<and> (\<exists>s1. only_files p s s1 \<and>
    s' = left p (\<lambda>q. q\<lparr>exit_status := code, pstate := EXITED, resume_stack_pointer := InExit\<rparr>) (woken 0 (ProcessCond p) s1))"
proof -
  note q = quietD [OF assms(1)]
  obtain s1 where s1: "close_files MAX_OPEN_FILES p s = Ok ((), s1)"
    using assms(2,4) by (cases "close_files MAX_OPEN_FILES p s") (auto simp: proc_exit_def the_process_def)
  then have of: "only_files p s s1" using q(1) by (rule close_files_Ok)
  have pl: "plock (processes s1 p) = unlocked_lock"
    using of q(6) [OF assms(3)] by (metis only_files_def process.select_convs(9) process.update_convs(4) process.surjective)
  have c: "cpu_ok (cpu s1)" "unat (depth (cpu s1)) < 1000" "my_process s1 = Some p" "others_free s1"
    using of q assms(2) by (auto simp: only_files_def my_process_def others_free_def)
  let ?e = "cvl.entered (ProcessCond p) s1"
  have lock: "condvar_lock (ProcessCond p) s1 = Ok ((), ?e)"
    using c(1) by (rule condvar_lock_free) (simp add: cond_lock_def pl)
  let ?s2 = "set_proc p (exit_status_update (\<lambda>_. code)) ?e"
  have notify: "condvar_notify_all (ProcessCond p) ?s2 = Ok ((), woken 0 (ProcessCond p) ?s2)"
    by (rule notify_all_eq)
      (use c cpu_ok_save [OF c(1,2)] settled_save [OF c(2)] in \<open>simp_all add: entered_process others_free_def my_process_def\<close>)
  let ?s3 = "set_proc p (pstate_update (\<lambda>_. EXITED)) (woken 0 (ProcessCond p) ?s2)"
  have me: "my_process ?s2 = Some p" using c(3) by (simp add: entered_process my_process_def)
  have "scheduler_switch_back InExit ?s3 = Ok ((), set_proc p (resume_stack_pointer_update (\<lambda>_. InExit)) ?s3)"
  proof (rule switch_back_ok)
    show "my_process ?s3 = Some p" using me by simp
    have "processes (woken 0 (ProcessCond p) ?s2) p = processes ?s2 p" by (simp add: woken_def me [simplified]) (simp add: wake_from_def)
    then show "locked (plock (processes ?s3 p)) \<noteq> 0" by (simp add: entered_process held_lock_def)
  qed simp
  then have "proc_exit code s = Ok (Switched, set_proc p (resume_stack_pointer_update (\<lambda>_. InExit)) ?s3)"
    unfolding proc_exit_def the_process_def using assms(2) s1 lock notify by simp
  moreover have "set_proc p (resume_stack_pointer_update (\<lambda>_. InExit)) ?s3 =
      left p (\<lambda>q. q\<lparr>exit_status := code, pstate := EXITED, resume_stack_pointer := InExit\<rparr>) (woken 0 (ProcessCond p) s1)"
    using c(3) unfolding woken_def me
    by (simp add: left_def set_proc_def entered_process my_process_def) (auto simp: wake_from_def fun_eq_iff)
  ultimately show ?thesis using assms(4) of by auto
qed

section \<open>Switching to a process\<close>

definition save_fpu :: "nat option \<Rightarrow> u8 list \<Rightarrow> (nat \<Rightarrow> process) \<Rightarrow> nat \<Rightarrow> process" where
  "save_fpu old area ps =
     (case old of None \<Rightarrow> ps | Some p \<Rightarrow> ps(p := additional_data_update (fpu_state_update (\<lambda>_. area)) (ps p)))"

lemma save_fpu_simps [simp]:
  "pstate (save_fpu old area ps j) = pstate (ps j)" "waiting_channel (save_fpu old area ps j) = waiting_channel (ps j)"
  "resume_stack_pointer (save_fpu old area ps j) = resume_stack_pointer (ps j)" "plock (save_fpu old area ps j) = plock (ps j)"
  "exit_status (save_fpu old area ps j) = exit_status (ps j)" "pagetable (save_fpu old area ps j) = pagetable (ps j)"
  "pid (save_fpu old area ps j) = pid (ps j)" "gs_base (additional_data (save_fpu old area ps j)) = gs_base (additional_data (ps j))"
  by (simp_all add: save_fpu_def split: option.splits)

lemma load_data_eq:
  "load_additional_data_if_needed old new s = Ok ((),
     if old = Some new then s
     else s\<lparr>msr := (msr s)(MSR_KERNEL_GS_BASE := gs_base (additional_data (processes s new))),
            processes := save_fpu old (fpu s) (processes s),
            fpu := fpu_state (additional_data (save_fpu old (fpu s) (processes s) new))\<rparr>)"
  by (cases old) (simp_all add: load_additional_data_if_needed_def wrmsr_def fpu_save_def fpu_load_def save_fpu_def set_proc_def processes_update_id)

text \<open>The floating point state of a process: in the registers, or saved.\<close>

definition fpu_of :: "('d, 'p, 'f, 'a, 'z) proc_state_scheme \<Rightarrow> nat \<Rightarrow> u8 list" where
  "fpu_of s p = (if last_running_process (cpu s) = Some p then fpu s else fpu_state (additional_data (processes s p)))"

definition dispatched :: "nat \<Rightarrow> ('d, 'p, 'f, 'a, 'z) proc_state_scheme \<Rightarrow> ('d, 'p, 'f, 'a, 'z) proc_state_scheme \<Rightarrow> bool" where
  "dispatched i s s' \<longleftrightarrow> quiet s' \<and> my_process s' = Some i \<and> last_running_process (cpu s') = Some i \<and>
     (\<forall>j. pstate (processes s' j) = (if j = i then RUNNING else pstate (processes s j)) \<and>
        waiting_channel (processes s' j) = waiting_channel (processes s j) \<and>
        resume_stack_pointer (processes s' j) = resume_stack_pointer (processes s j) \<and>
        exit_status (processes s' j) = exit_status (processes s j) \<and> pid (processes s' j) = pid (processes s j) \<and>
        fpu_of s' j = fpu_of s j) \<and>
     ring_contents s' = ring_contents s \<and> fpu s' = fpu_of s i \<and> cr3 s' = V2P s (pagetable (processes s i)) AND 0xFFFFFFFFFFFFF000 \<and>
     (last_running_process (cpu s) \<noteq> Some i \<longrightarrow> msr s' MSR_KERNEL_GS_BASE = gs_base (additional_data (processes s i)))"

lemma slot_runnable:
  assumes "quiet s" and "i < MAX_PROCESSES" and "pstate (processes s i) = RUNNABLE"
  obtains s' where "scheduler_slot i s = Ok (Switched, cvl.entered (ProcessCond i) s')" and "dispatched i s s'"
proof -
  note q = quietD [OF assms(1)]
  define old c where "old = last_running_process (cpu s)" and "c = (cpu s)\<lparr>running_process := Some i, last_running_process := Some i\<rparr>"
  let ?e = "cvl.entered (ProcessCond i) s"
  have lock: "condvar_lock (ProcessCond i) s = Ok ((), ?e)"
    using q(1) by (rule condvar_lock_free) (simp add: cond_lock_def q(6) [OF assms(2)])
  define s2 where "s2 = set_proc i (pstate_update (\<lambda>_. RUNNING)) ?e"
  define s3 where "s3 = (if old = Some i then s2
     else s2\<lparr>msr := (msr s2)(MSR_KERNEL_GS_BASE := gs_base (additional_data (processes s2 i))),
            processes := save_fpu old (fpu s2) (processes s2),
            fpu := fpu_state (additional_data (save_fpu old (fpu s2) (processes s2) i))\<rparr>)"
  have load: "load_additional_data_if_needed old i s2 = Ok ((), s3)" unfolding s3_def by (rule load_data_eq)
  let ?s4 = "s3\<lparr>cpu := (cpu s3)\<lparr>running_process := Some i, last_running_process := Some i\<rparr>\<rparr>"
  let ?x = "?s4\<lparr>cr3 := V2P ?s4 (pagetable (processes s i)) AND 0xFFFFFFFFFFFFF000\<rparr>"
  have old: "last_running_process (cpu s2) = old" by (simp add: s2_def entered_process old_def save_fields)
  have slot: "scheduler_slot i s = Ok (Switched, ?x)"
    unfolding scheduler_slot_def using lock assms(3) load old
    by (simp add: entered_process s2_def install_pagetable_def)
  have x: "cpu ?x = save_and_disable_interrupts c" "plock (processes ?x i) = held_lock c"
    by (simp_all add: s3_def s2_def entered_process c_def save_fields)
  define s' where "s' = (set_proc i (plock_update (\<lambda>_. unlocked_lock)) ?x)\<lparr>cpu := c\<rparr>"
  have "cvl.entered (ProcessCond i) s' = ?x" unfolding s'_def by (rule reenter [OF x(2,1)])
  moreover have "dispatched i s s'"
  proof (cases "old = Some i")
    case True
    then show ?thesis
      using assms(1) by (auto simp: dispatched_def s'_def s3_def s2_def entered_process c_def my_process_def quiet_def fpu_of_def
        V2P_def ring_contents_def ring_inv_def set_proc_def old_def)
  next
    case False
    then show ?thesis
      using assms(1) by (auto simp: dispatched_def s'_def s3_def s2_def entered_process c_def my_process_def quiet_def fpu_of_def
        V2P_def ring_contents_def ring_inv_def set_proc_def old_def save_fpu_def split: option.splits)
  qed
  ultimately show ?thesis using slot that [of s'] by simp
qed

lemma slot_idle:
  assumes "quiet s" and "i < MAX_PROCESSES" and "pstate (processes s i) \<noteq> RUNNABLE" and "pstate (processes s i) \<noteq> EXITED"
  shows "scheduler_slot i s = Ok (Return (), s\<lparr>cpu := settled (cpu s)\<rparr>)"
proof -
  note q = quietD [OF assms(1)]
  have free: "cond_lock (ProcessCond i) s = unlocked_lock" using q(6) [OF assms(2)] by (simp add: cond_lock_def)
  have "condvar_lock (ProcessCond i) s = Ok ((), cvl.entered (ProcessCond i) s)" by (rule condvar_lock_free [OF q(1) free])
  moreover have "condvar_unlock (ProcessCond i) (cvl.entered (ProcessCond i) s) = Ok ((), s\<lparr>cpu := settled (cpu s)\<rparr>)"
    unfolding condvar_unlock_def by (rule cvl.leave_entered [OF q(1) free])
  moreover have "pstate (processes (cvl.entered (ProcessCond i) s) i) = pstate (processes s i)" by (simp add: entered_process)
  ultimately show ?thesis
    unfolding scheduler_slot_def using assms(3,4) by (cases "pstate (processes s i)") simp_all
qed

lemma more_fields:
  fixes s t :: "('d, 'p, 'f, 'a, 'z) proc_state_scheme"
  assumes "kernel.more s = kernel.more t"
  shows "processes s = processes t" "serial_input_buffer s = serial_input_buffer t"
    "serial_input_buffer_read_index s = serial_input_buffer_read_index t"
    "serial_input_buffer_write_index s = serial_input_buffer_write_index t"
    "serial_input_buffer_condvar s = serial_input_buffer_condvar t"
  using assms by (cases s; cases t; simp)+

definition reaped :: "nat \<Rightarrow> ('d, 'p, 'f, 'a, 'z) proc_state_scheme \<Rightarrow> ('d, 'p, 'f, 'a, 'z) proc_state_scheme \<Rightarrow> bool" where
  "reaped i s s' \<longleftrightarrow> quiet s' \<and> my_process s' = my_process s \<and> (\<forall>j. j \<noteq> i \<longrightarrow> processes s' j = processes s j) \<and>
     pstate (processes s' i) = UNUSED \<and> resume_stack_pointer (processes s' i) = StackAt 0 \<and> pid (processes s' i) = 0 \<and>
     ring_contents s' = ring_contents s"

definition reap :: "nat \<Rightarrow> (('d, 'p, 'f, 'a, 'z) proc_state_scheme, unit control) kern" where
  "reap i =
     kbind (kmodify (set_proc i (\<lambda>p. p\<lparr>pstate := UNUSED, pid := 0, resume_stack_pointer := StackAt 0, current_sbrk := 0,
              initial_data_segment := 0, pagetable := 0, additional_data := no_data\<rparr>))) (\<lambda>_.
     kbind (kmodify (\<lambda>s. if last_running_process (cpu s) = Some i then s\<lparr>cpu := (cpu s)\<lparr>last_running_process := None\<rparr>\<rparr> else s)) (\<lambda>_.
     kbind (condvar_unlock (ProcessCond i)) (\<lambda>_. kret (Return ()))))"

lemma reap_ok:
  assumes "quiet s" and "i < MAX_PROCESSES" and f: "processes t = processes (cvl.entered (ProcessCond i) s)"
    "serial_input_buffer t = serial_input_buffer s" "serial_input_buffer_read_index t = serial_input_buffer_read_index s"
    "serial_input_buffer_write_index t = serial_input_buffer_write_index s"
    "serial_input_buffer_condvar t = serial_input_buffer_condvar s" and c: "cpu t = save_and_disable_interrupts (cpu s)"
  shows "\<exists>s'. reap i t = Ok (Return (), s') \<and> reaped i s s'"
proof -
  note q = quietD [OF assms(1)]
  let ?s3 = "set_proc i (\<lambda>p. p\<lparr>pstate := UNUSED, pid := 0, resume_stack_pointer := StackAt 0, current_sbrk := 0,
      initial_data_segment := 0, pagetable := 0, additional_data := no_data\<rparr>) t"
  define c1 where "c1 = (if last_running_process (cpu s) = Some i then (cpu s)\<lparr>last_running_process := None\<rparr> else cpu s)"
  define s4 where "s4 = (if last_running_process (cpu ?s3) = Some i then ?s3\<lparr>cpu := (cpu ?s3)\<lparr>last_running_process := None\<rparr>\<rparr> else ?s3)"
  have c4: "cpu s4 = save_and_disable_interrupts c1" by (simp add: s4_def c1_def c save_fields)
  have p4: "plock (processes s4 i) = held_lock c1" by (simp add: s4_def f entered_process c1_def save_fields)
  have "cpu_ok (cpu (s\<lparr>cpu := c1\<rparr>))" using q(7) by (simp add: c1_def cpu_ok_def)
  then have unlock: "condvar_unlock (ProcessCond i) s4 = Ok ((), (set_proc i (plock_update (\<lambda>_. unlocked_lock)) s4)\<lparr>cpu := settled c1\<rparr>)"
    using cvl.unlock_entered [of "s\<lparr>cpu := c1\<rparr>" "ProcessCond i" s4] c4 p4
    by (simp add: condvar_unlock_def cond_lock_def cond_lock_update_def)
  have "reap i t = kbind (condvar_unlock (ProcessCond i)) (\<lambda>_. kret (Return ())) s4"
    by (simp add: reap_def s4_def)
  then have "reap i t = Ok (Return (), (set_proc i (plock_update (\<lambda>_. unlocked_lock)) s4)\<lparr>cpu := settled c1\<rparr>)"
    using unlock by simp
  moreover have "reaped i s ((set_proc i (plock_update (\<lambda>_. unlocked_lock)) s4)\<lparr>cpu := settled c1\<rparr>)"
    using assms(1) unfolding reaped_def
    by (auto simp: s4_def f entered_process quiet_def ring_inv_def ring_contents_def c1_def my_process_def set_proc_def)
  ultimately show ?thesis by blast
qed

lemma slot_exited:
  assumes "quiet s" and "i < MAX_PROCESSES" and "pstate (processes s i) = EXITED" and run: "scheduler_slot i s = Ok (r, s')"
  shows "r = Return () \<and> reaped i s s'"
proof -
  note q = quietD [OF assms(1)]
  define e where "e = cvl.entered (ProcessCond i) s"
  have lock: "condvar_lock (ProcessCond i) s = Ok ((), e)"
    unfolding e_def using q(1) by (rule condvar_lock_free) (simp add: cond_lock_def q(6) [OF assms(2)])
  have e: "pstate (processes e i) = EXITED" "cpu e = save_and_disable_interrupts (cpu s)"
    using assms(3) by (simp_all add: e_def entered_process)
  define kpt where "kpt = (if get_installed_pagetable e = V2P e (pagetable (processes e i)) then Some (V2P e (kernel_pagetable e)) else None)"
  have slot: "scheduler_slot i s = kbind (case kpt of Some pt \<Rightarrow> install_pagetable pt | None \<Rightarrow> kret ()) (\<lambda>_.
      kbind (vmm_user_pagetable_free (pagetable (processes e i))) (\<lambda>_. reap i)) e"
    unfolding scheduler_slot_def using lock e by (simp add: reap_def flip: kpt_def)
  obtain k where k: "(case kpt of Some pt \<Rightarrow> install_pagetable pt | None \<Rightarrow> kret ()) e = Ok ((), e\<lparr>cr3 := k\<rparr>)"
  proof (cases kpt)
    case None
    moreover have "e\<lparr>cr3 := cr3 e\<rparr> = e" by (cases e) simp
    ultimately show ?thesis by (intro that [of "cr3 e"]) simp
  qed (simp add: install_pagetable_def that)
  obtain s2 where free: "vmm_user_pagetable_free (pagetable (processes e i)) (e\<lparr>cr3 := k\<rparr>) = Ok ((), s2)" and re: "reap i s2 = Ok (r, s')"
    using run k unfolding slot by (auto elim: kbind_OkE)
  have "keeps_more (kernel.more (e\<lparr>cr3 := k\<rparr>)) (settled (cpu (e\<lparr>cr3 := k\<rparr>))) (e\<lparr>cr3 := k\<rparr>)"
    using cpu_ok_save [OF q(1,2)] by (simp add: keeps_more_def e)
  with free have "keeps_more (kernel.more (e\<lparr>cr3 := k\<rparr>)) (settled (cpu (e\<lparr>cr3 := k\<rparr>))) s2"
    by (meson pagetable_free_keeps preservesD)
  then have s2: "kernel.more s2 = kernel.more (e\<lparr>cr3 := k\<rparr>)" and c2: "settled (cpu s2) = save_and_disable_interrupts (cpu s)"
    using settled_save [OF q(2)] by (simp_all add: keeps_more_def e)
  have "depth (cpu s2) = 1" using arg_cong [OF c2, of depth] q(7) by simp
  then have c: "cpu s2 = save_and_disable_interrupts (cpu s)" using c2 by (simp add: settled_def)
  note f = more_fields [OF s2]
  have "\<exists>s'. reap i s2 = Ok (Return (), s') \<and> reaped i s s'"
    by (rule reap_ok [OF assms(1,2)]) (simp_all add: f c, simp_all add: e_def entered_process set_proc_def)
  with re show ?thesis by auto
qed

end
