(* ===== verification/Scheduling.thy ===== *)
theory Scheduling
  imports Sched
begin

text \<open>
  Runs of the system on one core: the loop of the scheduler, processes that make system calls or yield,
  and the interrupt of the serial port, as an inductive step relation; and the invariant of the states
  it reaches.
\<close>

section \<open>The table as the scheduler sees it\<close>

text \<open>State, channel and saved stack of every slot.\<close>

record slot =
  st :: process_state
  chan :: "condvar option"
  sp :: stack_pointer

type_synonym table = "nat \<Rightarrow> slot"

definition table_of :: "(nat \<Rightarrow> process) \<Rightarrow> table" where
  "table_of ps j = \<lparr>st = pstate (ps j), chan = waiting_channel (ps j), sp = resume_stack_pointer (ps j)\<rparr>"

text \<open>How many slots the scheduler inspects before slot \<open>j\<close> when it is at slot \<open>i\<close>.\<close>

definition slot_dist :: "nat \<Rightarrow> nat \<Rightarrow> nat" where
  "slot_dist i j = (if i \<le> j then j - i else j + MAX_PROCESSES - i)"

definition next_slot :: "nat \<Rightarrow> nat" where
  "next_slot i = (if Suc i = MAX_PROCESSES then 0 else Suc i)"

lemma slot_dist_next:
  "i < MAX_PROCESSES \<Longrightarrow> j < MAX_PROCESSES \<Longrightarrow> j \<noteq> i \<Longrightarrow> Suc (slot_dist (next_slot i) j) = slot_dist i j"
  "i < MAX_PROCESSES \<Longrightarrow> slot_dist i i = 0"
  "i < MAX_PROCESSES \<Longrightarrow> slot_dist (next_slot i) i = MAX_PROCESSES - 1"
  by (auto simp: slot_dist_def next_slot_def)

lemma slot_dist_less: "i < MAX_PROCESSES \<Longrightarrow> j < MAX_PROCESSES \<Longrightarrow> slot_dist i j < MAX_PROCESSES"
  by (auto simp: slot_dist_def)

text \<open>
  A sleeping process waits for the serial port and there is no input, or it waits for another process,
  in the loop of \<open>proc_wait\<close>, that has not exited. A runnable process in the loop of \<open>proc_wait\<close> waits for
  a process that has exited, and the scheduler comes to the waiting process first.
\<close>

definition sleeper_ok :: "bool \<Rightarrow> table \<Rightarrow> nat \<Rightarrow> bool" where
  "sleeper_ok no_input v j \<longleftrightarrow>
     (st (v j) = SLEEPING \<longrightarrow>
        chan (v j) = Some SerialCond \<and> (\<exists>b n. sp (v j) = InRead b n) \<and> no_input \<or>
        (\<exists>t<MAX_PROCESSES. t \<noteq> j \<and> chan (v j) = Some (ProcessCond t) \<and> sp (v j) = InWait t \<and> st (v t) \<noteq> EXITED)) \<and>
     (st (v j) = RUNNABLE \<longrightarrow> sp (v j) \<noteq> InExit) \<and>
     (\<forall>t. st (v j) = RUNNABLE \<and> sp (v j) = InWait t \<longrightarrow> t < MAX_PROCESSES \<and> t \<noteq> j \<and> st (v t) = EXITED)"

definition in_time :: "nat \<Rightarrow> table \<Rightarrow> nat \<Rightarrow> bool" where
  "in_time pos v j \<longleftrightarrow> (\<forall>t. st (v j) = RUNNABLE \<and> sp (v j) = InWait t \<longrightarrow> slot_dist pos j < slot_dist pos t)"

definition table_ok :: "nat \<Rightarrow> nat option \<Rightarrow> bool \<Rightarrow> table \<Rightarrow> bool" where
  "table_ok pos running no_input v \<longleftrightarrow>
     (\<forall>j<MAX_PROCESSES. (st (v j) = RUNNING \<longleftrightarrow> running = Some j) \<and> sleeper_ok no_input v j \<and> in_time pos v j)"

lemma table_okD:
  assumes "table_ok pos running e v" and "j < MAX_PROCESSES"
  shows "st (v j) = RUNNING \<longleftrightarrow> running = Some j" "sleeper_ok e v j" "in_time pos v j"
  using assms by (simp_all add: table_ok_def)

lemma sleeper_no_input: "sleeper_ok False v j \<Longrightarrow> sleeper_ok True v j"
  unfolding sleeper_ok_def by (simp only: simp_thms) blast

lemma table_no_input: "table_ok pos running e v \<Longrightarrow> (e \<Longrightarrow> e') \<Longrightarrow> table_ok pos running e' v"
  unfolding table_ok_def by (cases e; cases e') (simp_all add: sleeper_no_input)

lemma in_time_next:
  assumes "in_time i v j" and "sleeper_ok e v j" and "i < MAX_PROCESSES" and "j < MAX_PROCESSES" and "j \<noteq> i \<or> st (v j) \<noteq> RUNNABLE"
  shows "in_time (next_slot i) v j"
  unfolding in_time_def
proof (intro allI impI)
  fix t assume t: "st (v j) = RUNNABLE \<and> sp (v j) = InWait t"
  with assms(1,2) have lt: "slot_dist i j < slot_dist i t" "t < MAX_PROCESSES" by (auto simp: in_time_def sleeper_ok_def)
  have "j \<noteq> i" using t assms(5) by auto
  moreover have "t \<noteq> i" using lt(1) slot_dist_next(2) [OF assms(3)] by auto
  ultimately show "slot_dist (next_slot i) j < slot_dist (next_slot i) t"
    using lt slot_dist_next(1) [OF assms(3,4)] slot_dist_next(1) [OF assms(3) lt(2)] by simp
qed

lemma table_skip:
  assumes "table_ok i None e v" and "i < MAX_PROCESSES" and "st (v i) \<noteq> RUNNABLE"
  shows "table_ok (next_slot i) None e v"
  using assms(1) in_time_next [of i v _ e] assms(2,3) unfolding table_ok_def by metis

text \<open>A change of one slot that waiters for other slots do not see.\<close>

lemma sleeper_update:
  assumes "sleeper_ok e v j" and "j \<noteq> i" and "st (v i) = EXITED \<Longrightarrow> st x = EXITED \<or> \<not> (st (v j) = RUNNABLE \<and> sp (v j) = InWait i)"
    and "st x = EXITED \<Longrightarrow> st (v i) = EXITED"
  shows "sleeper_ok e (v(i := x)) j"
proof -
  have j: "(v(i := x)) j = v j" using assms(2) by simp
  have "st ((v(i := x)) t) \<noteq> EXITED" if "st (v t) \<noteq> EXITED" for t using that assms(4) by (cases "t = i") auto
  moreover have "st ((v(i := x)) t) = EXITED" if "st (v t) = EXITED" "st (v j) = RUNNABLE" "sp (v j) = InWait t" for t
    using that assms(3) by (cases "t = i") auto
  ultimately show ?thesis using assms(1) unfolding sleeper_ok_def j by blast
qed

lemma in_time_update: "j \<noteq> i \<Longrightarrow> in_time pos (v(i := x)) j = in_time pos v j"
  by (simp add: in_time_def)

lemma table_reap:
  assumes "table_ok i None e v" and "i < MAX_PROCESSES" and "st (v i) = EXITED" and "st x = UNUSED"
  shows "table_ok (next_slot i) None e (v(i := x))"
  unfolding table_ok_def
proof (intro allI impI conjI)
  fix j assume j: "j < MAX_PROCESSES"
  note v = table_okD [OF assms(1) j]
  show "st ((v(i := x)) j) = RUNNING \<longleftrightarrow> None = Some j" using v(1) assms(4) by simp
  show "sleeper_ok e (v(i := x)) j"
  proof (cases "j = i")
    case False
    have "\<not> (st (v j) = RUNNABLE \<and> sp (v j) = InWait i)"
      using v(3) slot_dist_next(2) [OF assms(2)] by (auto simp: in_time_def)
    then show ?thesis using v(2) False assms(4) by (intro sleeper_update) simp_all
  qed (simp add: sleeper_ok_def assms(4))
  show "in_time (next_slot i) (v(i := x)) j"
  proof (cases "j = i")
    case False
    then show ?thesis using in_time_next [OF v(3,2) assms(2) j] by (simp add: in_time_update)
  qed (simp add: in_time_def assms(4))
qed

lemma table_dispatch:
  assumes "table_ok i None e v" and "i < MAX_PROCESSES" and "st (v i) = RUNNABLE" and "st x = RUNNING"
  shows "table_ok (next_slot i) (Some i) e (v(i := x))"
  unfolding table_ok_def
proof (intro allI impI conjI)
  fix j assume j: "j < MAX_PROCESSES"
  note v = table_okD [OF assms(1) j]
  show "st ((v(i := x)) j) = RUNNING \<longleftrightarrow> Some i = Some j" using v(1) assms(4) by auto
  show "sleeper_ok e (v(i := x)) j"
  proof (cases "j = i")
    case False
    then show ?thesis using v(2) assms(3,4) by (intro sleeper_update) simp_all
  qed (simp add: sleeper_ok_def assms(4))
  show "in_time (next_slot i) (v(i := x)) j"
  proof (cases "j = i")
    case False
    then show ?thesis using in_time_next [OF v(3,2) assms(2) j] by (simp add: in_time_update)
  qed (simp add: in_time_def assms(4))
qed

text \<open>The running process gives up the core.\<close>

lemma table_leave:
  assumes "table_ok pos (Some p) e v" and "p < MAX_PROCESSES" and "st x \<noteq> RUNNING" and "st x \<noteq> EXITED"
    and "sleeper_ok e (v(p := x)) p" and "in_time pos (v(p := x)) p"
  shows "table_ok pos None e (v(p := x))"
  unfolding table_ok_def
proof (intro allI impI conjI)
  fix j assume j: "j < MAX_PROCESSES"
  note v = table_okD [OF assms(1) j]
  have p: "st (v p) = RUNNING" using table_okD(1) [OF assms(1,2)] by simp
  show "st ((v(p := x)) j) = RUNNING \<longleftrightarrow> None = Some j" using v(1) assms(3) by auto
  show "sleeper_ok e (v(p := x)) j"
    by (cases "j = p") (use assms(4,5) v(2) p in \<open>auto intro: sleeper_update\<close>)
  show "in_time pos (v(p := x)) j"
    by (cases "j = p") (use assms(6) v(3) in \<open>simp_all add: in_time_update\<close>)
qed

text \<open>All sleepers on a channel become runnable.\<close>

definition wake_slot :: "condvar \<Rightarrow> slot \<Rightarrow> slot" where
  "wake_slot c x = (if st x = SLEEPING \<and> chan x = Some c then x\<lparr>st := RUNNABLE\<rparr> else x)"

definition wake_table :: "condvar \<Rightarrow> nat option \<Rightarrow> table \<Rightarrow> table" where
  "wake_table c me v j = (if j < MAX_PROCESSES \<and> me \<noteq> Some j then wake_slot c (v j) else v j)"

lemma wake_slot_simps:
  "st (wake_slot c x) = RUNNING \<longleftrightarrow> st x = RUNNING" "st (wake_slot c x) = EXITED \<longleftrightarrow> st x = EXITED"
  "sp (wake_slot c x) = sp x" "chan (wake_slot c x) = chan x"
  "st (wake_slot c x) = SLEEPING \<longleftrightarrow> st x = SLEEPING \<and> chan x \<noteq> Some c"
  "st (wake_slot c x) = RUNNABLE \<longleftrightarrow> st x = RUNNABLE \<or> st x = SLEEPING \<and> chan x = Some c"
  by (auto simp: wake_slot_def)

lemma wake_table_simps:
  "st (wake_table c me v j) = RUNNING \<longleftrightarrow> st (v j) = RUNNING" "st (wake_table c me v j) = EXITED \<longleftrightarrow> st (v j) = EXITED"
  "sp (wake_table c me v j) = sp (v j)" "chan (wake_table c me v j) = chan (v j)"
  by (simp_all add: wake_table_def wake_slot_simps)

lemma sleeper_okD:
  assumes "sleeper_ok e v j"
  shows "st (v j) = SLEEPING \<Longrightarrow> chan (v j) = Some SerialCond \<and> (\<exists>b n. sp (v j) = InRead b n) \<and> e \<or>
      (\<exists>t<MAX_PROCESSES. t \<noteq> j \<and> chan (v j) = Some (ProcessCond t) \<and> sp (v j) = InWait t \<and> st (v t) \<noteq> EXITED)"
    and "st (v j) = RUNNABLE \<Longrightarrow> sp (v j) \<noteq> InExit"
    and "st (v j) = RUNNABLE \<Longrightarrow> sp (v j) = InWait t \<Longrightarrow> t < MAX_PROCESSES \<and> t \<noteq> j \<and> st (v t) = EXITED"
  using assms unfolding sleeper_ok_def by blast+

lemma sleeper_okI:
  assumes "st (v j) = SLEEPING \<Longrightarrow> chan (v j) = Some SerialCond \<and> (\<exists>b n. sp (v j) = InRead b n) \<and> e \<or>
      (\<exists>t<MAX_PROCESSES. t \<noteq> j \<and> chan (v j) = Some (ProcessCond t) \<and> sp (v j) = InWait t \<and> st (v t) \<noteq> EXITED)"
    and "st (v j) = RUNNABLE \<Longrightarrow> sp (v j) \<noteq> InExit"
    and "\<And>t. st (v j) = RUNNABLE \<Longrightarrow> sp (v j) = InWait t \<Longrightarrow> t < MAX_PROCESSES \<and> t \<noteq> j \<and> st (v t) = EXITED"
  shows "sleeper_ok e v j"
  using assms unfolding sleeper_ok_def by blast

lemma woken_serial:
  assumes "sleeper_ok e v j" and "st (wake_table SerialCond me v j) = RUNNABLE"
  shows "st (v j) = RUNNABLE \<or> (\<exists>b n. sp (v j) = InRead b n)"
proof (cases "st (v j) = RUNNABLE")
  case False
  then have "st (v j) = SLEEPING" "chan (v j) = Some SerialCond"
    using assms(2) by (auto simp: wake_table_def wake_slot_simps split: if_splits)
  then show ?thesis using sleeper_okD(1) [OF assms(1)] by auto
qed simp

lemma wake_serial_sleeper:
  assumes "sleeper_ok e v j" and "j < MAX_PROCESSES" and "me = Some j \<Longrightarrow> st (v j) \<noteq> SLEEPING"
  shows "sleeper_ok False (wake_table SerialCond me v) j"
proof (rule sleeper_okI)
  assume "st (wake_table SerialCond me v j) = SLEEPING"
  then have "st (v j) = SLEEPING" "chan (v j) \<noteq> Some SerialCond"
    using assms(2,3) by (auto simp: wake_table_def wake_slot_simps split: if_splits)
  with sleeper_okD(1) [OF assms(1)] show "chan (wake_table SerialCond me v j) = Some SerialCond \<and>
      (\<exists>b n. sp (wake_table SerialCond me v j) = InRead b n) \<and> False \<or>
      (\<exists>t<MAX_PROCESSES. t \<noteq> j \<and> chan (wake_table SerialCond me v j) = Some (ProcessCond t) \<and>
        sp (wake_table SerialCond me v j) = InWait t \<and> st (wake_table SerialCond me v t) \<noteq> EXITED)"
    unfolding wake_table_simps by simp
next
  assume "st (wake_table SerialCond me v j) = RUNNABLE"
  from woken_serial [OF assms(1) this] show "sp (wake_table SerialCond me v j) \<noteq> InExit"
    unfolding wake_table_simps using sleeper_okD(2) [OF assms(1)] by auto
next
  fix t assume "st (wake_table SerialCond me v j) = RUNNABLE" "sp (wake_table SerialCond me v j) = InWait t"
  then show "t < MAX_PROCESSES \<and> t \<noteq> j \<and> st (wake_table SerialCond me v t) = EXITED"
    using woken_serial [OF assms(1)] sleeper_okD(3) [OF assms(1)] unfolding wake_table_simps by auto
qed

lemma wake_serial_in_time:
  assumes "in_time pos v j" and "sleeper_ok e v j"
  shows "in_time pos (wake_table SerialCond me v) j"
  unfolding in_time_def
proof (intro allI impI)
  fix t assume t: "st (wake_table SerialCond me v j) = RUNNABLE \<and> sp (wake_table SerialCond me v j) = InWait t"
  then have "st (v j) = RUNNABLE" using woken_serial [OF assms(2)] unfolding wake_table_simps by auto
  then show "slot_dist pos j < slot_dist pos t" using t assms(1) by (simp add: in_time_def wake_table_simps)
qed

lemma table_wake_serial:
  assumes "table_ok pos running e v"
  shows "table_ok pos running False (wake_table SerialCond running v)"
  unfolding table_ok_def
proof (intro allI impI conjI)
  fix j assume j: "j < MAX_PROCESSES"
  note v = table_okD [OF assms j]
  show "st (wake_table SerialCond running v j) = RUNNING \<longleftrightarrow> running = Some j" using v(1) by (simp add: wake_table_simps)
  show "sleeper_ok False (wake_table SerialCond running v) j"
    by (rule wake_serial_sleeper [OF v(2) j]) (use v(1) in auto)
  show "in_time pos (wake_table SerialCond running v) j" using v(3,2) by (rule wake_serial_in_time)
qed

text \<open>The running process exits and wakes those who wait for it.\<close>

lemma table_exit:
  assumes "table_ok (next_slot p) (Some p) e v" and "p < MAX_PROCESSES" and x: "st x = EXITED"
  shows "table_ok (next_slot p) None e ((wake_table (ProcessCond p) (Some p) v)(p := x))"
  unfolding table_ok_def
proof (intro allI impI conjI)
  fix j assume j: "j < MAX_PROCESSES"
  note v = table_okD [OF assms(1) j]
  let ?w = "wake_table (ProcessCond p) (Some p) v"
  have p: "st (v p) = RUNNING" using table_okD(1) [OF assms(1,2)] by simp
  show "st ((?w(p := x)) j) = RUNNING \<longleftrightarrow> None = Some j" using v(1) x by (auto simp: wake_table_simps)
  have wj: "?w j = wake_slot (ProcessCond p) (v j)" if "j \<noteq> p" using that j by (simp add: wake_table_def)
  have ex: "st ((?w(p := x)) t) = EXITED \<longleftrightarrow> t = p \<or> st (v t) = EXITED" for t using x by (simp add: wake_table_simps)
  have run: "st (?w j) = RUNNABLE \<Longrightarrow> sp (v j) = InWait t \<Longrightarrow> j \<noteq> p \<Longrightarrow> t < MAX_PROCESSES \<and> t \<noteq> j \<and>
      (t = p \<or> st (v t) = EXITED \<and> st (v j) = RUNNABLE)" for t
    using sleeper_okD(1) [OF v(2)] sleeper_okD(3) [OF v(2), of t] assms(2) by (auto simp: wj wake_slot_simps)
  show "sleeper_ok e (?w(p := x)) j"
  proof (cases "j = p")
    case False
    show ?thesis
    proof (rule sleeper_okI)
      assume "st ((?w(p := x)) j) = SLEEPING"
      then have "st (v j) = SLEEPING" "chan (v j) \<noteq> Some (ProcessCond p)" using False by (simp_all add: wj wake_slot_simps)
      then show "chan ((?w(p := x)) j) = Some SerialCond \<and> (\<exists>b n. sp ((?w(p := x)) j) = InRead b n) \<and> e \<or>
          (\<exists>t<MAX_PROCESSES. t \<noteq> j \<and> chan ((?w(p := x)) j) = Some (ProcessCond t) \<and> sp ((?w(p := x)) j) = InWait t \<and>
            st ((?w(p := x)) t) \<noteq> EXITED)"
        using sleeper_okD(1) [OF v(2)] False unfolding ex by (auto simp: wake_table_simps)
    next
      assume "st ((?w(p := x)) j) = RUNNABLE"
      then show "sp ((?w(p := x)) j) \<noteq> InExit"
        using sleeper_okD(1,2) [OF v(2)] False by (auto simp: wj wake_slot_simps)
    next
      fix t assume "st ((?w(p := x)) j) = RUNNABLE" "sp ((?w(p := x)) j) = InWait t"
      then show "t < MAX_PROCESSES \<and> t \<noteq> j \<and> st ((?w(p := x)) t) = EXITED"
        using run [of t] False unfolding ex by (auto simp: wake_table_simps)
    qed
  qed (simp add: sleeper_ok_def x)
  show "in_time (next_slot p) (?w(p := x)) j"
  proof (cases "j = p")
    case False
    have last: "slot_dist (next_slot p) j < slot_dist (next_slot p) p"
      using slot_dist_next(1) [OF assms(2) j False] slot_dist_next(3) [OF assms(2)] slot_dist_less [OF assms(2) j] by simp
    show ?thesis
      unfolding in_time_def
    proof (intro allI impI)
      fix t assume "st ((?w(p := x)) j) = RUNNABLE \<and> sp ((?w(p := x)) j) = InWait t"
      then have "t = p \<or> st (v j) = RUNNABLE \<and> sp (v j) = InWait t" using run [of t] False by (auto simp: wake_table_simps)
      then show "slot_dist (next_slot p) j < slot_dist (next_slot p) t" using last v(3) by (auto simp: in_time_def)
    qed
  qed (simp add: in_time_def x)
qed

lemma table_start:
  assumes "table_ok pos running e v" and "i < MAX_PROCESSES" and "st (v i) = UNUSED" and "st x = RUNNABLE" and "sp x = StackAt a"
  shows "table_ok pos running e (v(i := x))"
  unfolding table_ok_def
proof (intro allI impI conjI)
  fix j assume j: "j < MAX_PROCESSES"
  note v = table_okD [OF assms(1) j]
  show "st ((v(i := x)) j) = RUNNING \<longleftrightarrow> running = Some j" using v(1) assms(3,4) by auto
  show "sleeper_ok e (v(i := x)) j"
  proof (cases "j = i")
    case False
    then show ?thesis using v(2) assms(3,4) by (intro sleeper_update) simp_all
  qed (simp add: sleeper_ok_def assms(4,5))
  show "in_time pos (v(i := x)) j"
    by (cases "j = i") (use v(3) assms(5) in \<open>simp_all add: in_time_update, simp add: in_time_def\<close>)
qed

section \<open>Steps\<close>

text \<open>
  The core is in the loop of the scheduler, about to inspect a slot, or in a process. Between steps no
  kernel code is on its way: a step is what the scheduler does with one slot, or one entry of a process
  into the kernel. \<open>syscall\<close> and the interrupt gates clear the interrupt flag, \<open>sysret\<close> and \<open>iret\<close> set
  it again; the scheduler sets it when it starts over.
\<close>

datatype place = InScheduler nat | InUser nat

definition interrupts :: "bool \<Rightarrow> ('d, 'p, 'f, 'a, 'z) proc_state_scheme \<Rightarrow> ('d, 'p, 'f, 'a, 'z) proc_state_scheme" where
  "interrupts b s = s\<lparr>cpu := (cpu s)\<lparr>rflags_IF := b\<rparr>\<rparr>"

definition after_slot :: "nat \<Rightarrow> ('d, 'p, 'f, 'a, 'z) proc_state_scheme \<Rightarrow> ('d, 'p, 'f, 'a, 'z) proc_state_scheme" where
  "after_slot i s = (if Suc i = MAX_PROCESSES then interrupts True s else s)"

datatype call = Exit u32 | Wait u64 | Read u64 u64 | Sleep u64 | Yield

fun forget :: "'r control \<Rightarrow> unit control" where
  "forget (Return r) = Return ()"
| "forget Switched = Switched"

definition run_call :: "call \<Rightarrow> (('d, 'p, 'f, 'a, 'z) proc_state_scheme, unit control) kern" where
  "run_call c =
     (case c of
        Exit code \<Rightarrow> kbind (proc_exit code) (\<lambda>r. kret (forget r))
      | Wait target \<Rightarrow> kbind (proc_wait target) (\<lambda>r. kret (forget r))
      | Read buffer len \<Rightarrow> kbind (serial_read buffer len) (\<lambda>r. kret (forget r))
      | Sleep msec \<Rightarrow> sys_sleep msec
      | Yield \<Rightarrow> handle_trap T_YEILD 0)"

text \<open>
  The other system calls, which neither start nor stop a process: anything that leaves the scheduling
  data and the input of the serial port alone. \<open>proc_exec\<close> makes an unused slot runnable.
\<close>

definition other_work :: "('d, 'p, 'f, 'a, 'z) proc_state_scheme \<Rightarrow> ('d, 'p, 'f, 'a, 'z) proc_state_scheme \<Rightarrow> bool" where
  "other_work s s' \<longleftrightarrow> quiet s' \<and> cpu s' = cpu s \<and> table_of (processes s') = table_of (processes s) \<and> ring_contents s' = ring_contents s"

definition starts_process :: "nat \<Rightarrow> ('d, 'p, 'f, 'a, 'z) proc_state_scheme \<Rightarrow> ('d, 'p, 'f, 'a, 'z) proc_state_scheme \<Rightarrow> bool" where
  "starts_process j s s' \<longleftrightarrow> quiet s' \<and> cpu s' = cpu s \<and> ring_contents s' = ring_contents s \<and> j < MAX_PROCESSES \<and> pstate (processes s j) = UNUSED \<and>
     (\<exists>x a. st x = RUNNABLE \<and> sp x = StackAt a \<and> table_of (processes s') = (table_of (processes s))(j := x))"

inductive sched_step ::
  "place \<times> ('d, 'p, 'f, 'a, 'z) proc_state_scheme \<Rightarrow> place \<times> ('d, 'p, 'f, 'a, 'z) proc_state_scheme \<Rightarrow> bool" where
  skip: "scheduler_slot i s = Ok (Return (), s1) \<Longrightarrow>
     sched_step (InScheduler i, s) (InScheduler (next_slot i), after_slot i s1)"
| enter: "scheduler_slot i s = Ok (Switched, s1) \<Longrightarrow> resume i s1 = Ok (Return r, s2) \<Longrightarrow>
     sched_step (InScheduler i, s) (InUser i, interrupts True s2)"
| resume_back: "scheduler_slot i s = Ok (Switched, s1) \<Longrightarrow> resume i s1 = Ok (Switched, s2) \<Longrightarrow>
     scheduler_switched_back i s2 = Ok ((), s3) \<Longrightarrow>
     sched_step (InScheduler i, s) (InScheduler (next_slot i), after_slot i s3)"
| call_return: "run_call c (interrupts False s) = Ok (Return (), s1) \<Longrightarrow>
     sched_step (InUser p, s) (InUser p, interrupts True s1)"
| call_switch: "run_call c (interrupts False s) = Ok (Switched, s1) \<Longrightarrow> scheduler_switched_back p s1 = Ok ((), s2) \<Longrightarrow>
     sched_step (InUser p, s) (InScheduler (next_slot p), after_slot p s2)"
| interrupt: "rflags_IF (cpu s) \<Longrightarrow> transmits (ports s) \<Longrightarrow> has_input c (ports s) P \<Longrightarrow>
     serial_received_char (interrupts False s) = Ok ((), s1) \<Longrightarrow>
     sched_step (l, s) (l, interrupts True s1)"
| other: "other_work s s' \<Longrightarrow> sched_step (InUser p, s) (InUser p, s')"
| start: "starts_process j s s' \<Longrightarrow> sched_step (InUser p, s) (InUser p, s')"

text \<open>The system starts in the scheduler, with processes that have not run.\<close>

definition sched_start :: "place \<times> ('d, 'p, 'f, 'a, 'z) proc_state_scheme \<Rightarrow> bool" where
  "sched_start c \<longleftrightarrow> fst c = InScheduler 0 \<and> quiet (snd c) \<and> my_process (snd c) = None \<and> ring_contents (snd c) = [] \<and>
     (\<forall>j<MAX_PROCESSES. pstate (processes (snd c) j) = UNUSED \<or>
        pstate (processes (snd c) j) = RUNNABLE \<and> (\<exists>a. resume_stack_pointer (processes (snd c) j) = StackAt a))"

inductive sched_reachable :: "place \<times> ('d, 'p, 'f, 'a, 'z) proc_state_scheme \<Rightarrow> bool" where
  init: "sched_start c \<Longrightarrow> sched_reachable c"
| step: "sched_reachable c \<Longrightarrow> sched_step c c' \<Longrightarrow> sched_reachable c'"

section \<open>The invariant\<close>

definition running_at :: "place \<Rightarrow> nat option" where
  "running_at l = (case l of InScheduler i \<Rightarrow> None | InUser p \<Rightarrow> Some p)"

definition pos :: "place \<Rightarrow> nat" where
  "pos l = (case l of InScheduler i \<Rightarrow> i | InUser p \<Rightarrow> next_slot p)"

definition at_slot :: "place \<Rightarrow> nat" where
  "at_slot l = (case l of InScheduler i \<Rightarrow> i | InUser p \<Rightarrow> p)"

definition sched_inv :: "place \<times> ('d, 'p, 'f, 'a, 'z) proc_state_scheme \<Rightarrow> bool" where
  "sched_inv c \<longleftrightarrow> quiet (snd c) \<and> at_slot (fst c) < MAX_PROCESSES \<and> my_process (snd c) = running_at (fst c) \<and>
     table_ok (pos (fst c)) (running_at (fst c)) (ring_contents (snd c) = []) (table_of (processes (snd c)))"

lemma interrupts_simps [simp]:
  "quiet (interrupts b s) = quiet s" "my_process (interrupts b s) = my_process s" "ring_contents (interrupts b s) = ring_contents s"
  "processes (interrupts b s) = processes s" "ports (interrupts b s) = ports s" "ring_inv (interrupts b s) = ring_inv s"
  by (simp_all add: interrupts_def quiet_def my_process_def)

lemma sched_inv_interrupts [simp]: "sched_inv (l, interrupts b s) = sched_inv (l, s)"
  "sched_inv (l, after_slot i s) = sched_inv (l, s)"
  by (simp_all add: sched_inv_def after_slot_def)

lemma sched_inv_settled: "sched_inv (l, s) \<Longrightarrow> sched_inv (l, s\<lparr>cpu := settled (cpu s)\<rparr>)"
  by (simp add: sched_inv_def my_process_def)

lemma next_slot_less [simp]: "i < MAX_PROCESSES \<Longrightarrow> next_slot i < MAX_PROCESSES"
  by (simp add: next_slot_def)

lemma table_of_simps: "st (table_of ps j) = pstate (ps j)" "chan (table_of ps j) = waiting_channel (ps j)"
  "sp (table_of ps j) = resume_stack_pointer (ps j)"
  by (simp_all add: table_of_def)

lemma sched_inv_start: "sched_start c \<Longrightarrow> sched_inv c"
  by (cases c) (auto simp: sched_start_def sched_inv_def running_at_def pos_def at_slot_def table_ok_def sleeper_ok_def in_time_def
    table_of_simps MAX_PROCESSES_def)

text \<open>A process that gives up the core, and the scheduler behind it.\<close>

lemma sched_inv_gone:
  assumes q: "quiet s" "p < MAX_PROCESSES" and f: "\<And>q l. f (q\<lparr>plock := l\<rparr>) = (f q)\<lparr>plock := l\<rparr>"
    and tab: "table_ok (next_slot p) None (ring_contents s = []) ((table_of (processes s))(p := table_of (\<lambda>_. f (processes s p)) p))"
  shows "scheduler_switched_back p (left p f s) = Ok ((), gone p f s) \<and> sched_inv (InScheduler (next_slot p), gone p f s)"
proof
  show "scheduler_switched_back p (left p f s) = Ok ((), gone p f s)"
    using quietD(1) [OF q(1)] f by (rule switched_back_left)
  have "quiet (gone p f s)" using q by (auto simp: quiet_def gone_def ring_inv_def set_proc_def)
  moreover have "table_of (processes (gone p f s)) = (table_of (processes s))(p := table_of (\<lambda>_. f (processes s p)) p)"
    by (rule ext) (simp add: gone_def table_of_def)
  moreover have "ring_contents (gone p f s) = ring_contents s" by (simp add: gone_def set_proc_def)
  ultimately show "sched_inv (InScheduler (next_slot p), gone p f s)"
    using tab q(2) by (simp add: sched_inv_def at_slot_def running_at_def pos_def gone_def my_process_def)
qed

text \<open>How kernel work that a process does may end.\<close>

definition ends_well :: "nat \<Rightarrow> 'r control \<Rightarrow> ('d, 'p, 'f, 'a, 'z) proc_state_scheme \<Rightarrow> bool" where
  "ends_well p r s' \<longleftrightarrow>
     (if r = Switched then \<exists>s2. scheduler_switched_back p s' = Ok ((), s2) \<and> sched_inv (InScheduler (next_slot p), s2)
      else sched_inv (InUser p, s'))"

lemma ends_well_Switched:
  "quiet s \<Longrightarrow> p < MAX_PROCESSES \<Longrightarrow> (\<And>q l. f (q\<lparr>plock := l\<rparr>) = (f q)\<lparr>plock := l\<rparr>) \<Longrightarrow>
   table_ok (next_slot p) None (ring_contents s = []) ((table_of (processes s))(p := table_of (\<lambda>_. f (processes s p)) p)) \<Longrightarrow>
   ends_well p Switched (left p f s)"
  using sched_inv_gone unfolding ends_well_def by fastforce

lemma sched_invD:
  assumes "sched_inv (InUser p, s)"
  shows "quiet s" "p < MAX_PROCESSES" "my_process s = Some p"
    "table_ok (next_slot p) (Some p) (ring_contents s = []) (table_of (processes s))"
  using assms by (simp_all add: sched_inv_def at_slot_def running_at_def pos_def)

lemma ends_well_wait:
  assumes inv: "sched_inv (InUser p, s)" and "t < MAX_PROCESSES" and "proc_wait_loop t (cvl.entered (ProcessCond t) s) = Ok (r, s')"
  shows "ends_well p r s'"
proof -
  note d = sched_invD [OF inv]
  note w = wait_loop_ok [OF d(1,3,2) assms(2)]
  show ?thesis
  proof (cases "pstate (processes s t) = EXITED")
    case True
    then show ?thesis using w(1) assms(3) sched_inv_settled [OF inv] by (auto simp: ends_well_def)
  next
    case False
    then have t: "t \<noteq> p" using w(3) assms(3) by auto
    have "r = Switched" and s': "s' = left p (\<lambda>q. q\<lparr>pstate := SLEEPING, waiting_channel := Some (ProcessCond t), resume_stack_pointer := InWait t\<rparr>) s"
      using w(2) [OF False t] assms(3) by simp_all
    moreover have "ends_well p (Switched :: u32 control) s'"
      unfolding s' by (rule ends_well_Switched [OF d(1,2)])
        (use False t assms(2) in \<open>auto intro!: table_leave [OF d(4,2)] simp: sleeper_ok_def in_time_def table_of_simps\<close>)
    ultimately show ?thesis by simp
  qed
qed

lemma ends_well_read:
  assumes inv: "sched_inv (InUser p, s)" and "serial_read_when_ready buffer len False (cvl.entered SerialCond s) = Ok (r, s')"
  shows "ends_well p r s'"
proof -
  note d = sched_invD [OF inv]
  note q = quietD [OF d(1)]
  show ?thesis
  proof (cases "ring_contents s = []")
    case False
    define n where "n = min (unat len) (length (ring_contents s))"
    obtain s1 where s1: "serial_read_when_ready buffer len False (cvl.entered SerialCond s) = Ok (Return (of_nat n), s1)"
      "ring_inv s1" "ring_contents s1 = drop n (ring_contents s)" "processes s1 = processes s"
      "serial_input_buffer_condvar s1 = unlocked_lock" "cpu s1 = settled (cpu s)"
      by (rule read_when_ready_ok [OF q(4) False q(1) n_def, of buffer False])
    then have r: "r \<noteq> Switched" "quiet s'" "my_process s' = Some p" "processes s' = processes s" "ring_contents s' = drop n (ring_contents s)"
      using assms(2) d(1,3) by (simp_all add: quiet_def my_process_def del: entered_serial)
    have "table_ok (next_slot p) (Some p) (ring_contents s' = []) (table_of (processes s'))"
      using table_no_input [OF d(4), of "ring_contents s' = []"] False r(4) by simp
    then show ?thesis using r d(2) by (simp add: ends_well_def sched_inv_def at_slot_def running_at_def pos_def)
  next
    case True
    have d4: "table_ok (next_slot p) (Some p) True (table_of (processes s))" using d(4) True by simp
    let ?f = "\<lambda>q. q\<lparr>pstate := SLEEPING, waiting_channel := Some SerialCond, resume_stack_pointer := InRead buffer len\<rparr>"
    have "serial_input_buffer_read_index s = serial_input_buffer_write_index s" using ring_empty_iff [OF q(4)] True by simp
    moreover have "condvar_wait SerialCond (InRead buffer len) (cvl.entered SerialCond s) = Ok ((), left p ?f s)"
      by (rule wait_ok [OF d(1,3,2)]) (simp_all add: cond_lock_def q(5))
    ultimately have "serial_read_when_ready buffer len False (cvl.entered SerialCond s) = Ok (Switched, left p ?f s)"
      by (simp add: serial_read_when_ready_def)
    with assms(2) have "r = Switched" and s': "s' = left p ?f s" by simp_all
    moreover have "ends_well p (Switched :: u32 control) s'"
      unfolding s' by (rule ends_well_Switched [OF d(1,2)])
        (use True d4 in \<open>auto intro!: table_leave [OF d4 d(2)] simp: sleeper_ok_def in_time_def table_of_simps\<close>)
    ultimately show ?thesis by simp
  qed
qed

lemma ends_well_runnable:
  assumes inv: "sched_inv (InUser p, s)" and "a = InYield \<or> a = InSleep n"
  shows "ends_well p Switched (left p (\<lambda>q. q\<lparr>pstate := RUNNABLE, resume_stack_pointer := a\<rparr>) s)"
  by (rule ends_well_Switched [OF sched_invD(1,2) [OF inv]])
    (use sched_invD [OF inv] assms(2) in \<open>auto intro!: table_leave simp: sleeper_ok_def in_time_def table_of_simps\<close>)

lemma sched_inv_ports [simp]: "sched_inv (l, s\<lparr>ports := P\<rparr>) = sched_inv (l, s)"
  by (simp add: sched_inv_def quiet_def my_process_def)

lemma ends_well_sleep:
  assumes inv: "sched_inv (InUser p, s)" and "sys_sleep_loop target (cvl.entered (ProcessCond p) s) = Ok (r, s')"
  shows "ends_well p r s'"
proof -
  note d = sched_invD [OF inv]
  from sleep_loop_ok [OF d(1,3,2) assms(2)] obtain P where
    "(r = Return () \<and> s' = s\<lparr>ports := P, cpu := settled (cpu s)\<rparr>) \<or>
     (r = Switched \<and> s' = left p (\<lambda>q. q\<lparr>pstate := RUNNABLE, resume_stack_pointer := InSleep target\<rparr>) (s\<lparr>ports := P\<rparr>))" by blast
  then show ?thesis
  proof
    assume "r = Return () \<and> s' = s\<lparr>ports := P, cpu := settled (cpu s)\<rparr>"
    then show ?thesis using sched_inv_settled [of "InUser p" "s\<lparr>ports := P\<rparr>"] inv by (simp add: ends_well_def)
  next
    assume "r = Switched \<and> s' = left p (\<lambda>q. q\<lparr>pstate := RUNNABLE, resume_stack_pointer := InSleep target\<rparr>) (s\<lparr>ports := P\<rparr>)"
    moreover have "sched_inv (InUser p, s\<lparr>ports := P\<rparr>)" using inv by simp
    ultimately show ?thesis using ends_well_runnable [of p "s\<lparr>ports := P\<rparr>" "InSleep target" target] by simp
  qed
qed

lemma only_files_table:
  assumes "only_files p s s1"
  shows "table_of (processes s1) = table_of (processes s)" "plock (processes s1 j) = plock (processes s j)"
proof -
  have e: "(processes s1 p)\<lparr>open_files := []\<rparr> = (processes s p)\<lparr>open_files := []\<rparr>" and "\<And>q. q \<noteq> p \<Longrightarrow> processes s1 q = processes s q"
    using assms by (simp_all add: only_files_def)
  note f = arg_cong [OF e, of pstate] arg_cong [OF e, of waiting_channel] arg_cong [OF e, of resume_stack_pointer] arg_cong [OF e, of plock]
  show "table_of (processes s1) = table_of (processes s)"
    by (rule ext, case_tac "x = p") (use f \<open>\<And>q. q \<noteq> p \<Longrightarrow> processes s1 q = processes s q\<close> in \<open>simp_all add: table_of_def\<close>)
  show "plock (processes s1 j) = plock (processes s j)"
    by (cases "j = p") (use f \<open>\<And>q. q \<noteq> p \<Longrightarrow> processes s1 q = processes s q\<close> in simp_all)
qed

lemma table_of_woken: "table_of (processes (woken 0 c s)) = wake_table c (my_process s) (table_of (processes s))"
  by (rule ext) (simp add: woken_def wake_from_def wake_def table_of_def wake_table_def wake_slot_def)

lemma ends_well_exit:
  assumes inv: "sched_inv (InUser p, s)" and "proc_exit code s = Ok (r, s')"
  shows "r = Switched \<and> ends_well p r s'"
proof -
  note d = sched_invD [OF inv]
  let ?f = "\<lambda>q. q\<lparr>exit_status := code, pstate := EXITED, resume_stack_pointer := InExit\<rparr>"
  obtain s1 where r: "r = Switched" and s1: "only_files p s s1" and s': "s' = left p ?f (woken 0 (ProcessCond p) s1)"
    using exit_ok [OF d(1,3,2) assms(2)] by blast
  let ?w = "woken 0 (ProcessCond p) s1"
  have me: "my_process s1 = Some p" using s1 d(3) by (auto simp: only_files_def my_process_def)
  have ring: "ring_contents s1 = ring_contents s" "ring_inv s1 = ring_inv s"
    using s1 by (simp_all add: only_files_def ring_contents_def ring_inv_def)
  have "quiet ?w" using d(1) s1 only_files_table(2) [OF s1] ring
    by (auto simp: quiet_def only_files_def) (auto simp: woken_def wake_from_def)
  moreover have "table_ok (next_slot p) None (ring_contents ?w = []) ((table_of (processes ?w))(p := table_of (\<lambda>_. ?f (processes ?w p)) p))"
    using table_exit [OF d(4,2), of "table_of (\<lambda>_. ?f (processes ?w p)) p"] ring
    by (simp add: table_of_woken me only_files_table [OF s1] table_of_simps)
  ultimately have "ends_well p (Switched :: u64 control) s'"
    unfolding s' using d(2) by (intro ends_well_Switched) simp_all
  with r show ?thesis by simp
qed

lemma ends_well_forget: "ends_well p r s' \<Longrightarrow> ends_well p (forget r) s'"
  by (cases r) (simp_all add: ends_well_def)

lemma ends_well_call:
  assumes inv: "sched_inv (InUser p, s)" and run: "run_call c s = Ok (r, s')"
  shows "ends_well p r s'"
proof -
  note d = sched_invD [OF inv]
  note q = quietD [OF d(1)]
  show ?thesis
  proof (cases c)
    case (Exit code)
    then obtain r1 where "proc_exit code s = Ok (r1, s')" "r = forget r1"
      using run by (auto simp: run_call_def elim: kbind_OkE)
    then show ?thesis using ends_well_exit [OF inv] ends_well_forget by blast
  next
    case (Wait target)
    then obtain r1 where r1: "proc_wait target s = Ok (r1, s')" "r = forget r1"
      using run by (auto simp: run_call_def elim: kbind_OkE)
    have "ends_well p r1 s'"
    proof (cases "first_from MAX_PROCESSES (\<lambda>q. pid q = target) (processes s)")
      case None
      then show ?thesis using r1(1) proc_wait_ok [OF d(1), of target] sched_inv_settled [OF inv] by (auto simp: ends_well_def)
    next
      case (Some t)
      then have "t < MAX_PROCESSES" using first_from_Some by blast
      then show ?thesis using Some r1(1) proc_wait_ok [OF d(1), of target] ends_well_wait [OF inv] by simp
    qed
    then show ?thesis using r1(2) ends_well_forget by blast
  next
    case (Read buffer len)
    then obtain r1 where r1: "serial_read buffer len s = Ok (r1, s')" "r = forget r1"
      using run by (auto simp: run_call_def elim: kbind_OkE)
    have lock: "condvar_lock SerialCond s = Ok ((), cvl.entered SerialCond s)"
      using q(1) by (rule condvar_lock_free) (simp add: cond_lock_def q(5))
    have "ends_well p r1 s'"
    proof (cases "len = 0")
      case True
      then show ?thesis using r1(1) inv by (auto simp: serial_read_def internal_serial_read_def ends_well_def)
    next
      case False
      then show ?thesis using r1(1) lock ends_well_read [OF inv, of buffer len r1 s']
        by (simp add: serial_read_def internal_serial_read_def del: entered_serial)
    qed
    then show ?thesis using r1(2) ends_well_forget by blast
  next
    case (Sleep msec)
    then have run1: "sys_sleep msec s = Ok (r, s')" using run by (simp add: run_call_def)
    then obtain now s0 where s0: "rtc_now s = Ok (now, s0)" by (cases "rtc_now s") (auto simp: sys_sleep_def)
    with rtc_now_Ok [OF s0] obtain P where now: "rtc_now s = Ok (now, s\<lparr>ports := P\<rparr>)" by blast
    have lock: "condvar_lock (ProcessCond p) (s\<lparr>ports := P\<rparr>) = Ok ((), cvl.entered (ProcessCond p) (s\<lparr>ports := P\<rparr>))"
      by (rule condvar_lock_free) (simp_all add: cond_lock_def q(1) q(6) [OF d(2)])
    have "sys_sleep_loop (now + msec) (cvl.entered (ProcessCond p) (s\<lparr>ports := P\<rparr>)) = Ok (r, s')"
      using run1 now lock d(3) by (simp add: sys_sleep_def the_process_def my_process_def)
    moreover have "sched_inv (InUser p, s\<lparr>ports := P\<rparr>)" using inv by simp
    ultimately show ?thesis by (intro ends_well_sleep)
  next
    case Yield
    then show ?thesis
      using run yield_ok [OF d(1,3,2), of 0] ends_well_runnable [OF inv, of InYield] by (auto simp: run_call_def)
  qed
qed

lemma dispatched_inv:
  assumes "sched_inv (InScheduler i, s)" and "pstate (processes s i) = RUNNABLE" and "dispatched i s s'"
  shows "sched_inv (InUser i, s')"
proof -
  have d: "quiet s" "i < MAX_PROCESSES" "table_ok i None (ring_contents s = []) (table_of (processes s))"
    using assms(1) by (simp_all add: sched_inv_def at_slot_def running_at_def pos_def)
  have "table_of (processes s') = (table_of (processes s))(i := table_of (processes s') i)"
    using assms(3) by (auto simp: dispatched_def table_of_def fun_eq_iff)
  moreover have "table_ok (next_slot i) (Some i) (ring_contents s = []) ((table_of (processes s))(i := table_of (processes s') i))"
    by (rule table_dispatch [OF d(3,2)]) (use assms(2,3) in \<open>simp_all add: table_of_simps dispatched_def\<close>)
  ultimately show ?thesis
    using assms(3) d(2) by (simp add: sched_inv_def at_slot_def running_at_def pos_def dispatched_def)
qed

lemma wait_resume_eq:
  assumes "quiet s" and "my_process s = Some p" and "p < MAX_PROCESSES" and "cond_lock c s = unlocked_lock"
  shows "condvar_wait_resume c (cvl.entered (ProcessCond p) s) = Ok ((), cvl.entered c s)"
proof -
  note q = quietD [OF assms(1)]
  have unlock: "condvar_unlock (ProcessCond p) (cvl.entered (ProcessCond p) s) = Ok ((), s\<lparr>cpu := settled (cpu s)\<rparr>)"
    unfolding condvar_unlock_def by (rule cvl.leave_entered [OF q(1)]) (simp add: cond_lock_def q(6) [OF assms(3)])
  have lock: "condvar_lock c (s\<lparr>cpu := settled (cpu s)\<rparr>) = Ok ((), cvl.entered c (s\<lparr>cpu := settled (cpu s)\<rparr>))"
    by (rule condvar_lock_free) (use assms(4) q(1) in \<open>cases c; simp add: cond_lock_def\<close>)+
  have "my_process (cvl.entered (ProcessCond p) s) = Some p" using assms(2) by (simp add: entered_process my_process_def)
  then show ?thesis
    unfolding condvar_wait_resume_def the_process_def using unlock lock entered_settled [OF q(7), of c] by simp
qed

lemma ends_well_map: "ends_well p r s' \<Longrightarrow> ends_well p (case r of Return x \<Rightarrow> Return (g x) | Switched \<Rightarrow> Switched) s'"
  by (cases r) (simp_all add: ends_well_def)

lemma ends_well_resume:
  assumes inv: "sched_inv (InUser p, s)" and run: "resume p (cvl.entered (ProcessCond p) s) = Ok (r, s')"
    and sp: "\<And>t. resume_stack_pointer (processes s p) = InWait t \<Longrightarrow> t < MAX_PROCESSES"
  shows "ends_well p r s'"
proof -
  note d = sched_invD [OF inv]
  note q = quietD [OF d(1)]
  have me: "my_process (cvl.entered (ProcessCond p) s) = Some p" using d(3) by (simp add: entered_process my_process_def)
  have unlock: "my_process_unlock (cvl.entered (ProcessCond p) s) = Ok ((), s\<lparr>cpu := settled (cpu s)\<rparr>)"
    unfolding my_process_unlock_def the_process_def condvar_unlock_def
    using cvl.leave_entered [OF q(1), of "ProcessCond p"] me by (simp add: cond_lock_def q(6) [OF d(2)])
  have rsp: "resume_stack_pointer (processes (cvl.entered (ProcessCond p) s) p) = resume_stack_pointer (processes s p)"
    by (simp add: entered_process)
  show ?thesis
  proof (cases "resume_stack_pointer (processes s p)")
    case (InWait t)
    then have t: "t < MAX_PROCESSES" by (rule sp)
    have w: "condvar_wait_resume (ProcessCond t) (cvl.entered (ProcessCond p) s) = Ok ((), cvl.entered (ProcessCond t) s)"
      by (rule wait_resume_eq [OF d(1,3,2)]) (simp add: cond_lock_def q(6) [OF t])
    obtain r1 where "proc_wait_loop t (cvl.entered (ProcessCond t) s) = Ok (r1, s')"
      "r = (case r1 of Return x \<Rightarrow> Return (Some (scast x)) | Switched \<Rightarrow> Switched)"
      using run InWait rsp w by (auto simp: resume_def elim: kbind_OkE)
    then show ?thesis using ends_well_map [OF ends_well_wait [OF inv t], of r1 s'] by simp
  next
    case (InRead buffer len)
    have w: "condvar_wait_resume SerialCond (cvl.entered (ProcessCond p) s) = Ok ((), cvl.entered SerialCond s)"
      by (rule wait_resume_eq [OF d(1,3,2)]) (simp add: cond_lock_def q(5))
    obtain r1 where "serial_read_when_ready buffer len False (cvl.entered SerialCond s) = Ok (r1, s')"
      "r = (case r1 of Return x \<Rightarrow> Return (Some (scast x)) | Switched \<Rightarrow> Switched)"
      using run InRead rsp w by (auto simp: resume_def simp del: entered_serial elim: kbind_OkE)
    then show ?thesis using ends_well_map [OF ends_well_read [OF inv], of buffer len r1 s'] by simp
  next
    case (InSleep target)
    obtain r1 where "sys_sleep_loop target (cvl.entered (ProcessCond p) s) = Ok (r1, s')"
      "r = (case r1 of Return x \<Rightarrow> Return (Some 0) | Switched \<Rightarrow> Switched)"
      using run InSleep rsp by (auto simp: resume_def elim: kbind_OkE)
    then show ?thesis using ends_well_map [OF ends_well_sleep [OF inv], of target r1 s' "\<lambda>_. Some 0"] by simp
  qed (use run rsp unlock sched_inv_settled [OF inv] in \<open>auto simp: resume_def ends_well_def\<close>)
qed

lemma slot_switched:
  assumes inv: "sched_inv (InScheduler i, s)" and run: "scheduler_slot i s = Ok (Switched, s1)"
  obtains s' where "s1 = cvl.entered (ProcessCond i) s'" "dispatched i s s'" "sched_inv (InUser i, s')"
    "pstate (processes s i) = RUNNABLE"
    "\<And>t. resume_stack_pointer (processes s' i) = InWait t \<Longrightarrow> t < MAX_PROCESSES \<and> t \<noteq> i \<and> pstate (processes s t) = EXITED"
proof -
  have d: "quiet s" "i < MAX_PROCESSES" "table_ok i None (ring_contents s = []) (table_of (processes s))"
    using inv by (simp_all add: sched_inv_def at_slot_def running_at_def pos_def)
  have r: "pstate (processes s i) = RUNNABLE"
    using slot_idle [OF d(1,2)] slot_exited [OF d(1,2) _ run] run by (cases "pstate (processes s i)") auto
  from slot_runnable [OF d(1,2) r] obtain s' where s': "scheduler_slot i s = Ok (Switched, cvl.entered (ProcessCond i) s')" "dispatched i s s'" by blast
  have "t < MAX_PROCESSES \<and> t \<noteq> i \<and> pstate (processes s t) = EXITED" if "resume_stack_pointer (processes s' i) = InWait t" for t
    using sleeper_okD(3) [OF table_okD(2) [OF d(3,2)], of t] r that s'(2) by (simp add: table_of_simps dispatched_def)
  then show ?thesis using that [of s'] s' run r dispatched_inv [OF inv r s'(2)] by simp
qed

lemma sched_inv_input:
  assumes inv: "sched_inv (l, s)" and "transmits (ports s)" and "has_input c (ports s) P" and run: "serial_received_char s = Ok ((), s1)"
  shows "sched_inv (l, s1)"
proof -
  have d: "quiet s" "my_process s = running_at l" "table_ok (pos l) (running_at l) (ring_contents s = []) (table_of (processes s))"
    using inv by (simp_all add: sched_inv_def)
  note q = quietD [OF d(1)]
  obtain b where s1: "ring_inv s1" "ring_contents s1 = take 127 (ring_contents s @ [b])"
    "processes s1 = (if length (ring_contents s) = 127 then processes s else processes (woken 0 SerialCond s))"
    "serial_input_buffer_condvar s1 = unlocked_lock" "cpu s1 = settled (cpu s)"
    using serial_received_refines_aux [OF q(4,1,2,5,3) assms(2,3)] run by auto
  have quiet: "quiet s1" using d(1) s1 by (auto simp: quiet_def woken_def wake_from_def)
  have "table_ok (pos l) (running_at l) (ring_contents s1 = []) (table_of (processes s1))"
  proof (cases "length (ring_contents s) = 127")
    case True
    then show ?thesis using s1 d(3) by auto
  next
    case False
    then have "table_of (processes s1) = wake_table SerialCond (running_at l) (table_of (processes s))"
      using s1(3) table_of_woken [of SerialCond s] d(2) by simp
    moreover have "ring_contents s1 \<noteq> []" using s1(2) by simp
    ultimately show ?thesis using table_wake_serial [OF d(3)] by simp
  qed
  then show ?thesis using inv quiet s1(5) by (simp add: sched_inv_def my_process_def)
qed

lemma sched_inv_step:
  assumes "sched_inv c" and "sched_step c c'"
  shows "sched_inv c'"
  using assms(2,1)
proof (induction rule: sched_step.induct)
  case (skip i s s1)
  then have d: "quiet s" "i < MAX_PROCESSES" "my_process s = None" "table_ok i None (ring_contents s = []) (table_of (processes s))"
    by (simp_all add: sched_inv_def at_slot_def running_at_def pos_def)
  have "pstate (processes s i) \<noteq> RUNNABLE"
  proof
    assume "pstate (processes s i) = RUNNABLE"
    from slot_runnable [OF d(1,2) this] obtain s' where "scheduler_slot i s = Ok (Switched, cvl.entered (ProcessCond i) s')" by blast
    then show False using skip by simp
  qed
  moreover have "sched_inv (InScheduler (next_slot i), s1)" if "pstate (processes s i) = EXITED"
  proof -
    have r: "reaped i s s1" using slot_exited [OF d(1,2) that skip(1)] by simp
    then have "table_of (processes s1) = (table_of (processes s))(i := table_of (processes s1) i)"
      by (auto simp: reaped_def table_of_def fun_eq_iff)
    moreover have "table_ok (next_slot i) None (ring_contents s = []) ((table_of (processes s))(i := table_of (processes s1) i))"
      by (rule table_reap [OF d(4,2)]) (use r that in \<open>simp_all add: table_of_simps reaped_def\<close>)
    ultimately show ?thesis using r d by (simp add: sched_inv_def at_slot_def running_at_def pos_def reaped_def)
  qed
  moreover have "sched_inv (InScheduler (next_slot i), s1)" if "pstate (processes s i) \<noteq> RUNNABLE" "pstate (processes s i) \<noteq> EXITED"
  proof -
    have "s1 = s\<lparr>cpu := settled (cpu s)\<rparr>" using slot_idle [OF d(1,2) that] skip(1) by simp
    moreover have "table_ok (next_slot i) None (ring_contents s = []) (table_of (processes s))"
      by (rule table_skip [OF d(4,2)]) (simp add: table_of_simps that)
    ultimately show ?thesis using d by (simp add: sched_inv_def at_slot_def running_at_def pos_def my_process_def)
  qed
  ultimately show ?case by auto
next
  case (enter i s s1 r s2)
  obtain s' where s': "s1 = cvl.entered (ProcessCond i) s'" "sched_inv (InUser i, s')"
    and t: "\<And>t. resume_stack_pointer (processes s' i) = InWait t \<Longrightarrow> t < MAX_PROCESSES \<and> t \<noteq> i \<and> pstate (processes s t) = EXITED"
    using slot_switched [OF enter(3,1)] by metis
  have "ends_well i (Return r) s2"
    by (rule ends_well_resume [OF s'(2)]) (use enter(2) s'(1) t in auto)
  then show ?case by (simp add: ends_well_def)
next
  case (resume_back i s s1 s2 s3)
  obtain s' where s': "s1 = cvl.entered (ProcessCond i) s'" "sched_inv (InUser i, s')"
    and t: "\<And>t. resume_stack_pointer (processes s' i) = InWait t \<Longrightarrow> t < MAX_PROCESSES \<and> t \<noteq> i \<and> pstate (processes s t) = EXITED"
    using slot_switched [OF resume_back(4,1)] by metis
  have "ends_well i (Switched :: u64 option control) s2"
    by (rule ends_well_resume [OF s'(2)]) (use resume_back(2) s'(1) t in auto)
  then show ?case using resume_back(3) by (simp add: ends_well_def)
next
  case (call_return c s s1 p)
  have "sched_inv (InUser p, interrupts False s)" using call_return by simp
  from ends_well_call [OF this call_return(1)] show ?case by (simp add: ends_well_def)
next
  case (call_switch c s s1 p s2)
  have "sched_inv (InUser p, interrupts False s)" using call_switch by simp
  from ends_well_call [OF this call_switch(1)] call_switch(2) show ?case by (auto simp: ends_well_def)
next
  case (interrupt s c P s1 l)
  have "sched_inv (l, interrupts False s)" using interrupt by simp
  from sched_inv_input [OF this _ _ interrupt(4)] interrupt(2,3) show ?case by simp
next
  case (other s s' p)
  then show ?case by (simp add: sched_inv_def other_work_def my_process_def)
next
  case (start j s s' p)
  note d = sched_invD [OF start(2)]
  obtain x a where x: "st x = RUNNABLE" "sp x = StackAt a" "table_of (processes s') = (table_of (processes s))(j := x)"
    and j: "j < MAX_PROCESSES" "pstate (processes s j) = UNUSED" "quiet s'" "cpu s' = cpu s" "ring_contents s' = ring_contents s"
    using start(1) by (auto simp: starts_process_def)
  have "table_ok (next_slot p) (Some p) (ring_contents s = []) ((table_of (processes s))(j := x))"
    by (rule table_start [OF d(4) j(1) _ x(1,2)]) (simp add: table_of_simps j(2))
  then show ?case using j(3-5) x(3) d(2,3) by (simp add: sched_inv_def at_slot_def running_at_def pos_def my_process_def)
qed

lemma sched_inv_reachable: "sched_reachable c \<Longrightarrow> sched_inv c"
  by (induction rule: sched_reachable.induct) (auto intro: sched_inv_start sched_inv_step)

section \<open>The properties\<close>

text \<open>
  C24. In every state that the system reaches, at most one process is \<open>RUNNING\<close>, and it is the one the
  core executes; and no wakeup is lost: a sleeping process waits for input of the serial port and there
  is none, or waits for another process that has not exited.
\<close>

theorem scheduler_reachable_states:
  assumes "sched_reachable (l, s)"
  shows "(\<forall>j<MAX_PROCESSES. pstate (processes s j) = RUNNING \<longleftrightarrow> l = InUser j) \<and>
    (\<forall>j<MAX_PROCESSES. pstate (processes s j) = SLEEPING \<longrightarrow>
       waiting_channel (processes s j) = Some SerialCond \<and> ring_contents s = [] \<or>
       (\<exists>t<MAX_PROCESSES. t \<noteq> j \<and> waiting_channel (processes s j) = Some (ProcessCond t) \<and> pstate (processes s t) \<noteq> EXITED))"
proof -
  have t: "table_ok (pos l) (running_at l) (ring_contents s = []) (table_of (processes s))"
    using sched_inv_reachable [OF assms] by (simp add: sched_inv_def)
  have "pstate (processes s j) = RUNNING \<longleftrightarrow> l = InUser j" if "j < MAX_PROCESSES" for j
    using table_okD(1) [OF t that] by (cases l) (auto simp: running_at_def table_of_simps)
  moreover have "waiting_channel (processes s j) = Some SerialCond \<and> ring_contents s = [] \<or>
      (\<exists>t<MAX_PROCESSES. t \<noteq> j \<and> waiting_channel (processes s j) = Some (ProcessCond t) \<and> pstate (processes s t) \<noteq> EXITED)"
    if "j < MAX_PROCESSES" "pstate (processes s j) = SLEEPING" for j
    using table_okD(2) [OF t that(1)] that(2) unfolding sleeper_ok_def table_of_simps by blast
  ultimately show ?thesis by blast
qed

text \<open>One process that is about to run for the first time.\<close>

definition one_process :: "(unit, u64, unit, u32 \<times> (u32 \<Rightarrow> u32)) proc_state" where
  "one_process = input_machine\<lparr>serial_input_buffer_read_index := 0, serial_input_buffer_write_index := 0,
     processes := (\<lambda>_. unused_process)(0 := unused_process\<lparr>pid := 1, pstate := RUNNABLE, resume_stack_pointer := StackAt 0\<rparr>)\<rparr>"

lemma one_process_start: "sched_start (InScheduler 0, one_process)"
  by (simp add: sched_start_def one_process_def quiet_def ring_inv_def ring_contents_def my_process_def boot_cpu_def
    unused_process_def SERIAL_BUFFER_LENGTH_def ring_dist_def)

theorem scheduler_reachable_states_witness:
  "sched_reachable (InScheduler 0, one_process) \<and> pstate (processes one_process 0) \<noteq> RUNNING"
proof -
  have r: "sched_reachable (InScheduler 0, one_process)" by (rule sched_reachable.init [OF one_process_start])
  then show ?thesis using scheduler_reachable_states [OF r] by (simp add: MAX_PROCESSES_def)
qed

text \<open>
  C25. When the scheduler comes to a process that was woken in \<open>proc_wait\<close>, the process it waited for
  has still exited and was not reaped: the wait returns its exit status, in every state that satisfies
  the invariant of the reachable states.
\<close>

theorem waiter_gets_exit_status:
  assumes inv: "sched_inv (InScheduler i, s)" and run: "pstate (processes s i) = RUNNABLE"
    and sp: "resume_stack_pointer (processes s i) = InWait t"
  shows "pstate (processes s t) = EXITED \<and> (\<exists>s1 s2. scheduler_slot i s = Ok (Switched, s1) \<and>
    resume i s1 = Ok (Return (Some (scast (exit_status (processes s t)))), s2) \<and> sched_inv (InUser i, s2))"
proof -
  have d: "quiet s" "i < MAX_PROCESSES" "table_ok i None (ring_contents s = []) (table_of (processes s))"
    using inv by (simp_all add: sched_inv_def at_slot_def running_at_def pos_def)
  have t: "t < MAX_PROCESSES" "pstate (processes s t) = EXITED" "t \<noteq> i"
    using sleeper_okD(3) [OF table_okD(2) [OF d(3,2)], of t] run sp by (simp_all add: table_of_simps)
  from slot_runnable [OF d(1,2) run] obtain s'
    where s': "scheduler_slot i s = Ok (Switched, cvl.entered (ProcessCond i) s')" "dispatched i s s'" by blast
  have inv': "sched_inv (InUser i, s')" by (rule dispatched_inv [OF inv run s'(2)])
  note d' = sched_invD [OF inv']
  have e: "pstate (processes s' t) = EXITED" "exit_status (processes s' t) = exit_status (processes s t)"
    "resume_stack_pointer (processes (cvl.entered (ProcessCond i) s') i) = InWait t"
    using s'(2) t sp by (simp_all add: dispatched_def entered_process)
  have "condvar_wait_resume (ProcessCond t) (cvl.entered (ProcessCond i) s') = Ok ((), cvl.entered (ProcessCond t) s')"
    by (rule wait_resume_eq [OF d'(1,3,2)]) (simp add: cond_lock_def quietD(6) [OF d'(1) t(1)])
  then have "resume i (cvl.entered (ProcessCond i) s') =
      Ok (Return (Some (scast (exit_status (processes s t)))), s'\<lparr>cpu := settled (cpu s')\<rparr>)"
    using wait_loop_ok(1) [OF d'(1,3,2) t(1) e(1)] e by (simp add: resume_def)
  then show ?thesis using s'(1) t(2) sched_inv_settled [OF inv'] by blast
qed

text \<open>A process that was woken after the process in slot 5 exited with status 7.\<close>

definition woken_process :: "(unit, u64, unit, u32 \<times> (u32 \<Rightarrow> u32)) proc_state" where
  "woken_process = one_process\<lparr>processes := (\<lambda>_. unused_process)
     (0 := unused_process\<lparr>pid := 1, pstate := RUNNABLE, waiting_channel := Some (ProcessCond 5), resume_stack_pointer := InWait 5\<rparr>,
      5 := unused_process\<lparr>pid := 2, pstate := EXITED, exit_status := 7, resume_stack_pointer := InExit\<rparr>)\<rparr>"

lemma woken_process_inv: "sched_inv (InScheduler 0, woken_process)"
  by (simp add: sched_inv_def woken_process_def one_process_def quiet_def ring_inv_def ring_contents_def my_process_def boot_cpu_def
    unused_process_def SERIAL_BUFFER_LENGTH_def ring_dist_def table_ok_def sleeper_ok_def in_time_def table_of_def slot_dist_def running_at_def
    pos_def at_slot_def MAX_PROCESSES_def)

theorem waiter_gets_exit_status_witness:
  "sched_inv (InScheduler 0, woken_process) \<and>
   (\<exists>s1 s2. scheduler_slot 0 woken_process = Ok (Switched, s1) \<and> resume 0 s1 = Ok (Return (Some 7), s2))"
proof -
  have "resume_stack_pointer (processes woken_process 0) = InWait 5" "pstate (processes woken_process 0) = RUNNABLE"
    "exit_status (processes woken_process 5) = 7" by (simp_all add: woken_process_def)
  then show ?thesis using waiter_gets_exit_status [OF woken_process_inv, of 5] woken_process_inv by auto
qed

text \<open>
  C26. Dispatching a runnable process: it alone becomes \<open>RUNNING\<close>, its page table is loaded, the
  registers of the FPU are the ones it had when it last ran, and the FPU state of every process, in the
  registers or saved in its slot, is kept.
\<close>

theorem scheduler_dispatch:
  assumes "quiet s" and "i < MAX_PROCESSES" and "pstate (processes s i) = RUNNABLE"
  shows "\<exists>s'. scheduler_slot i s = Ok (Switched, cvl.entered (ProcessCond i) s') \<and> quiet s' \<and> my_process s' = Some i \<and>
    (\<forall>j. pstate (processes s' j) = (if j = i then RUNNING else pstate (processes s j)) \<and> fpu_of s' j = fpu_of s j) \<and>
    last_running_process (cpu s') = Some i \<and> fpu s' = fpu_of s i \<and>
    cr3 s' = V2P s (pagetable (processes s i)) AND 0xFFFFFFFFFFFFF000"
proof -
  from slot_runnable [OF assms] obtain s'
    where "scheduler_slot i s = Ok (Switched, cvl.entered (ProcessCond i) s')" and d: "dispatched i s s'" by blast
  then show ?thesis using d unfolding dispatched_def by blast
qed

theorem scheduler_dispatch_witness:
  "\<exists>s'. scheduler_slot 0 one_process = Ok (Switched, cvl.entered (ProcessCond 0) s') \<and> pstate (processes s' 0) = RUNNING"
proof -
  have "quiet one_process" using one_process_start by (simp add: sched_start_def)
  moreover have "pstate (processes one_process 0) = RUNNABLE" by (simp add: one_process_def)
  ultimately show ?thesis using scheduler_dispatch [of one_process 0] by (auto simp: MAX_PROCESSES_def)
qed

text \<open>
  C27. \<open>proc_wait\<close> of a running process looks up the first slot with the given process id. It returns -1
  when there is none, the exit status when that process has exited, and otherwise puts the caller to
  sleep on that slot, to be resumed in its loop. A process that waits for itself panics the kernel.
\<close>

theorem proc_wait_correct:
  assumes "quiet s" and "my_process s = Some p" and "p < MAX_PROCESSES"
  shows "proc_wait target s =
    (case first_from MAX_PROCESSES (\<lambda>q. pid q = target) (processes s) of
       None \<Rightarrow> Ok (Return (-1), s\<lparr>cpu := settled (cpu s)\<rparr>)
     | Some t \<Rightarrow>
         if pstate (processes s t) = EXITED then Ok (Return (exit_status (processes s t)), s\<lparr>cpu := settled (cpu s)\<rparr>)
         else if t = p then Panic ''deadlock''
         else Ok (Switched, left p (\<lambda>q. q\<lparr>pstate := SLEEPING, waiting_channel := Some (ProcessCond t), resume_stack_pointer := InWait t\<rparr>) s))"
proof (cases "first_from MAX_PROCESSES (\<lambda>q. pid q = target) (processes s)")
  case (Some t)
  then have "t < MAX_PROCESSES" by (auto dest: first_from_Some)
  then show ?thesis using proc_wait_ok [OF assms(1)] Some wait_loop_ok [OF assms] by simp
qed (simp add: proc_wait_ok [OF assms(1)])

text \<open>A process that waits for itself.\<close>

definition lonely_process :: "(unit, u64, unit, u32 \<times> (u32 \<Rightarrow> u32)) proc_state" where
  "lonely_process = one_process\<lparr>cpu := boot_cpu\<lparr>running_process := Some 0\<rparr>,
     processes := (\<lambda>_. unused_process)(0 := unused_process\<lparr>pid := 1, pstate := RUNNING\<rparr>)\<rparr>"

theorem proc_wait_correct_witness: "proc_wait 1 lonely_process = Panic ''deadlock''"
proof -
  have "first_from MAX_PROCESSES (\<lambda>q. pid q = 1) (processes lonely_process) = Some 0"
    by (simp add: MAX_PROCESSES_def lonely_process_def eval_nat_numeral)
  moreover have "quiet lonely_process"
    by (simp add: lonely_process_def one_process_def quiet_def ring_inv_def ring_dist_def boot_cpu_def unused_process_def
      SERIAL_BUFFER_LENGTH_def)
  ultimately show ?thesis
    using proc_wait_correct [of lonely_process 0 1]
    by (simp add: my_process_def lonely_process_def MAX_PROCESSES_def)
qed

end
