(* ===== verification/Files.thy ===== *)
theory Files
  imports Serial_Input
begin

text \<open>
  Open files and devices of a process: \<^verbatim>\<open>src/kernel/fs/file.c\<close>,
  \<^verbatim>\<open>src/kernel/fs/device.c\<close> and the system calls on descriptors in
  \<^verbatim>\<open>src/kernel/fs/syscall.c\<close>. Descriptors, flags and offsets are the 32-bit
  integers of the code; a read of the serial port may give up the core.
\<close>

section \<open>Files\<close>

definition O_WRONLY :: u32 where "O_WRONLY = 0x1"
definition O_RDWR :: u32 where "O_RDWR = 0x2"
definition O_CREAT :: u32 where "O_CREAT = 0x40"
definition O_DEVICE :: u32 where "O_DEVICE = 0x800"
definition O_DIR :: u32 where "O_DIR = 0x1000"

definition SEEK_SET :: u32 where "SEEK_SET = 0"
definition SEEK_CUR :: u32 where "SEEK_CUR = 1"
definition SEEK_END :: u32 where "SEEK_END = 2"

lemmas open_flags = O_WRONLY_def O_RDWR_def O_CREAT_def O_DEVICE_def O_DIR_def
lemmas seek_modes = SEEK_SET_def SEEK_CUR_def SEEK_END_def

definition crowfs_flags :: "'s crowfs \<Rightarrow> u32 \<Rightarrow> u32" where
  "crowfs_flags C flags = (if flags AND O_CREAT \<noteq> 0 then CROWFS_O_CREATE C else 0) OR
     (if flags AND O_DIR \<noteq> 0 then CROWFS_O_DIR C else 0)"

definition opened_file :: "u32 \<Rightarrow> nat \<Rightarrow> process_file" where
  "opened_file flags i = \<lparr>fd_type = FD_INODE, structures = Inode (Some i), offset = 0,
     fd_readble = (flags AND O_WRONLY = 0),
     fd_writable = (flags AND O_WRONLY \<noteq> 0 \<or> flags AND O_RDWR \<noteq> 0)\<rparr>"

definition file_open ::
  "('d, 'p, 'f, 'a, 'z) proc_state_scheme crowfs \<Rightarrow> u64 \<Rightarrow> u32 \<Rightarrow> (('d, 'p, 'f, 'a, 'z) proc_state_scheme, u32) kern" where
  "file_open C path flags =
     kbind proc_allocate_fd (\<lambda>fd.
     if fd = -1 then kret (-1) else
     the_process (\<lambda>p.
     kbind (kgets (\<lambda>s. working_directory (processes s p))) (\<lambda>wd.
     kbind (fs_open C path wd (crowfs_flags C flags)) (\<lambda>inode.
     case inode of
       None \<Rightarrow> kret (-1)
     | Some i \<Rightarrow> kbind (kmodify (set_file p (unat fd) (\<lambda>_. opened_file flags i))) (\<lambda>_. kret fd)))))"

text \<open>The checks of \<^verbatim>\<open>file.c\<close>: they panic, and exclude descriptor 16.\<close>

definition checked_file ::
  "string \<Rightarrow> string \<Rightarrow> (process_file \<Rightarrow> bool) \<Rightarrow> u32 \<Rightarrow>
   (nat \<Rightarrow> process_file \<Rightarrow> nat \<Rightarrow> (('d, 'p, 'f, 'a, 'z) proc_state_scheme, 'r) kern) \<Rightarrow>
   (('d, 'p, 'f, 'a, 'z) proc_state_scheme, 'r) kern" where
  "checked_file no_process bad_fd allowed fd body =
     kbind (kgets my_process) (\<lambda>proc.
     case proc of None \<Rightarrow> kpanic no_process | Some p \<Rightarrow>
     if sint fd < 0 \<or> int MAX_OPEN_FILES \<le> sint fd then kpanic bad_fd else
     kbind (kgets (\<lambda>s. open_files (processes s p) ! unat fd)) (\<lambda>f.
     if \<not> allowed f \<or> fd_type f \<noteq> FD_INODE then kpanic bad_fd else
     case structures f of Inode (Some i) \<Rightarrow> body p f i | _ \<Rightarrow> kundef))"

definition advance_file ::
  "nat \<Rightarrow> u32 \<Rightarrow> u32 \<Rightarrow> (('d, 'p, 'f, 'a, 'z) proc_state_scheme, u32) kern" where
  "advance_file p fd result =
     kbind (kmodify (set_file p (unat fd) (\<lambda>f. f\<lparr>offset := offset f + result\<rparr>))) (\<lambda>_. kret result)"

definition file_write ::
  "('d, 'p, 'f, 'a, 'z) proc_state_scheme crowfs \<Rightarrow> u32 \<Rightarrow> u64 \<Rightarrow> u64 \<Rightarrow> (('d, 'p, 'f, 'a, 'z) proc_state_scheme, u32) kern" where
  "file_write C fd buffer len =
     checked_file ''file_write: no process'' ''file_write: fd'' fd_writable fd (\<lambda>p f i.
     kbind (fs_write C i buffer len (ucast (offset f))) (\<lambda>result.
     if sint result < 0 then kret result else advance_file p fd result))"

definition file_read ::
  "('d, 'p, 'f, 'a, 'z) proc_state_scheme crowfs \<Rightarrow> u32 \<Rightarrow> u64 \<Rightarrow> u64 \<Rightarrow> (('d, 'p, 'f, 'a, 'z) proc_state_scheme, u32) kern" where
  "file_read C fd buffer len =
     checked_file ''file_read: no process'' ''file_read: fd'' fd_readble fd (\<lambda>p f i.
     kbind (fs_read C i buffer len (ucast (offset f))) (\<lambda>result.
     if sint result < 0 then kret result else advance_file p fd result))"

definition seek_target :: "u32 \<Rightarrow> u64 \<Rightarrow> u32 \<Rightarrow> u32 \<Rightarrow> u32 option" where
  "seek_target file_size off whence current =
     (if whence = SEEK_SET then Some (ucast off)
      else if whence = SEEK_CUR then Some (ucast (ucast current + off))
      else if whence = SEEK_END then Some (file_size - ucast off)
      else None)"

definition file_seek :: "u32 \<Rightarrow> u64 \<Rightarrow> u32 \<Rightarrow> (('d, 'p, 'f, 'a, 'z) proc_state_scheme, u32) kern" where
  "file_seek fd off whence =
     checked_file ''file_seek: no process'' ''file_seek: fd'' (\<lambda>_. True) fd (\<lambda>p f i.
     kbind (kgets (\<lambda>s. isize (inodes s i))) (\<lambda>file_size.
     case seek_target file_size off whence (offset f) of
       None \<Rightarrow> kret (-1)
     | Some target \<Rightarrow>
         let bounded = (if file_size < target then file_size else target) in
         kbind (kmodify (set_file p (unat fd) (offset_update (\<lambda>_. bounded)))) (\<lambda>_. kret bounded)))"

section \<open>Devices\<close>

record 's device =
  dev_name :: "u8 list"
  dev_read :: "(u64 \<Rightarrow> u64 \<Rightarrow> ('s, u32 control) kern) option"
  dev_write :: "(u64 \<Rightarrow> u64 \<Rightarrow> ('s, u32) kern) option"
  dev_lseek :: "(u64 \<Rightarrow> u32 \<Rightarrow> ('s, u32) kern) option"
  dev_control :: "(u32 \<Rightarrow> u64 \<Rightarrow> ('s, u32) kern) option"

definition SERIAL_DEVICE_NAME :: "u8 list" where "SERIAL_DEVICE_NAME = map of_char ''serial''"
definition SERIAL_ASYNC_DEVICE_NAME :: "u8 list" where "SERIAL_ASYNC_DEVICE_NAME = map of_char ''serial_async''"
definition FRAMEBUFFER_DEVICE_NAME :: "u8 list" where "FRAMEBUFFER_DEVICE_NAME = map of_char ''fb''"

definition devices :: "('d, 'p, 'f, 'a, 'z) proc_state_scheme device list" where
  "devices =
     [\<lparr>dev_name = SERIAL_DEVICE_NAME, dev_read = Some serial_read, dev_write = Some serial_write,
       dev_lseek = None, dev_control = None\<rparr>,
      \<lparr>dev_name = SERIAL_ASYNC_DEVICE_NAME, dev_read = Some serial_read_async, dev_write = Some serial_write,
       dev_lseek = None, dev_control = None\<rparr>,
      \<lparr>dev_name = FRAMEBUFFER_DEVICE_NAME, dev_read = None, dev_write = Some fb_write,
       dev_lseek = None, dev_control = Some fb_control\<rparr>]"

text \<open>\<open>strcmp (name, s) == 0\<close> for a string literal of the kernel.\<close>

primrec name_is :: "u8 list \<Rightarrow> u64 \<Rightarrow> mem \<Rightarrow> bool" where
  "name_is [] name m = (m name = 0)"
| "name_is (c # cs) name m = (m name = c \<and> name_is cs (name + 1) m)"

primrec device_scan :: "nat \<Rightarrow> 's device list \<Rightarrow> u64 \<Rightarrow> mem \<Rightarrow> u32" where
  "device_scan i [] name m = -1"
| "device_scan i (d # ds) name m = (if name_is (dev_name d) name m then of_nat i else device_scan (Suc i) ds name m)"

definition device_index :: "u64 \<Rightarrow> (('d, 'p, 'f, 'a, 'z) proc_state_scheme, u32) kern" where
  "device_index name = kgets (\<lambda>s. device_scan 0 (devices :: ('d, 'p, 'f, 'a, 'z) proc_state_scheme device list) name (mem s))"

definition device_get :: "u32 \<Rightarrow> ('d, 'p, 'f, 'a, 'z) proc_state_scheme device option" where
  "device_get index =
     (if sint index < 0 \<or> int (length (devices :: ('d, 'p, 'f, 'a, 'z) proc_state_scheme device list)) \<le> sint index then None
      else Some (devices ! unat index))"

definition device_open :: "u64 \<Rightarrow> (('d, 'p, 'f, 'a, 'z) proc_state_scheme, u32) kern" where
  "device_open name =
     kbind (device_index name) (\<lambda>index.
     if index = -1 then kret (-1) else
     kbind proc_allocate_fd (\<lambda>fd.
     if fd = -1 then kret (-1) else
     the_process (\<lambda>p.
     let dev = devices ! unat index :: ('d, 'p, 'f, 'a, 'z) proc_state_scheme device in
     kbind (kmodify (set_file p (unat fd) (\<lambda>_.
       \<lparr>fd_type = FD_DEVICE, structures = Device index, offset = 0,
        fd_readble = (dev_read dev \<noteq> None), fd_writable = (dev_write dev \<noteq> None)\<rparr>))) (\<lambda>_.
     kret fd))))"

section \<open>System calls\<close>

definition sys_open ::
  "('d, 'p, 'f, 'a, 'z) proc_state_scheme crowfs \<Rightarrow> u64 \<Rightarrow> u32 \<Rightarrow> (('d, 'p, 'f, 'a, 'z) proc_state_scheme, u32) kern" where
  "sys_open C path flags = (if flags AND O_DEVICE \<noteq> 0 then device_open path else file_open C path flags)"

text \<open>
  The check of a descriptor, \<open>fd < 0 || fd > MAX_OPEN_FILES || type == FD_EMPTY\<close>: descriptor 16 passes
  the comparison and reads past the array.
\<close>

definition open_file :: "u32 \<Rightarrow> (nat \<Rightarrow> process_file option \<Rightarrow> (('d, 'p, 'f, 'a, 'z) proc_state_scheme, 'r) kern) \<Rightarrow>
   (('d, 'p, 'f, 'a, 'z) proc_state_scheme, 'r) kern" where
  "open_file fd body =
     the_process (\<lambda>p.
     if sint fd < 0 \<or> int MAX_OPEN_FILES < sint fd then body p None
     else if sint fd = int MAX_OPEN_FILES then kundef
     else kbind (kgets (\<lambda>s. open_files (processes s p) ! unat fd)) (\<lambda>f.
          body p (if fd_type f = FD_EMPTY then None else Some f)))"

text \<open>The device of a descriptor; a call through a \<open>NULL\<close> function is undefined.\<close>

definition file_device :: "process_file \<Rightarrow> ('d, 'p, 'f, 'a, 'z) proc_state_scheme device option" where
  "file_device f = (case structures f of Device n \<Rightarrow> device_get n | Inode _ \<Rightarrow> None)"

definition sys_read ::
  "('d, 'p, 'f, 'a, 'z) proc_state_scheme crowfs \<Rightarrow> u32 \<Rightarrow> u64 \<Rightarrow> u64 \<Rightarrow> (('d, 'p, 'f, 'a, 'z) proc_state_scheme, u32 control) kern" where
  "sys_read C fd buffer len =
     open_file fd (\<lambda>p file.
     case file of None \<Rightarrow> kret (Return (-1)) | Some f \<Rightarrow>
     if \<not> fd_readble f then kret (Return (-1))
     else if fd_type f = FD_INODE then kbind (file_read C fd buffer len) (\<lambda>r. kret (Return r))
     else case file_device f of
            None \<Rightarrow> kret (Return (-1))
          | Some dev \<Rightarrow> (case dev_read dev of None \<Rightarrow> kundef | Some read \<Rightarrow> read buffer len))"

definition sys_write ::
  "('d, 'p, 'f, 'a, 'z) proc_state_scheme crowfs \<Rightarrow> u32 \<Rightarrow> u64 \<Rightarrow> u64 \<Rightarrow> (('d, 'p, 'f, 'a, 'z) proc_state_scheme, u32) kern" where
  "sys_write C fd buffer len =
     open_file fd (\<lambda>p file.
     case file of None \<Rightarrow> kret (-1) | Some f \<Rightarrow>
     if \<not> fd_writable f then kret (-1)
     else if fd_type f = FD_INODE then file_write C fd buffer len
     else case file_device f of
            None \<Rightarrow> kret (-1)
          | Some dev \<Rightarrow> (case dev_write dev of None \<Rightarrow> kundef | Some write \<Rightarrow> write buffer len))"

definition closed_file :: process_file where
  "closed_file = \<lparr>fd_type = FD_EMPTY, structures = Inode None, offset = 0, fd_readble = False, fd_writable = False\<rparr>"

definition sys_close :: "u32 \<Rightarrow> (('d, 'p, 'f, 'a, 'z) proc_state_scheme, u32) kern" where
  "sys_close fd =
     open_file fd (\<lambda>p file.
     case file of None \<Rightarrow> kret (-1) | Some f \<Rightarrow>
     if fd_type f = FD_INODE
     then kbind (close_inode (structures f)) (\<lambda>_.
          kbind (kmodify (set_file p (unat fd) (\<lambda>_. closed_file))) (\<lambda>_. kret 0))
     else kret 0)"

definition sys_lseek :: "u32 \<Rightarrow> u64 \<Rightarrow> u32 \<Rightarrow> (('d, 'p, 'f, 'a, 'z) proc_state_scheme, u32) kern" where
  "sys_lseek fd off whence =
     open_file fd (\<lambda>p file.
     case file of None \<Rightarrow> kret (-1) | Some f \<Rightarrow>
     if fd_type f = FD_INODE then file_seek fd off whence
     else case file_device f of
            None \<Rightarrow> kret (-1)
          | Some dev \<Rightarrow> (case dev_lseek dev of None \<Rightarrow> kret (-1) | Some lseek \<Rightarrow> lseek off whence))"

definition sys_ioctl :: "u32 \<Rightarrow> u32 \<Rightarrow> u64 \<Rightarrow> (('d, 'p, 'f, 'a, 'z) proc_state_scheme, u32) kern" where
  "sys_ioctl fd command data =
     open_file fd (\<lambda>p file.
     case file of None \<Rightarrow> kret (-1) | Some f \<Rightarrow>
     if fd_type f = FD_INODE then kret (-1)
     else case file_device f of
            None \<Rightarrow> kret (-1)
          | Some dev \<Rightarrow> (case dev_control dev of None \<Rightarrow> kret (-1) | Some control \<Rightarrow> control command data))"

definition sys_rename :: "u64 \<Rightarrow> u64 \<Rightarrow> (('d, 'p, 'f, 'a, 'z) proc_state_scheme, u32) kern" where
  "sys_rename old_path new_path =
     the_process (\<lambda>p. kbind (kgets (\<lambda>s. working_directory (processes s p))) (\<lambda>wd. fs_rename old_path new_path wd))"

definition sys_unlink ::
  "('d, 'p, 'f, 'a, 'z) proc_state_scheme crowfs \<Rightarrow> u64 \<Rightarrow> (('d, 'p, 'f, 'a, 'z) proc_state_scheme, u32) kern" where
  "sys_unlink C path =
     the_process (\<lambda>p. kbind (kgets (\<lambda>s. working_directory (processes s p))) (\<lambda>wd. fs_delete C path wd))"

definition sys_mkdir ::
  "('d, 'p, 'f, 'a, 'z) proc_state_scheme crowfs \<Rightarrow> u64 \<Rightarrow> (('d, 'p, 'f, 'a, 'z) proc_state_scheme, u32) kern" where
  "sys_mkdir C directory =
     the_process (\<lambda>p. kbind (kgets (\<lambda>s. working_directory (processes s p))) (\<lambda>wd. fs_mkdir C directory wd))"

definition sys_chdir ::
  "('d, 'p, 'f, 'a, 'z) proc_state_scheme crowfs \<Rightarrow> u64 \<Rightarrow> (('d, 'p, 'f, 'a, 'z) proc_state_scheme, u32) kern" where
  "sys_chdir C directory =
     the_process (\<lambda>p.
     kbind (kgets (\<lambda>s. working_directory (processes s p))) (\<lambda>wd.
     kbind (fs_open C directory wd (CROWFS_O_DIR C)) (\<lambda>new_chdir.
     case new_chdir of
       None \<Rightarrow> kret (-1)
     | Some n \<Rightarrow>
         kbind (case wd of None \<Rightarrow> kundef | Some old \<Rightarrow> fs_close old) (\<lambda>_.
         kbind (kmodify (set_proc p (working_directory_update (\<lambda>_. Some n)))) (\<lambda>_.
         kret 0)))))"

definition sys_readdir ::
  "('d, 'p, 'f, 'a, 'z) proc_state_scheme crowfs \<Rightarrow> u32 \<Rightarrow> u64 \<Rightarrow> u64 \<Rightarrow> (('d, 'p, 'f, 'a, 'z) proc_state_scheme, u32) kern" where
  "sys_readdir C fd buffer len =
     checked_file ''sys_readdir: no process'' ''sys_readdir: fd'' (\<lambda>_. True) fd (\<lambda>p f i.
     kbind (fs_readdir C i buffer len (offset f)) (\<lambda>result.
     if sint result \<le> 0 then kret result else advance_file p fd result))"

section \<open>Who refers to an inode\<close>

definition points_to :: "nat \<Rightarrow> process_file \<Rightarrow> bool" where
  "points_to i f \<longleftrightarrow> fd_type f = FD_INODE \<and> structures f = Inode (Some i)"

definition holds :: "nat \<Rightarrow> process \<Rightarrow> nat" where
  "holds i p = length (filter (points_to i) (open_files p)) + of_bool (working_directory p = Some i)"

definition holders :: "(nat \<Rightarrow> process) \<Rightarrow> nat \<Rightarrow> nat" where
  "holders ps i = (\<Sum>p<MAX_PROCESSES. holds i (ps p))"

text \<open>The descriptors of a process are well-typed.\<close>

definition typed_file :: "process_file \<Rightarrow> bool" where
  "typed_file f \<longleftrightarrow> (case fd_type f of
       FD_EMPTY \<Rightarrow> True
     | FD_INODE \<Rightarrow> (\<exists>i<MAX_INODES. structures f = Inode (Some i))
     | FD_DEVICE \<Rightarrow> (\<exists>n. structures f = Device n \<and> (n = 0 \<or> n = 1 \<or> n = 2) \<and> (fd_readble f \<longrightarrow> n \<noteq> 2)))"

definition typed_files :: "process \<Rightarrow> bool" where
  "typed_files p \<longleftrightarrow> length (open_files p) = MAX_OPEN_FILES \<and> (\<forall>f\<in>set (open_files p). typed_file f) \<and>
     (\<forall>i. working_directory p = Some i \<longrightarrow> i < MAX_INODES)"

text \<open>No inode has more holders than references.\<close>

definition files_ok :: "('d, 'p, 'f, 'a, 'z) proc_state_scheme \<Rightarrow> bool" where
  "files_ok s \<longleftrightarrow> fs_ok s \<and> (\<forall>p<MAX_PROCESSES. typed_files (processes s p)) \<and>
     (\<forall>i<MAX_INODES. holders (processes s) i \<le> unat (reference_count (inodes s i)))"

lemma holders_update:
  assumes "p < MAX_PROCESSES"
  shows "holders (ps(p := q)) i + holds i (ps p) = holders ps i + holds i q"
proof -
  have "holders ps' i = holds i (ps' p) + (\<Sum>r\<in>{..<MAX_PROCESSES} - {p}. holds i (ps' r))" for ps'
    unfolding holders_def using assms by (intro sum.remove) simp_all
  moreover have "(\<Sum>r\<in>{..<MAX_PROCESSES} - {p}. holds i ((ps(p := q)) r)) = (\<Sum>r\<in>{..<MAX_PROCESSES} - {p}. holds i (ps r))"
    by (intro sum.cong) simp_all
  ultimately show ?thesis by simp
qed

lemma holder_counted: "p < MAX_PROCESSES \<Longrightarrow> holds i (ps p) \<le> holders ps i"
  unfolding holders_def by (intro member_le_sum) simp_all

lemma filter_update:
  "k < length xs \<Longrightarrow> length (filter P (xs[k := x])) + of_bool (P (xs ! k)) = length (filter P xs) + of_bool (P x)"
proof (induction xs arbitrary: k)
  case (Cons a xs)
  then show ?case by (cases k) auto
qed simp

lemma holds_file:
  "fd < length (open_files p) \<Longrightarrow>
   holds i (p\<lparr>open_files := (open_files p)[fd := f]\<rparr>) + of_bool (points_to i (open_files p ! fd)) = holds i p + of_bool (points_to i f)"
  using filter_update [of fd "open_files p" "points_to i" f] by (simp add: holds_def)

lemma holds_points: "f \<in> set (open_files p) \<Longrightarrow> points_to i f \<Longrightarrow> 0 < holds i p"
  by (auto simp: holds_def filter_empty_conv)

lemma typed_file_update:
  "typed_files p \<Longrightarrow> typed_file f \<Longrightarrow> typed_files (p\<lparr>open_files := (open_files p)[fd := f]\<rparr>)"
  by (auto simp: typed_files_def dest!: subsetD [OF set_update_subset_insert])

lemma files_okD:
  assumes "files_ok s"
  shows "fs_ok s" "p < MAX_PROCESSES \<Longrightarrow> typed_files (processes s p)"
    "i < MAX_INODES \<Longrightarrow> holders (processes s) i \<le> unat (reference_count (inodes s i))"
  using assms by (simp_all add: files_ok_def)

text \<open>One process changes what it holds, and the table of inodes follows.\<close>

lemma files_ok_step:
  assumes "files_ok s" and "fs_ok s'" and "p < MAX_PROCESSES" and "processes s' = (processes s)(p := q)" and "typed_files q"
    and count: "\<And>i. i < MAX_INODES \<Longrightarrow>
      holds i q + unat (reference_count (inodes s i)) \<le> holds i (processes s p) + unat (reference_count (inodes s' i))"
  shows "files_ok s'"
  unfolding files_ok_def
proof (intro conjI allI impI)
  show "typed_files (processes s' r)" if "r < MAX_PROCESSES" for r
    using files_okD(2) [OF assms(1) that] assms(4,5) by simp
  show "holders (processes s') i \<le> unat (reference_count (inodes s' i))" if "i < MAX_INODES" for i
    using holders_update [OF assms(3), of "processes s" q i] files_okD(3) [OF assms(1) that] count [OF that] assms(4) by simp
qed (rule assms(2))

lemma held_in_use:
  assumes "files_ok s" and "p < MAX_PROCESSES" and "0 < holds i (processes s p)" and "i < MAX_INODES"
  shows "in_use (inodes s i)"
proof -
  have "0 < unat (reference_count (inodes s i))"
    using files_okD(3) [OF assms(1,4)] holder_counted [OF assms(2), of i "processes s"] assms(3) by linarith
  then show ?thesis using files_okD(1) [OF assms(1)] inodes_okD(2) [OF _ assms(4)] by (auto simp: fs_ok_def)
qed

lemma file_in_use:
  assumes "files_ok s" and "p < MAX_PROCESSES" and "f \<in> set (open_files (processes s p))" and "points_to i f"
  shows "i < MAX_INODES \<and> in_use (inodes s i)"
proof -
  have "typed_file f" using files_okD(2) [OF assms(1,2)] assms(3) by (simp add: typed_files_def)
  then have i: "i < MAX_INODES" using assms(4) by (auto simp: typed_file_def points_to_def)
  show ?thesis using held_in_use [OF assms(1,2) holds_points [OF assms(3,4)] i] i by simp
qed

section \<open>What the calls keep\<close>

text \<open>The library of the file system knows nothing of processes.\<close>

definition crowfs_apart :: "('d, 'p, 'f, 'a, 'z) proc_state_scheme crowfs \<Rightarrow> bool" where
  "crowfs_apart C \<longleftrightarrow> (\<forall>v.
     (\<forall>path d flags. preserves (\<lambda>s. processes s = v) (crowfs_open_relative C path d flags)) \<and>
     (\<forall>d. preserves (\<lambda>s. processes s = v) (crowfs_stat_of C d)) \<and>
     (\<forall>d b l off. preserves (\<lambda>s. processes s = v) (crowfs_read C d b l off)) \<and>
     (\<forall>d b l off. preserves (\<lambda>s. processes s = v) (crowfs_write C d b l off)))"

definition crowfs_lawful :: "('d, 'p, 'f, 'a, 'z) proc_state_scheme crowfs \<Rightarrow> bool" where
  "crowfs_lawful C \<longleftrightarrow> crowfs_frame C \<and> (\<forall>dn. stats_file C dn) \<and> crowfs_apart C"

lemma apart_ops:
  assumes "crowfs_apart C"
  shows "preserves (\<lambda>s. processes s = v) (crowfs_open_relative C path d flags)"
    "preserves (\<lambda>s. processes s = v) (crowfs_stat_of C d)"
    "preserves (\<lambda>s. processes s = v) (crowfs_read C d b l off)"
    "preserves (\<lambda>s. processes s = v) (crowfs_write C d b l off)"
  using assms by (simp_all add: crowfs_apart_def)

lemma lock_apart:
  "preserves (\<lambda>s. processes s = v) (lock_inode i)" "preserves (\<lambda>s. processes s = v) (unlock_inode i)"
  "preserves (\<lambda>s. processes s = v) (klock inode_list_lock inode_list_lock_update)"
  "preserves (\<lambda>s. processes s = v) (kunlock inode_list_lock inode_list_lock_update)"
  by (auto simp: preserves_def lock_inode_def unlock_inode_def klock_def kunlock_def ilock_update_at_def set_inode_def
    split: outcome.splits)

lemma set_inode_apart: "preserves (\<lambda>s. processes s = v) (kmodify (set_inode i f))"
  by (rule preserves_kmodify) (simp add: set_inode_def)

lemma scan_apart: "preserves (\<lambda>s. processes s = v) (fs_open_scan k dn fr)"
proof (induction k arbitrary: fr)
  case 0
  show ?case unfolding fs_open_scan.simps by (rule preserving)
next
  case (Suc k)
  show ?case unfolding fs_open_scan.simps Let_def
    by (intro preserving lock_apart set_inode_apart Suc.IH)
qed

lemma fill_apart:
  assumes "crowfs_apart C"
  shows "preserves (\<lambda>s. processes s = v) (fill_inode C i dn parent)"
  unfolding fill_inode_def by (intro preserving set_inode_apart apart_ops [OF assms])

lemma fs_open_apart:
  assumes "crowfs_apart C"
  shows "preserves (\<lambda>s. processes s = v) (fs_open C path wd flags)"
proof -
  have "preserves (\<lambda>s. processes s = v) (table_section C dn parent)" for dn parent
  proof -
    have "preserves (\<lambda>s. processes s = v) (case (r, fr) of (None, Some i) \<Rightarrow> fill_inode C i dn parent | _ \<Rightarrow> kret inode)"
      for r fr inode by (cases r; cases fr) (simp_all only: prod.case option.case preserving fill_apart [OF assms])
    then show ?thesis unfolding table_section_def by (intro preserving scan_apart) simp
  qed
  then show ?thesis unfolding fs_open_eq by (intro preserving lock_apart apart_ops [OF assms])
qed

lemma fs_open_Ok:
  assumes "fs_ok s" and "crowfs_lawful C" and bound: "\<forall>i<MAX_INODES. unat (reference_count (inodes s i)) < 2 ^ 32 - 1"
    and run: "fs_open C path wd flags s = Ok (r, s')"
  shows "fs_ok s' \<and> processes s' = processes s \<and>
    (case r of None \<Rightarrow> inodes s' = inodes s | Some i \<Rightarrow> opened (inodes s) i (inodes s'))"
proof -
  have C: "crowfs_frame C" "\<And>dn. stats_file C dn" "crowfs_apart C" using assms(2) by (simp_all add: crowfs_lawful_def)
  obtain result dn parent s1 where o: "crowfs_open_relative C path (relative_dnode wd s) flags s = Ok ((result, dn, parent), s1)"
    using run unfolding fs_open_eq by (auto elim!: kbind_OkE)
  from fs_open_ok [OF assms(1) C(1) bound o C(2)] run
  have "fs_ok s'" "if result = CROWFS_OK C then table_step dn (inodes s) r (inodes s') else r = None \<and> inodes s' = inodes s"
    by auto
  moreover have "processes s' = processes s" using preservesD [OF fs_open_apart [OF C(3)] refl run] .
  ultimately show ?thesis by (auto simp: table_step_def split: option.splits if_splits)
qed

lemma free_fd_ok:
  "free_fd fs (of_nat k) \<noteq> -1 \<Longrightarrow> k + length fs \<le> MAX_OPEN_FILES \<Longrightarrow>
   \<exists>j<length fs. unat (free_fd fs (of_nat k)) = k + j \<and> fd_type (fs ! j) = FD_EMPTY"
proof (induction fs arbitrary: k)
  case (Cons f fs)
  show ?case
  proof (cases "fd_type f = FD_EMPTY")
    case True
    then show ?thesis using Cons.prems(2) by (auto simp: MAX_OPEN_FILES_def unat_of_nat intro!: exI [of _ 0])
  next
    case False
    then have "free_fd (f # fs) (of_nat k) = free_fd fs (of_nat (Suc k))" by (simp add: add.commute)
    then show ?thesis using Cons.IH [of "Suc k"] Cons.prems by (force intro: exI [of _ "Suc j" for j])
  qed
qed simp

lemma allocate_fd_Ok:
  assumes "my_process s = Some p" and "length (open_files (processes s p)) = MAX_OPEN_FILES"
    and "proc_allocate_fd s = Ok (fd, s')" and "fd \<noteq> -1"
  shows "s' = s \<and> unat fd < MAX_OPEN_FILES \<and> fd_type (open_files (processes s p) ! unat fd) = FD_EMPTY"
  using assms free_fd_ok [of "open_files (processes s p)" 0] by (auto simp: proc_allocate_fd_def)

lemma open_files_update_value:
  "open_files_update (\<lambda>fs. fs[fd := f (fs ! fd)]) p = p\<lparr>open_files := (open_files p)[fd := f (open_files p ! fd)]\<rparr>"
  by (cases p) simp

lemma set_file_simps [simp]:
  "processes (set_file p fd f s) = (processes s)(p := (processes s p)\<lparr>open_files := (open_files (processes s p))[fd := f (open_files (processes s p) ! fd)]\<rparr>)"
  "inodes (set_file p fd f s) = inodes s" "cpu (set_file p fd f s) = cpu s" "inode_list_lock (set_file p fd f s) = inode_list_lock s"
  "fs_ok (set_file p fd f s) = fs_ok s" "my_process (set_file p fd f s) = my_process s" "mem (set_file p fd f s) = mem s"
  by (simp_all add: set_file_def set_proc_def fs_ok_def my_process_def open_files_update_value)

lemma files_ok_frame:
  assumes "files_ok s" and "fs_ok s'" and "processes s' = processes s"
    and "\<And>i. i < MAX_INODES \<Longrightarrow> reference_count (inodes s' i) = reference_count (inodes s i)"
  shows "files_ok s'"
  using assms by (simp add: files_ok_def)

text \<open>One descriptor changes.\<close>

lemma files_ok_set_file:
  assumes "files_ok s" and "fs_ok s1" and "processes s1 = processes s" and "p < MAX_PROCESSES" and "fd < MAX_OPEN_FILES"
    and "typed_file (g (open_files (processes s p) ! fd))"
    and count: "\<And>i. i < MAX_INODES \<Longrightarrow>
      of_bool (points_to i (g (open_files (processes s p) ! fd))) + unat (reference_count (inodes s i)) \<le>
      of_bool (points_to i (open_files (processes s p) ! fd)) + unat (reference_count (inodes s1 i))"
  shows "files_ok (set_file p fd g s1)"
proof -
  let ?P = "processes s p" and ?f = "g (open_files (processes s p) ! fd)"
  have len: "length (open_files ?P) = MAX_OPEN_FILES" using files_okD(2) [OF assms(1,4)] by (simp add: typed_files_def)
  show ?thesis
  proof (rule files_ok_step [OF assms(1) _ assms(4)])
    show "processes (set_file p fd g s1) = (processes s)(p := ?P\<lparr>open_files := (open_files ?P)[fd := ?f]\<rparr>)"
      using assms(3) by simp
    show "typed_files (?P\<lparr>open_files := (open_files ?P)[fd := ?f]\<rparr>)"
      using files_okD(2) [OF assms(1,4)] assms(6) by (rule typed_file_update)
    show "holds i (?P\<lparr>open_files := (open_files ?P)[fd := ?f]\<rparr>) + unat (reference_count (inodes s i))
        \<le> holds i ?P + unat (reference_count (inodes (set_file p fd g s1) i))" if "i < MAX_INODES" for i
      using holds_file [of fd ?P i ?f] len assms(5) count [OF that] by simp
  qed (simp add: assms(2))
qed

lemma opened_count:
  "opened N i N' \<Longrightarrow> unat (reference_count (N' j)) = unat (reference_count (N j)) + of_bool (j = i)"
  by (cases "j = i") (auto simp: opened_def)

lemma file_open_keeps:
  assumes ok: "files_ok s" and C: "crowfs_lawful C" "\<forall>i<MAX_INODES. unat (reference_count (inodes s i)) < 2 ^ 32 - 1"
    and p: "my_process s = Some p" "p < MAX_PROCESSES" and run: "file_open C path flags s = Ok (r, s')"
  shows "files_ok s'"
proof -
  have len: "length (open_files (processes s p)) = MAX_OPEN_FILES" using files_okD(2) [OF ok p(2)] by (simp add: typed_files_def)
  obtain fd s0 where fd: "proc_allocate_fd s = Ok (fd, s0)" using p(1) by (auto simp: proc_allocate_fd_def)
  show ?thesis
  proof (cases "fd = -1")
    case True
    then show ?thesis using run fd p(1) ok by (auto simp: file_open_def proc_allocate_fd_def)
  next
    case False
    note a = allocate_fd_Ok [OF p(1) len fd False]
    let ?open = "fs_open C path (working_directory (processes s p)) (crowfs_flags C flags)"
    have eq: "file_open C path flags s = kbind ?open (\<lambda>inode. case inode of None \<Rightarrow> kret (-1)
        | Some i \<Rightarrow> kbind (kmodify (set_file p (unat fd) (\<lambda>_. opened_file flags i))) (\<lambda>_. kret fd)) s"
      unfolding file_open_def the_process_def using fd False a p(1) by simp
    obtain inode s1 where o: "?open s = Ok (inode, s1)"
      and rest: "case inode of None \<Rightarrow> s' = s1 | Some i \<Rightarrow> s' = set_file p (unat fd) (\<lambda>_. opened_file flags i) s1"
      using run unfolding eq by (rule kbind_OkE) (auto split: option.splits)
    have s1: "fs_ok s1" "processes s1 = processes s" "case inode of None \<Rightarrow> inodes s1 = inodes s | Some i \<Rightarrow> opened (inodes s) i (inodes s1)"
      using fs_open_Ok [OF files_okD(1) [OF ok] C o] by blast+
    show ?thesis
    proof (cases inode)
      case None
      have "files_ok s1" by (rule files_ok_frame [OF ok s1(1,2)]) (use s1(3) None in simp)
      then show ?thesis using rest None by simp
    next
      case (Some i)
      then have i: "opened (inodes s) i (inodes s1)" using s1(3) by simp
      then have "i < MAX_INODES" by (simp add: opened_def)
      have "files_ok (set_file p (unat fd) (\<lambda>_. opened_file flags i) s1)"
      proof (rule files_ok_set_file [OF ok s1(1,2) p(2)])
        show "unat fd < MAX_OPEN_FILES" using a by simp
        show "typed_file (opened_file flags i)" using \<open>i < MAX_INODES\<close> by (simp add: typed_file_def opened_file_def)
        show "of_bool (points_to j (opened_file flags i)) + unat (reference_count (inodes s j))
            \<le> of_bool (points_to j (open_files (processes s p) ! unat fd)) + unat (reference_count (inodes s1 j))" for j
          using opened_count [OF i, of j] by (cases "j = i") (simp_all add: points_to_def opened_file_def)
      qed
      then show ?thesis using rest Some by simp
    qed
  qed
qed

lemma fd_in_range: "\<not> sint fd < 0 \<Longrightarrow> \<not> int MAX_OPEN_FILES \<le> sint fd \<Longrightarrow> unat (fd :: u32) < MAX_OPEN_FILES"
proof -
  assume "\<not> sint fd < 0" "\<not> int MAX_OPEN_FILES \<le> sint fd"
  then have "uint fd < 16" using uint_lt2p [of fd] unfolding sint_u32 MAX_OPEN_FILES_def by (cases "uint fd < 2 ^ 31") simp_all
  then have "nat (uint fd) < 16" by linarith
  then show ?thesis by (simp only: MAX_OPEN_FILES_def unat_eq_nat_uint)
qed

lemma fd_signed:
  assumes "unat (fd :: u32) < MAX_OPEN_FILES"
  shows "\<not> sint fd < 0" "sint fd < int MAX_OPEN_FILES"
proof -
  have "int (unat fd) < int 16" using assms by (simp only: MAX_OPEN_FILES_def of_nat_less_iff)
  then have "uint fd < 16" by simp
  then show "\<not> sint fd < 0" "sint fd < int MAX_OPEN_FILES" by (simp_all add: sint_u32 MAX_OPEN_FILES_def)
qed

text \<open>A file on an inode, at the descriptor of a well-typed process.\<close>

lemma typed_inode:
  assumes "files_ok s" and "p < MAX_PROCESSES" and "fd < MAX_OPEN_FILES" and "fd_type (open_files (processes s p) ! fd) = FD_INODE"
  obtains i where "structures (open_files (processes s p) ! fd) = Inode (Some i)" "i < MAX_INODES" "in_use (inodes s i)"
    "points_to i (open_files (processes s p) ! fd)"
proof -
  let ?f = "open_files (processes s p) ! fd"
  have f: "?f \<in> set (open_files (processes s p))" "typed_file ?f"
    using files_okD(2) [OF assms(1,2)] assms(3) by (simp_all add: typed_files_def)
  then obtain i where "structures ?f = Inode (Some i)" using assms(4) by (auto simp: typed_file_def)
  then show ?thesis using that file_in_use [OF assms(1,2) f(1)] assms(4) by (simp add: points_to_def)
qed

lemma fs_close_counts:
  assumes "fs_ok s" and "i < MAX_INODES" and "in_use (inodes s i)"
  obtains s1 where "fs_close i s = Ok ((), s1)" "fs_ok s1" "processes s1 = processes s"
    "\<forall>j. unat (reference_count (inodes s1 j)) + of_bool (j = i) = unat (reference_count (inodes s j))"
proof -
  have c: "cpu_ok (cpu s)" "unat (depth (cpu s)) < 1000" "inodes_ok (inodes s)" "inode_list_lock s = unlocked_lock"
    using assms(1) by (simp_all add: fs_ok_def)
  let ?s1 = "(set_inode i drop_reference s)\<lparr>cpu := settled (cpu s)\<rparr>"
  have "reference_count (inodes s i) \<noteq> 0" using inodes_okD(2) [OF c(3) assms(2)] assms(3) by simp
  then have "unat (reference_count (inodes s i) - 1) + 1 = unat (reference_count (inodes s i))"
    by (metis Suc_eq_plus1 Suc_pred' unat_gt_0 unat_minus_one)
  then have "unat (reference_count (inodes ?s1 j)) + of_bool (j = i) = unat (reference_count (inodes s j))" for j
    by (auto simp: drop_reference_def Let_def)
  moreover have "fs_ok ?s1" using c closed_once [OF c(3) assms(2,3)] by (simp add: fs_ok_def)
  moreover have "processes ?s1 = processes s" by (simp add: set_inode_def)
  ultimately show ?thesis using that fs_close_eq [OF c(1) inodes_okD(1) [OF c(3) assms(2)]] by blast
qed

lemma sys_close_keeps:
  assumes ok: "files_ok s" and p: "my_process s = Some p" "p < MAX_PROCESSES" and run: "sys_close fd s = Ok (r, s')"
  shows "files_ok s'"
proof (cases "sint fd < 0 \<or> int MAX_OPEN_FILES \<le> sint fd \<or> fd_type (open_files (processes s p) ! unat fd) \<noteq> FD_INODE")
  case True
  then have "s' = s" using run p(1) by (auto simp: sys_close_def open_file_def the_process_def split: if_splits)
  then show ?thesis using ok by simp
next
  case False
  then have fd: "unat fd < MAX_OPEN_FILES" "\<not> sint fd < 0" "\<not> int MAX_OPEN_FILES \<le> sint fd"
    "fd_type (open_files (processes s p) ! unat fd) = FD_INODE"
    using fd_in_range [of fd] by auto
  obtain i where i: "structures (open_files (processes s p) ! unat fd) = Inode (Some i)" "i < MAX_INODES" "in_use (inodes s i)"
    "points_to i (open_files (processes s p) ! unat fd)" by (rule typed_inode [OF ok p(2) fd(1,4)])
  obtain s1 where s1: "fs_close i s = Ok ((), s1)" "fs_ok s1" "processes s1 = processes s"
    "\<forall>j. unat (reference_count (inodes s1 j)) + of_bool (j = i) = unat (reference_count (inodes s j))"
    by (rule fs_close_counts [OF files_okD(1) [OF ok] i(2,3)])
  have "s' = set_file p (unat fd) (\<lambda>_. closed_file) s1"
    using run p(1) fd i(1) s1(1) by (simp add: sys_close_def open_file_def the_process_def close_inode_def)
  moreover have "of_bool (points_to j closed_file) + unat (reference_count (inodes s j))
      \<le> of_bool (points_to j (open_files (processes s p) ! unat fd)) + unat (reference_count (inodes s1 j))" for j
    using s1(4) [rule_format, of j] i(4) by (cases "j = i") (simp_all add: points_to_def closed_file_def)
  ultimately show ?thesis
    using files_ok_set_file [OF ok s1(2,3) p(2) fd(1), of "\<lambda>_. closed_file"] by (simp add: typed_file_def closed_file_def)
qed

lemma sys_chdir_keeps:
  assumes ok: "files_ok s" and C: "crowfs_lawful C" "\<forall>i<MAX_INODES. unat (reference_count (inodes s i)) < 2 ^ 32 - 1"
    and p: "my_process s = Some p" "p < MAX_PROCESSES" and run: "sys_chdir C path s = Ok (r, s')"
  shows "files_ok s'"
proof -
  let ?P = "processes s p"
  let ?open = "fs_open C path (working_directory ?P) (CROWFS_O_DIR C)"
  have eq: "sys_chdir C path s = kbind ?open (\<lambda>new_chdir. case new_chdir of None \<Rightarrow> kret (-1) | Some n \<Rightarrow>
      kbind (case working_directory ?P of None \<Rightarrow> kundef | Some old \<Rightarrow> fs_close old) (\<lambda>_.
      kbind (kmodify (set_proc p (working_directory_update (\<lambda>_. Some n)))) (\<lambda>_. kret 0))) s"
    unfolding sys_chdir_def the_process_def using p(1) by simp
  obtain new s1 where o: "?open s = Ok (new, s1)"
    and rest: "case new of None \<Rightarrow> s' = s1 | Some n \<Rightarrow> (\<exists>old s2. working_directory ?P = Some old \<and> fs_close old s1 = Ok ((), s2) \<and>
      s' = set_proc p (working_directory_update (\<lambda>_. Some n)) s2)"
    using run unfolding eq by (rule kbind_OkE) (auto split: option.splits elim: kbind_OkE)
  have s1: "fs_ok s1" "processes s1 = processes s" "case new of None \<Rightarrow> inodes s1 = inodes s | Some i \<Rightarrow> opened (inodes s) i (inodes s1)"
    using fs_open_Ok [OF files_okD(1) [OF ok] C o] by blast+
  show ?thesis
  proof (cases new)
    case None
    have "files_ok s1" by (rule files_ok_frame [OF ok s1(1,2)]) (use s1(3) None in simp)
    then show ?thesis using rest None by simp
  next
    case (Some n)
    then have n: "opened (inodes s) n (inodes s1)" using s1(3) by simp
    obtain old s2 where wd: "working_directory ?P = Some old" and cl: "fs_close old s1 = Ok ((), s2)"
      and s': "s' = set_proc p (working_directory_update (\<lambda>_. Some n)) s2" using rest Some by auto
    have old: "old < MAX_INODES" "0 < holds old ?P"
      using files_okD(2) [OF ok p(2)] wd by (simp_all add: typed_files_def holds_def)
    have "in_use (inodes s1 old)"
      using inodes_okD(2) [of "inodes s1" old] opened_count [OF n, of old] held_in_use [OF ok p(2) old(2,1)] old(1) s1(1)
        inodes_okD(2) [of "inodes s" old] files_okD(1) [OF ok] by (auto simp: fs_ok_def unat_0_iff)
    then obtain s3 where "fs_close old s1 = Ok ((), s3)" "fs_ok s3" "processes s3 = processes s1"
      "\<forall>j. unat (reference_count (inodes s3 j)) + of_bool (j = old) = unat (reference_count (inodes s1 j))"
      using fs_close_counts [OF s1(1) old(1)] by metis
    then have s2: "fs_ok s2" "processes s2 = processes s"
      "\<And>j. unat (reference_count (inodes s2 j)) + of_bool (j = old) = unat (reference_count (inodes s1 j))"
      using cl s1(2) by simp_all
    show ?thesis
    proof (rule files_ok_step [OF ok _ p(2)])
      show "processes s' = (processes s)(p := ?P\<lparr>working_directory := Some n\<rparr>)" using s' s2(2) by simp
      show "fs_ok s'" using s' s2(1) by (simp add: set_proc_def fs_ok_def)
      show "typed_files (?P\<lparr>working_directory := Some n\<rparr>)"
        using files_okD(2) [OF ok p(2)] n by (simp add: typed_files_def opened_def)
      show "holds i (?P\<lparr>working_directory := Some n\<rparr>) + unat (reference_count (inodes s i))
          \<le> holds i ?P + unat (reference_count (inodes s' i))" for i
        using s2(3) [of i] opened_count [OF n, of i] wd s' by (cases "n = i"; cases "old = i") (simp_all add: holds_def set_proc_def)
    qed
  qed
qed

text \<open>Operations on the file behind a descriptor.\<close>

lemma inode_op_Ok:
  assumes "fs_ok s" and i: "i < MAX_INODES" and m: "keeps_inodes m" "preserves (\<lambda>s. processes s = processes s0) m" "processes s = processes s0"
    and op: "m (ilk.entered i s) = Ok (r, s2)"
    and g: "\<And>n. ilock (g n) = ilock n" "\<And>n. reference_count (g n) = reference_count n" "\<And>n. dnode (g n) = dnode n" "\<And>n. itype (g n) = itype n"
  obtains s3 where "unlock_inode i (set_inode i g s2) = Ok ((), s3)" "fs_ok s3" "processes s3 = processes s0"
    "\<forall>j. reference_count (inodes s3 j) = reference_count (inodes s j)"
proof -
  have c: "cpu_ok (cpu s)" "unat (depth (cpu s)) < 1000" "inodes_ok (inodes s)" "inode_list_lock s = unlocked_lock"
    using assms(1) by (simp_all add: fs_ok_def)
  let ?e = "ilk.entered i s"
  have e: "cpu ?e = save_and_disable_interrupts (cpu s)" "inodes ?e = (inodes s)(i := (inodes s i)\<lparr>ilock := held_lock (cpu s)\<rparr>)"
    "inode_list_lock ?e = inode_list_lock s" "processes ?e = processes s"
    by (simp_all add: ilk.entered_def ilock_update_at_def set_inode_def)
  have "inodes s2 = inodes ?e \<and> inode_list_lock s2 = inode_list_lock ?e \<and> (cpu_ok (cpu ?e) \<longrightarrow> cpu s2 = settled (cpu ?e))"
    using m(1) op unfolding keeps_inodes_def by blast
  then have s2: "inodes s2 = inodes ?e" "inode_list_lock s2 = unlocked_lock" "cpu s2 = cpu ?e" "processes s2 = processes s0"
    using cpu_ok_save [OF c(1,2)] settled_save [OF c(2)] e c(4) preservesD [OF m(2) _ op] m(3) by simp_all
  let ?s3 = "(ilock_update_at i (\<lambda>_. unlocked_lock) (set_inode i g s2))\<lparr>cpu := settled (cpu s)\<rparr>"
  have "unlock_inode i (set_inode i g s2) = Ok ((), ?s3)"
    unfolding unlock_inode_def by (rule ilk.unlock_entered [OF c(1)]) (simp_all add: s2 e g)
  moreover have in3: "inodes ?s3 = (inodes s)(i := (g ((inodes s i)\<lparr>ilock := held_lock (cpu s)\<rparr>))\<lparr>ilock := unlocked_lock\<rparr>)"
    by (simp add: s2 e ilock_update_at_def set_inode_def)
  moreover have "inodes_ok (inodes ?s3)"
    unfolding in3 by (rule inodes_ok_update [OF c(3)])
      (use inodes_okD(2) [OF c(3) i] inodes_okD(3) [OF c(3)] i in \<open>auto simp: g in_use_def\<close>)
  ultimately show ?thesis
    using that [of ?s3] c s2 g by (simp add: fs_ok_def ilock_update_at_def set_inode_def)
qed

lemma set_inode_id: "set_inode i (\<lambda>n. n) s = s"
  by (simp add: set_inode_def)

lemma fs_read_Ok:
  assumes "fs_ok s" and "i < MAX_INODES" and "crowfs_lawful C" and run: "fs_read C i buffer len off s = Ok (r, s')"
  shows "fs_ok s' \<and> processes s' = processes s \<and> (\<forall>j. reference_count (inodes s' j) = reference_count (inodes s j))"
proof -
  have c: "cpu_ok (cpu s)" "ilock (inodes s i) = unlocked_lock" using assms(1,2) inodes_okD(1) by (auto simp: fs_ok_def)
  let ?m = "crowfs_read C (dnode (inodes s i)) buffer len off"
  have lock: "lock_inode i s = Ok ((), ilk.entered i s)" "dnode (inodes (ilk.entered i s) i) = dnode (inodes s i)"
    unfolding lock_inode_def by (rule ilk.lock_free [OF c], simp add: ilk.entered_def ilock_update_at_def set_inode_def)
  obtain r2 s2 where op: "?m (ilk.entered i s) = Ok (r2, s2)" and un: "unlock_inode i s2 = Ok ((), s')"
    using run lock by (auto simp: fs_read_def elim!: kbind_OkE)
  have m: "keeps_inodes ?m" "preserves (\<lambda>t. processes t = processes s) ?m"
    using assms(3) by (simp_all add: crowfs_lawful_def crowfs_frame_def apart_ops)
  from inode_op_Ok [OF assms(1,2) m refl op, of "\<lambda>n. n"] obtain s3 where
    "unlock_inode i s2 = Ok ((), s3)" "fs_ok s3" "processes s3 = processes s" "\<forall>j. reference_count (inodes s3 j) = reference_count (inodes s j)"
    unfolding set_inode_id by metis
  then show ?thesis using un by simp
qed

lemma fs_write_Ok:
  assumes "fs_ok s" and "i < MAX_INODES" and "crowfs_lawful C" and run: "fs_write C i buffer len off s = Ok (r, s')"
  shows "fs_ok s' \<and> processes s' = processes s \<and> (\<forall>j. reference_count (inodes s' j) = reference_count (inodes s j))"
proof -
  have c: "cpu_ok (cpu s)" "ilock (inodes s i) = unlocked_lock" using assms(1,2) inodes_okD(1) by (auto simp: fs_ok_def)
  let ?m = "crowfs_write C (dnode (inodes s i)) buffer len off"
  let ?g = "\<lambda>r2 n. if r2 = CROWFS_OK C \<and> ucast (isize n) < off + len then n\<lparr>isize := ucast (off + len)\<rparr> else n"
  have lock: "lock_inode i s = Ok ((), ilk.entered i s)" "dnode (inodes (ilk.entered i s) i) = dnode (inodes s i)"
    unfolding lock_inode_def by (rule ilk.lock_free [OF c], simp add: ilk.entered_def ilock_update_at_def set_inode_def)
  obtain r2 s2 where op: "?m (ilk.entered i s) = Ok (r2, s2)" and un: "unlock_inode i (set_inode i (?g r2) s2) = Ok ((), s')"
    using run lock by (auto simp: fs_write_def set_inode_id elim!: kbind_OkE split: if_splits)
  have m: "keeps_inodes ?m" "preserves (\<lambda>t. processes t = processes s) ?m"
    using assms(3) by (simp_all add: crowfs_lawful_def crowfs_frame_def apart_ops)
  have g: "ilock (?g r2 n) = ilock n" "reference_count (?g r2 n) = reference_count n" "dnode (?g r2 n) = dnode n" "itype (?g r2 n) = itype n"
    for n by simp_all
  from inode_op_Ok [OF assms(1,2) m refl op, of "?g r2", OF g] obtain s3 where
    "unlock_inode i (set_inode i (?g r2) s2) = Ok ((), s3)" "fs_ok s3" "processes s3 = processes s"
    "\<forall>j. reference_count (inodes s3 j) = reference_count (inodes s j)"
    by blast
  then show ?thesis using un by simp
qed

text \<open>An offset is no reference.\<close>

lemma files_ok_offset:
  assumes "files_ok s" and "fs_ok s1" and "processes s1 = processes s"
    and "\<forall>i. reference_count (inodes s1 i) = reference_count (inodes s i)" and "p < MAX_PROCESSES" and "fd < MAX_OPEN_FILES"
  shows "files_ok (set_file p fd (\<lambda>f. f\<lparr>offset := h f\<rparr>) s1)"
proof (rule files_ok_set_file [OF assms(1-3,5,6)])
  have "typed_file (open_files (processes s p) ! fd)"
    using files_okD(2) [OF assms(1,5)] assms(6) by (simp add: typed_files_def)
  then show "typed_file ((open_files (processes s p) ! fd)\<lparr>offset := h (open_files (processes s p) ! fd)\<rparr>)"
    by (cases "fd_type (open_files (processes s p) ! fd)") (simp_all add: typed_file_def)
qed (simp add: points_to_def assms(4))

lemma checked_file_Ok:
  assumes ok: "files_ok s" and p: "my_process s = Some p" "p < MAX_PROCESSES" and run: "checked_file e1 e2 allowed fd body s = Ok (r, s')"
  obtains i where "unat fd < MAX_OPEN_FILES" "i < MAX_INODES" "body p (open_files (processes s p) ! unat fd) i s = Ok (r, s')"
proof -
  let ?f = "open_files (processes s p) ! unat fd"
  have fd: "\<not> (sint fd < 0 \<or> int MAX_OPEN_FILES \<le> sint fd)" "\<not> (\<not> allowed ?f \<or> fd_type ?f \<noteq> FD_INODE)"
    using run p(1) by (auto simp: checked_file_def split: if_splits)
  then have lt: "unat fd < MAX_OPEN_FILES" using fd_in_range [of fd] by simp
  obtain i where "structures ?f = Inode (Some i)" "i < MAX_INODES"
    using typed_inode [OF ok p(2) lt] fd(2) by metis
  then show ?thesis using that [OF lt] run p(1) fd by (simp add: checked_file_def)
qed

lemma file_seek_keeps:
  assumes "files_ok s" and "my_process s = Some p" "p < MAX_PROCESSES" and "file_seek fd off whence s = Ok (r, s')"
  shows "files_ok s'"
proof -
  have "s' = s \<or> unat fd < MAX_OPEN_FILES \<and> (\<exists>v. s' = set_file p (unat fd) (\<lambda>f. f\<lparr>offset := v\<rparr>) s)"
    using assms(4) unfolding file_seek_def
    by (rule checked_file_Ok [OF assms(1-3)]) (auto simp: Let_def split: option.splits)
  then show ?thesis
    using files_ok_offset [OF assms(1) files_okD(1) [OF assms(1)] refl _ assms(3)] assms(1) by auto
qed

lemma file_rw_keeps:
  assumes "files_ok s" and "crowfs_lawful C" and "my_process s = Some p" "p < MAX_PROCESSES"
    and "file_read C fd buffer len s = Ok (r, s') \<or> file_write C fd buffer len s = Ok (r, s')"
  shows "files_ok s'"
proof -
  have step: "files_ok s'"
    if "unat fd < MAX_OPEN_FILES" "fs_ok s1 \<and> processes s1 = processes s \<and> (\<forall>j. reference_count (inodes s1 j) = reference_count (inodes s j))"
      "(if sint r1 < 0 then kret r1 else advance_file p fd r1) s1 = Ok (r, s')" for r1 s1
    using that files_ok_offset [OF assms(1), of s1 p "unat fd" "\<lambda>f. offset f + r1"] files_ok_frame [OF assms(1), of s1] assms(4)
    by (auto simp: advance_file_def split: if_splits)
  from assms(5) show ?thesis
  proof
    assume "file_read C fd buffer len s = Ok (r, s')"
    then obtain i r1 s1 where fd: "unat fd < MAX_OPEN_FILES" and i: "i < MAX_INODES"
      and rd: "fs_read C i buffer len (ucast (offset (open_files (processes s p) ! unat fd))) s = Ok (r1, s1)"
      and rest: "(if sint r1 < 0 then kret r1 else advance_file p fd r1) s1 = Ok (r, s')"
      unfolding file_read_def by (rule checked_file_Ok [OF assms(1,3,4)]) (auto elim: kbind_OkE)
    from step [OF fd fs_read_Ok [OF files_okD(1) [OF assms(1)] i assms(2) rd] rest] show ?thesis .
  next
    assume "file_write C fd buffer len s = Ok (r, s')"
    then obtain i r1 s1 where fd: "unat fd < MAX_OPEN_FILES" and i: "i < MAX_INODES"
      and wr: "fs_write C i buffer len (ucast (offset (open_files (processes s p) ! unat fd))) s = Ok (r1, s1)"
      and rest: "(if sint r1 < 0 then kret r1 else advance_file p fd r1) s1 = Ok (r, s')"
      unfolding file_write_def by (rule checked_file_Ok [OF assms(1,3,4)]) (auto elim: kbind_OkE)
    from step [OF fd fs_write_Ok [OF files_okD(1) [OF assms(1)] i assms(2) wr] rest] show ?thesis .
  qed
qed

text \<open>\<open>name_is\<close> is the test \<open>strcmp (name, s) == 0\<close>, wherever the literal is stored.\<close>

lemma name_is_strcmp: "cstr m q xs \<Longrightarrow> strcmp name q m = Some 0 \<longleftrightarrow> name_is xs name m"
proof (induction xs arbitrary: name q)
  case Nil
  then have "m q = 0" by (simp add: cstr_def)
  then show ?case by (subst strcmp.simps) (auto simp: word_uint_eq_iff)
next
  case (Cons c cs)
  then have q: "m q = c" "c \<noteq> 0" "cstr m (q + 1) cs" by (auto simp: cstr_def ac_simps)
  show ?case using Cons.IH [OF q(3), of "name + 1"] q(1,2) by (subst strcmp.simps) (auto simp: word_uint_eq_iff)
qed

text \<open>\<open>readdir\<close> on the descriptor of a device, or on a closed one, stops the kernel.\<close>

lemma sys_readdir_panics:
  assumes "my_process s = Some p" and "unat fd < MAX_OPEN_FILES" and "fd_type (open_files (processes s p) ! unat fd) \<noteq> FD_INODE"
  shows "sys_readdir C fd buffer len s = Panic ''sys_readdir: fd''"
  using assms fd_signed [OF assms(2)] by (simp add: sys_readdir_def checked_file_def)

lemma small_number:
  assumes "\<not> sint n < 0" and "\<not> 3 \<le> sint n"
  shows "n = 0 \<or> n = 1 \<or> n = (2 :: u32)"
proof -
  have "uint n < 3" using assms uint_lt2p [of n] unfolding sint_u32 by (cases "uint n < 2 ^ 31") simp_all
  then have "uint n = 0 \<or> uint n = 1 \<or> uint n = 2" using uint_ge_0 [of n] by linarith
  then show ?thesis by (simp add: word_uint_eq_iff)
qed

lemma device_get_eq:
  "device_get n = (if n = 0 then Some (devices ! 0) else if n = 1 then Some (devices ! 1) else if n = 2 then Some (devices ! 2) else None)"
proof (cases "sint n < 0 \<or> 3 \<le> sint n")
  case True
  then have "n \<noteq> 0 \<and> n \<noteq> 1 \<and> n \<noteq> 2" by auto
  then show ?thesis using True by (auto simp: device_get_def devices_def)
next
  case False
  then show ?thesis using small_number [of n] by (auto simp: device_get_def devices_def)
qed

lemma device_scan_result:
  "device_scan 0 devices name m = -1 \<or> device_scan 0 devices name m = 0 \<or> device_scan 0 devices name m = 1 \<or> device_scan 0 devices name m = 2"
  by (simp add: devices_def)

lemma device_open_keeps:
  assumes ok: "files_ok s" and p: "my_process s = Some p" "p < MAX_PROCESSES" and run: "device_open name s = Ok (r, s')"
  shows "files_ok s'"
proof -
  have len: "length (open_files (processes s p)) = MAX_OPEN_FILES" using files_okD(2) [OF ok p(2)] by (simp add: typed_files_def)
  let ?D = "devices :: ('a, 'b, 'c, 'd, 'e) proc_state_scheme device list"
  define index where "index = device_scan 0 ?D name (mem s)"
  obtain fd s0 where fd: "proc_allocate_fd s = Ok (fd, s0)" using p(1) by (auto simp: proc_allocate_fd_def)
  show ?thesis
  proof (cases "index = -1 \<or> fd = -1")
    case True
    then have "s' = s"
      using run fd p(1) by (cases "index = -1") (auto simp: device_open_def device_index_def proc_allocate_fd_def simp flip: index_def)
    then show ?thesis using ok by simp
  next
    case False
    then have a: "s0 = s" "unat fd < MAX_OPEN_FILES" using allocate_fd_Ok [OF p(1) len fd] by simp_all
    let ?f = "\<lparr>fd_type = FD_DEVICE, structures = Device index, offset = 0,
      fd_readble = (dev_read (?D ! unat index) \<noteq> None), fd_writable = (dev_write (?D ! unat index) \<noteq> None)\<rparr>"
    have s': "s' = set_file p (unat fd) (\<lambda>_. ?f) s"
      using run fd False a p(1) by (auto simp: device_open_def device_index_def the_process_def Let_def simp flip: index_def)
    have "index = 0 \<or> index = 1 \<or> index = 2" using device_scan_result [of name "mem s"] False unfolding index_def by blast
    then have ty: "typed_file ?f" by (auto simp: typed_file_def devices_def)
    show ?thesis unfolding s'
      by (rule files_ok_set_file [OF ok files_okD(1) [OF ok] refl p(2) a(2) ty]) (simp add: points_to_def)
  qed
qed

section \<open>Properties\<close>

datatype file_call = FOpen u64 u32 | FClose u32 | FChdir u64 | FSeek u32 u64 u32 | FRead u32 u64 u64 | FWrite u32 u64 u64

definition run_file_call ::
  "('d, 'p, 'f, 'a, 'z) proc_state_scheme crowfs \<Rightarrow> file_call \<Rightarrow> (('d, 'p, 'f, 'a, 'z) proc_state_scheme, u32) kern" where
  "run_file_call C c = (case c of
     FOpen path flags \<Rightarrow> sys_open C path flags
   | FClose fd \<Rightarrow> sys_close fd
   | FChdir path \<Rightarrow> sys_chdir C path
   | FSeek fd off whence \<Rightarrow> sys_lseek fd off whence
   | FRead fd buffer len \<Rightarrow> file_read C fd buffer len
   | FWrite fd buffer len \<Rightarrow> file_write C fd buffer len)"

lemma open_file_eq:
  assumes "my_process s = Some p" and "unat fd < MAX_OPEN_FILES"
  shows "open_file fd body s = body p (if fd_type (open_files (processes s p) ! unat fd) = FD_EMPTY then None
    else Some (open_files (processes s p) ! unat fd)) s"
  using assms fd_signed [OF assms(2)] by (simp add: open_file_def the_process_def)

lemma sys_lseek_cases:
  assumes "my_process s = Some p" and "sys_lseek fd off whence s = Ok (r, s')"
  shows "s' = s \<or> file_seek fd off whence s = Ok (r, s')"
  using assms
  by (auto simp: sys_lseek_def open_file_def the_process_def file_device_def device_get_eq devices_def
    split: if_splits fd_structures.splits)


text \<open>One process with a file of 42 bytes, open for reading and writing at descriptor 0.\<close>

definition file_process :: process where
  "file_process = unused_process\<lparr>pid := 1, pstate := RUNNING, open_files := opened_file O_RDWR 3 # replicate 15 closed_file\<rparr>"

definition files_machine :: "(unit, u64, unit, u32 \<times> (u32 \<Rightarrow> u32)) proc_state" where
  "files_machine = input_machine\<lparr>cpu := boot_cpu\<lparr>running_process := Some 0\<rparr>, inode_list_lock := unlocked_lock,
     inodes := (\<lambda>_. empty_inode)(3 := empty_inode\<lparr>itype := INODE_FILE, dnode := 5, isize := 42, reference_count := 1\<rparr>),
     processes := (\<lambda>_. unused_process\<lparr>open_files := replicate 16 closed_file\<rparr>)(0 := file_process)\<rparr>"

lemma one_file_lawful: "crowfs_lawful one_file"
  using one_file_frame one_file_stats by (auto simp: crowfs_lawful_def crowfs_apart_def preserves_def one_file_def)

lemma files_machine_ok: "files_ok files_machine"
proof -
  have "holders (processes files_machine) i = of_bool (i = 3)" for i
    using holders_update [of 0 "\<lambda>_. unused_process\<lparr>open_files := replicate 16 closed_file\<rparr>" file_process i]
    by (simp add: files_machine_def holders_def holds_def points_to_def file_process_def opened_file_def closed_file_def
      unused_process_def MAX_PROCESSES_def)
  moreover have "fs_ok files_machine"
    by (simp add: files_machine_def fs_ok_def inodes_ok_def empty_inode_def in_use_def boot_cpu_def cpu_ok_def)
  ultimately show ?thesis
    by (auto simp: files_ok_def files_machine_def typed_files_def typed_file_def file_process_def opened_file_def closed_file_def
      unused_process_def MAX_OPEN_FILES_def MAX_INODES_def)
qed

lemma files_machine_running: "my_process files_machine = Some 0" "(0 :: nat) < MAX_PROCESSES"
  by (simp_all add: my_process_def files_machine_def MAX_PROCESSES_def)


text \<open>
  C29. A well-typed descriptor of a device always reaches a function: a read that the descriptor allows
  is a read of the serial port, blocking or not; a write that it allows goes to the serial port or the
  frame buffer; control commands are for the frame buffer only, and no device can seek.
\<close>

theorem device_calls_dispatch:
  assumes "files_ok s" and "my_process s = Some p" and "p < MAX_PROCESSES" and "unat fd < MAX_OPEN_FILES"
    and dev: "fd_type (open_files (processes s p) ! unat fd) = FD_DEVICE" "structures (open_files (processes s p) ! unat fd) = Device n"
  shows "sys_read C fd buffer len s =
      (if fd_readble (open_files (processes s p) ! unat fd) then (if n = 0 then serial_read buffer len s else serial_read_async buffer len s)
       else Ok (Return (-1), s)) \<and>
    sys_write C fd buffer len s =
      (if fd_writable (open_files (processes s p) ! unat fd) then (if n = 2 then fb_write buffer len s else serial_write buffer len s)
       else Ok (-1, s)) \<and>
    sys_ioctl fd command data s = (if n = 2 then fb_control command data s else Ok (-1, s)) \<and>
    sys_lseek fd off whence s = Ok (-1, s)"
proof -
  let ?f = "open_files (processes s p) ! unat fd"
  have "typed_file ?f" using files_okD(2) [OF assms(1,3)] assms(4) by (simp add: typed_files_def)
  then have n: "n = 0 \<or> n = 1 \<or> n = 2" "fd_readble ?f \<longrightarrow> n \<noteq> 2" using dev by (auto simp: typed_file_def)
  note fd = fd_signed [OF assms(4)]
  note open_eq = open_file_eq [OF assms(2,4), unfolded dev(1)]
  note defs = file_device_def device_get_eq devices_def
  have "sys_read C fd buffer len s =
      (if fd_readble ?f then (if n = 0 then serial_read buffer len s else serial_read_async buffer len s) else Ok (Return (-1), s))"
    unfolding sys_read_def open_eq using n dev by (elim disjE) (simp_all add: defs)
  moreover have "sys_write C fd buffer len s =
      (if fd_writable ?f then (if n = 2 then fb_write buffer len s else serial_write buffer len s) else Ok (-1, s))"
    unfolding sys_write_def open_eq using n dev by (elim disjE) (simp_all add: defs)
  moreover have "sys_ioctl fd command data s = (if n = 2 then fb_control command data s else Ok (-1, s))"
    unfolding sys_ioctl_def open_eq using n dev by (elim disjE) (simp_all add: defs)
  moreover have "sys_lseek fd off whence s = Ok (-1, s)"
    unfolding sys_lseek_def open_eq using n dev by (elim disjE) (simp_all add: defs)
  ultimately show ?thesis by blast
qed

text \<open>The same process with the frame buffer open at descriptor 1.\<close>

definition device_machine :: "(unit, u64, unit, u32 \<times> (u32 \<Rightarrow> u32)) proc_state" where
  "device_machine = set_file 0 1 (\<lambda>_. \<lparr>fd_type = FD_DEVICE, structures = Device 2, offset = 0,
     fd_readble = False, fd_writable = True\<rparr>) files_machine"

lemma device_machine_ok: "files_ok device_machine"
  unfolding device_machine_def
  by (rule files_ok_set_file [OF files_machine_ok files_okD(1) [OF files_machine_ok] refl])
    (simp_all add: MAX_PROCESSES_def MAX_OPEN_FILES_def typed_file_def points_to_def)

lemma device_machine_file:
  "open_files (processes device_machine 0) ! 1 =
     \<lparr>fd_type = FD_DEVICE, structures = Device 2, offset = 0, fd_readble = False, fd_writable = True\<rparr>"
  "my_process device_machine = Some 0"
  using files_machine_running by (simp_all add: device_machine_def files_machine_def file_process_def)

theorem device_calls_dispatch_witness:
  "sys_read one_file 1 0 8 device_machine = Ok (Return (-1), device_machine) \<and>
   sys_write one_file 1 0 8 device_machine = fb_write 0 8 device_machine"
  using device_calls_dispatch [OF device_machine_ok, of 0 1 2 one_file 0 8] device_machine_file
  by (simp add: MAX_PROCESSES_def MAX_OPEN_FILES_def)

text \<open>The position a seek asks for, as an integer. \<open>SEEK_END\<close> counts backwards.\<close>

definition seek_goal :: "u32 \<Rightarrow> int \<Rightarrow> int \<Rightarrow> int \<Rightarrow> int" where
  "seek_goal whence sz current off =
     (if whence = SEEK_SET then off else if whence = SEEK_CUR then current + off else sz - off)"

lemma uint_sint_mod: "uint (x :: u64) mod 2 ^ 32 = sint x mod 2 ^ 32"
proof -
  have "(uint x - 2 ^ 64) mod 2 ^ 32 = uint x mod 2 ^ 32"
    using mod_mult_self1 [of "uint x" "- (2 ^ 32)" "2 ^ 32"] by simp
  then show ?thesis unfolding sint_u64 by simp
qed

lemma seek_target_goal:
  assumes "whence = SEEK_SET \<or> whence = SEEK_CUR \<or> whence = SEEK_END"
  obtains t where "seek_target sz off whence cur = Some t"
    "uint t = seek_goal whence (uint sz) (uint cur) (sint off) mod 2 ^ 32"
proof -
  have m: "uint (ucast x :: u32) = uint x mod 2 ^ 32" for x :: u64 by (simp add: unsigned_ucast_eq take_bit_eq_mod)
  have c: "uint (ucast cur :: u64) = uint cur"
    using uint_lt2p [of cur] by (simp add: unsigned_ucast_eq take_bit_int_eq_self_iff)
  have "uint (ucast off :: u32) = sint off mod 2 ^ 32" by (simp only: m uint_sint_mod)
  moreover have "uint (ucast (ucast cur + off) :: u32) = (uint cur + sint off) mod 2 ^ 32"
  proof -
    have "uint (ucast (ucast cur + off) :: u32) = (uint cur + uint off) mod 2 ^ 64 mod 2 ^ 32"
      unfolding m by (simp only: uint_word_ariths c) simp
    also have "\<dots> = (uint cur + uint off) mod 2 ^ 32" by (rule mod_mod_cancel) simp
    also have "\<dots> = (uint cur + sint off) mod 2 ^ 32" using uint_sint_mod [of off] by (metis mod_add_right_eq)
    finally show ?thesis .
  qed
  moreover have "uint (sz - ucast off) = (uint sz - sint off) mod 2 ^ 32"
  proof -
    have "uint (sz - ucast off) = (uint sz - uint off mod 2 ^ 32) mod 2 ^ 32"
      by (simp only: uint_word_ariths m) simp
    also have "\<dots> = (uint sz - sint off) mod 2 ^ 32" using uint_sint_mod [of off] by (metis mod_diff_right_eq)
    finally show ?thesis .
  qed
  ultimately show ?thesis using that assms by (auto simp: seek_target_def seek_goal_def seek_modes)
qed

text \<open>
  C30. \<open>lseek\<close> on an open file moves its offset to the requested position, taken modulo 2 to the power of
  32 and cut off at the size of the file, returns it, and changes nothing else. A position before the
  start of the file therefore wraps around and ends at the end of the file.
\<close>

theorem lseek_position:
  assumes "files_ok s" and "my_process s = Some p" and "p < MAX_PROCESSES" and "unat fd < MAX_OPEN_FILES"
    and f: "points_to i (open_files (processes s p) ! unat fd)" and "whence = SEEK_SET \<or> whence = SEEK_CUR \<or> whence = SEEK_END"
  shows "\<exists>r. sys_lseek fd off whence s = Ok (r, set_file p (unat fd) (offset_update (\<lambda>_. r)) s) \<and>
    uint r = min (uint (isize (inodes s i)))
      (seek_goal whence (uint (isize (inodes s i))) (uint (offset (open_files (processes s p) ! unat fd))) (sint off) mod 2 ^ 32)"
proof -
  let ?f = "open_files (processes s p) ! unat fd"
  have t: "fd_type ?f = FD_INODE" "structures ?f = Inode (Some i)" using f by (simp_all add: points_to_def)
  obtain t where goal: "seek_target (isize (inodes s i)) off whence (offset ?f) = Some t"
    "uint t = seek_goal whence (uint (isize (inodes s i))) (uint (offset ?f)) (sint off) mod 2 ^ 32"
    by (rule seek_target_goal [OF assms(6)])
  let ?r = "if isize (inodes s i) < t then isize (inodes s i) else t"
  have "sys_lseek fd off whence s = file_seek fd off whence s"
    unfolding sys_lseek_def open_file_eq [OF assms(2,4)] by (simp add: t(1))
  also have "\<dots> = Ok (?r, set_file p (unat fd) (offset_update (\<lambda>_. ?r)) s)"
    using assms(2) fd_signed [OF assms(4)] t goal(1) by (simp add: file_seek_def checked_file_def Let_def)
  finally show ?thesis using goal(2) by (auto simp: word_less_def)
qed

theorem lseek_position_witness:
  "\<exists>r. sys_lseek 0 (-1) SEEK_CUR files_machine = Ok (r, set_file 0 0 (offset_update (\<lambda>_. r)) files_machine) \<and> uint r = 42"
proof -
  have "points_to 3 (open_files (processes files_machine 0) ! unat (0 :: u32))"
    by (simp add: points_to_def files_machine_def file_process_def opened_file_def)
  moreover have "offset (open_files (processes files_machine 0) ! 0) = 0" "isize (inodes files_machine 3) = 42"
    by (simp_all add: files_machine_def file_process_def opened_file_def)
  ultimately show ?thesis
    using lseek_position [OF files_machine_ok files_machine_running, of 0 3 SEEK_CUR "-1"]
    by (simp add: MAX_OPEN_FILES_def seek_goal_def seek_modes)
qed



end
