(* ===== verification/Exec.thy ===== *)
theory Exec
  imports Files
begin

text \<open>
  Starting programs, \<^verbatim>\<open>src/kernel/userspace/exec.c\<close> with \<open>scheduler_init\<close> of
  \<^verbatim>\<open>src/kernel/userspace/proc.c\<close>, and the dispatch of system calls in
  \<^verbatim>\<open>src/kernel/userspace/syscall.c\<close>. Local variables whose address the code takes are in a
  stack frame; its address, the addresses of the string literals and of the code that is written in
  assembly are the parameters in \<open>kernel_image\<close>.
\<close>

section \<open>ELF files\<close>

definition ELF_MAGIC :: u32 where
  "ELF_MAGIC = 0x464C457F"

record ElfHeader =
  magic :: u32
  elf_ident :: "u8 list"
  elf_type :: u16
  machine :: u16
  elf_version :: u32
  entry :: u64
  phoff :: u64
  shoff :: u64
  elf_flags :: u32
  ehsize :: u16
  phentsize :: u16
  phnum :: u16
  shentsize :: u16
  shnum :: u16
  shstrndx :: u16

record ProgramHeader =
  ph_type :: u32
  ph_flags :: u32
  ph_off :: u64
  ph_vaddr :: u64
  ph_paddr :: u64
  ph_filesz :: u64
  ph_memsz :: u64
  ph_align :: u64

text \<open>The structures at an address, of 64 and 56 bytes.\<close>

definition sizeof_ElfHeader :: u64 where "sizeof_ElfHeader = 64"
definition sizeof_ProgramHeader :: u64 where "sizeof_ProgramHeader = 56"

definition elf_header_at :: "mem \<Rightarrow> u64 \<Rightarrow> ElfHeader" where
  "elf_header_at m a = \<lparr>magic = load32 m a, elf_ident = load_bytes 12 m (a + 4), elf_type = load16 m (a + 16),
     machine = load16 m (a + 18), elf_version = load32 m (a + 20), entry = load64 m (a + 24), phoff = load64 m (a + 32),
     shoff = load64 m (a + 40), elf_flags = load32 m (a + 48), ehsize = load16 m (a + 52), phentsize = load16 m (a + 54),
     phnum = load16 m (a + 56), shentsize = load16 m (a + 58), shnum = load16 m (a + 60), shstrndx = load16 m (a + 62)\<rparr>"

definition program_header_at :: "mem \<Rightarrow> u64 \<Rightarrow> ProgramHeader" where
  "program_header_at m a = \<lparr>ph_type = load32 m a, ph_flags = load32 m (a + 4), ph_off = load64 m (a + 8),
     ph_vaddr = load64 m (a + 16), ph_paddr = load64 m (a + 24), ph_filesz = load64 m (a + 32),
     ph_memsz = load64 m (a + 40), ph_align = load64 m (a + 48)\<rparr>"

definition ELF_PROG_LOAD :: u32 where
  "ELF_PROG_LOAD = 1"

definition flags2perm :: "u32 \<Rightarrow> pte_permissions" where
  "flags2perm flags = \<lparr>writable = (flags AND 2 \<noteq> 0), executable = (flags AND 1 \<noteq> 0), userspace = True\<rparr>"

partial_function (option) load_segment_loop ::
  "('d, 'p, 'f, 'a, 'z) proc_state_scheme crowfs \<Rightarrow> u64 \<Rightarrow> nat \<Rightarrow> u64 \<Rightarrow> u32 \<Rightarrow> u32 \<Rightarrow> u32 \<Rightarrow>
   ('d, 'p, 'f, 'a, 'z) proc_state_scheme \<Rightarrow> (u32 \<times> ('d, 'p, 'f, 'a, 'z) proc_state_scheme) outcome option" where
  "load_segment_loop C pt ip va off sz i s =
     (if i < sz
      then (case vmm_walkaddr pt (va + ucast i) True s of
              Ok (physical_address, s1) \<Rightarrow>
                if physical_address = 0 then Some (Panic ''load_segment: address should exist'')
                else let n = (if ucast (sz - i) < PAGE_SIZE then ucast (sz - i) else PAGE_SIZE) in
                     (case fs_read C ip (P2V s1 physical_address) n (ucast (off + i)) s1 of
                        Ok (r, s2) \<Rightarrow> if r \<noteq> ucast n then Some (Ok (-1, s2))
                                     else load_segment_loop C pt ip va off sz (i + ucast PAGE_SIZE) s2
                      | Panic e \<Rightarrow> Some (Panic e) | Hang \<Rightarrow> Some Hang | Undef \<Rightarrow> Some Undef)
            | Panic e \<Rightarrow> Some (Panic e) | Hang \<Rightarrow> Some Hang | Undef \<Rightarrow> Some Undef)
      else Some (Ok (0, s)))"

definition load_segment ::
  "('d, 'p, 'f, 'a, 'z) proc_state_scheme crowfs \<Rightarrow> u64 \<Rightarrow> nat \<Rightarrow> u64 \<Rightarrow> u32 \<Rightarrow> u32 \<Rightarrow> (('d, 'p, 'f, 'a, 'z) proc_state_scheme, u32) kern" where
  "load_segment C pt ip va off sz = lift_loop (load_segment_loop C pt ip va off sz 0)"

section \<open>A new process\<close>

definition MAX_ARGV :: nat where
  "MAX_ARGV = 32"

record kernel_image =
  stack_frame :: u64
  jump_to_ring3 :: u64
  slash_literal :: u64
  serial_literal :: u64
  init_literal :: u64
  init_args :: u64
  syscall_handler_asm :: u64

text \<open>Where the frame of \<open>proc_exec\<close> keeps its structures.\<close>

definition elf_of :: "kernel_image \<Rightarrow> u64" where "elf_of K = stack_frame K"
definition ph_of :: "kernel_image \<Rightarrow> u64" where "ph_of K = stack_frame K + 64"
definition zero_of :: "kernel_image \<Rightarrow> u64" where "zero_of K = stack_frame K + 120"
definition argument_pointers_of :: "kernel_image \<Rightarrow> u64" where "argument_pointers_of K = stack_frame K + 128"
definition context_of :: "kernel_image \<Rightarrow> u64" where "context_of K = stack_frame K + 384"

definition exec_bad :: "nat option \<Rightarrow> nat option \<Rightarrow> (('d, 'p, 'f, 'a, 'z) proc_state_scheme, u64) kern" where
  "exec_bad proc_inode proc =
     kbind (case proc_inode of None \<Rightarrow> kret () | Some i \<Rightarrow> fs_close i) (\<lambda>_.
     kbind (case proc of None \<Rightarrow> kret () | Some p \<Rightarrow>
              kbind (kgets (\<lambda>s. pagetable (processes s p))) (\<lambda>pt.
              kbind (vmm_user_pagetable_free pt) (\<lambda>_.
              kmodify (set_proc p (\<lambda>q. q\<lparr>pstate := UNUSED, pid := 0\<rparr>))))) (\<lambda>_.
     kret (-1)))"

text \<open>The loop over the program headers; \<open>False\<close> is the jump to \<open>bad\<close>.\<close>

primrec load_segments ::
  "nat \<Rightarrow> kernel_image \<Rightarrow> ('d, 'p, 'f, 'a, 'z) proc_state_scheme crowfs \<Rightarrow> nat \<Rightarrow> nat \<Rightarrow> u64 \<Rightarrow>
   (('d, 'p, 'f, 'a, 'z) proc_state_scheme, bool) kern" where
  "load_segments 0 K C p ip off = kret True"
| "load_segments (Suc k) K C p ip off =
     kbind (fs_read C ip (ph_of K) sizeof_ProgramHeader off) (\<lambda>r.
     if r \<noteq> ucast sizeof_ProgramHeader then kret False else
     kbind (kgets (\<lambda>s. program_header_at (mem s) (ph_of K))) (\<lambda>ph.
     if ph_type ph \<noteq> ELF_PROG_LOAD then load_segments k K C p ip (off + sizeof_ProgramHeader)
     else if ph_memsz ph < ph_filesz ph then kret False
     else if ph_vaddr ph + ph_memsz ph < ph_vaddr ph then kret False
     else if ph_vaddr ph mod PAGE_SIZE \<noteq> 0 then kret False
     else
       kbind (kgets (\<lambda>s. pagetable (processes s p))) (\<lambda>pt.
       kbind (vmm_allocate pt (ph_vaddr ph) (PAGE_ROUND_UP (ph_memsz ph)) (flags2perm (ph_flags ph)) False) (\<lambda>r.
       if r = -1 then kret False else
       kbind (load_segment C pt ip (ph_vaddr ph) (ucast (ph_off ph)) (ucast (ph_filesz ph))) (\<lambda>r.
       if sint r < 0 then kret False else
       kbind (kmodify (set_proc p (initial_data_segment_update
         (\<lambda>d. max d (ph_vaddr ph + PAGE_ROUND_UP (ph_memsz ph)))))) (\<lambda>_.
       load_segments k K C p ip (off + sizeof_ProgramHeader)))))))"

text \<open>
  The strings of the arguments, from the top of the user stack downwards, with their addresses in the
  array \<open>argument_pointers\<close>; the result is \<open>argc\<close> and \<open>rsp\<close>. The results of \<open>vmm_memcpy\<close> are ignored.
\<close>

primrec push_arguments ::
  "nat \<Rightarrow> kernel_image \<Rightarrow> nat \<Rightarrow> u64 \<Rightarrow> u64 \<Rightarrow> (('d, 'p, 'f, 'a, 'z) proc_state_scheme, nat \<times> u64) kern" where
  "push_arguments 0 K p args rsp = kret (MAX_ARGV, rsp)"
| "push_arguments (Suc k) K p args rsp =
     (let argc = MAX_ARGV - Suc k in
      kbind (kgets (\<lambda>s. load64 (mem s) (args + 8 * of_nat argc))) (\<lambda>arg.
      if arg = 0 then kret (argc, rsp) else
      kbind (kgets (\<lambda>s. strlen arg (mem s))) (\<lambda>l.
      case l of None \<Rightarrow> khang | Some argument_length \<Rightarrow>
      let rsp = rsp - (argument_length + 1) in
      kbind (kgets (\<lambda>s. pagetable (processes s p))) (\<lambda>pt.
      kbind (vmm_memcpy pt rsp arg (argument_length + 1) True) (\<lambda>_.
      kbind (set_mem (\<lambda>m. store64 m (argument_pointers_of K + 8 * of_nat argc) rsp)) (\<lambda>_.
      push_arguments k K p args rsp))))))"

primrec push_pointers ::
  "nat \<Rightarrow> kernel_image \<Rightarrow> nat \<Rightarrow> u64 \<Rightarrow> (('d, 'p, 'f, 'a, 'z) proc_state_scheme, u64) kern" where
  "push_pointers 0 K p rsp = kret rsp"
| "push_pointers (Suc i) K p rsp =
     (let rsp = rsp - 8 in
      kbind (kgets (\<lambda>s. pagetable (processes s p))) (\<lambda>pt.
      kbind (vmm_memcpy pt rsp (argument_pointers_of K + 8 * of_nat i) 8 True) (\<lambda>_.
      push_pointers i K p rsp)))"

definition sizeof_process_context :: u64 where "sizeof_process_context = 56"

definition put_context :: "u64 \<Rightarrow> u64 \<Rightarrow> u64 \<Rightarrow> u64 \<Rightarrow> u64 \<Rightarrow> u64 \<Rightarrow> mem \<Rightarrow> mem" where
  "put_context a r15 r14 r13 r12 return_address m =
     store_bytes m a (concat (map (bytes_of_word 8) [r15, r14, r13, r12, 0, 0, return_address]))"

definition initial_stack_pointer :: u64 where
  "initial_stack_pointer = INTSTACK_VIRTUAL_ADDRESS_TOP - sizeof_process_context"

definition align_stack :: "u64 \<Rightarrow> u64" where
  "align_stack rsp = rsp - (rsp mod 16 + 8)"

definition push_stack ::
  "kernel_image \<Rightarrow> nat \<Rightarrow> u64 \<Rightarrow> u64 \<Rightarrow> (('d, 'p, 'f, 'a, 'z) proc_state_scheme, unit) kern" where
  "push_stack K p args entry_point =
     kbind (set_mem (memset (argument_pointers_of K) 0 (8 * of_nat MAX_ARGV))) (\<lambda>_.
     kbind (if args \<noteq> 0 then push_arguments MAX_ARGV K p args USER_STACK_TOP else kret (0, USER_STACK_TOP)) (\<lambda>(argc, rsp).
     let rsp = rsp - 8 in
     kbind (set_mem (\<lambda>m. store64 m (zero_of K) 0)) (\<lambda>_.
     kbind (kgets (\<lambda>s. pagetable (processes s p))) (\<lambda>pt.
     kbind (vmm_memcpy pt rsp (zero_of K) 8 True) (\<lambda>_.
     kbind (push_pointers argc K p rsp) (\<lambda>argv.
     kbind (set_mem (put_context (context_of K) entry_point (align_stack argv) argv (of_nat argc) (jump_to_ring3 K))) (\<lambda>_.
     kbind (vmm_memcpy pt initial_stack_pointer (context_of K) sizeof_process_context False) (\<lambda>_.
     kmodify (set_proc p (resume_stack_pointer_update (\<lambda>_. StackAt initial_stack_pointer)))))))))))"

definition standard_file :: "u32 \<Rightarrow> bool \<Rightarrow> process_file" where
  "standard_file device input = \<lparr>fd_type = FD_DEVICE, structures = Device device, offset = 0,
     fd_readble = input, fd_writable = (\<not> input)\<rparr>"

definition open_standard_files :: "kernel_image \<Rightarrow> nat \<Rightarrow> (('d, 'p, 'f, 'a, 'z) proc_state_scheme, unit) kern" where
  "open_standard_files K p =
     kbind (device_index (serial_literal K)) (\<lambda>serial.
     kbind (kassert (serial \<noteq> -1) ''exec: no serial'') (\<lambda>_.
     kbind (kmodify (set_file p 0 (\<lambda>_. standard_file serial True))) (\<lambda>_.
     kbind (kmodify (set_file p 1 (\<lambda>_. standard_file serial False))) (\<lambda>_.
     kmodify (set_file p 2 (\<lambda>_. standard_file serial False))))))"

definition finish_exec ::
  "kernel_image \<Rightarrow> ('d, 'p, 'f, 'a, 'z) proc_state_scheme crowfs \<Rightarrow> nat \<Rightarrow> nat \<Rightarrow> nat option \<Rightarrow>
   (('d, 'p, 'f, 'a, 'z) proc_state_scheme, u64) kern" where
  "finish_exec K C p ip wd =
     kbind (kmodify (set_proc p (\<lambda>q. q\<lparr>initial_data_segment := PAGE_ROUND_UP (initial_data_segment q),
       current_sbrk := PAGE_ROUND_UP (initial_data_segment q)\<rparr>))) (\<lambda>_.
     kbind (fs_close ip) (\<lambda>_.
     kbind (case wd of None \<Rightarrow> fs_open C (slash_literal K) None (CROWFS_O_DIR C)
                     | Some w \<Rightarrow> kbind (fs_dup w) (\<lambda>_. kret (Some w))) (\<lambda>wd.
     case wd of None \<Rightarrow> kpanic ''exec: NULL working directory'' | Some w \<Rightarrow>
     kbind (kmodify (set_proc p (\<lambda>q. q\<lparr>working_directory := Some w, pstate := RUNNABLE\<rparr>))) (\<lambda>_.
     kgets (\<lambda>s. pid (processes s p))))))"

definition proc_exec ::
  "kernel_image \<Rightarrow> ('d, 'p, 'f, 'a, 'z) proc_state_scheme crowfs \<Rightarrow> u64 \<Rightarrow> u64 \<Rightarrow> nat option \<Rightarrow>
   (('d, 'p, 'f, 'a, 'z) proc_state_scheme, u64) kern" where
  "proc_exec K C path args wd =
     kbind (fs_open C path wd 0) (\<lambda>proc_inode.
     case proc_inode of None \<Rightarrow> exec_bad None None | Some ip \<Rightarrow>
     kbind (fs_read C ip (elf_of K) sizeof_ElfHeader 0) (\<lambda>r.
     if r \<noteq> ucast sizeof_ElfHeader then exec_bad (Some ip) None else
     kbind (kgets (\<lambda>s. elf_header_at (mem s) (elf_of K))) (\<lambda>elf.
     if magic elf \<noteq> ELF_MAGIC then exec_bad (Some ip) None else
     kbind proc_allocate (\<lambda>proc.
     case proc of None \<Rightarrow> exec_bad (Some ip) None | Some p \<Rightarrow>
     kbind (load_segments (unat (phnum elf)) K C p ip (phoff elf)) (\<lambda>loaded.
     if \<not> loaded then exec_bad (Some ip) (Some p) else
     kbind (push_stack K p args (entry elf)) (\<lambda>_.
     kbind (open_standard_files K p) (\<lambda>_.
     finish_exec K C p ip wd)))))))"

definition scheduler_init ::
  "kernel_image \<Rightarrow> ('d, 'p, 'f, 'a, 'z) proc_state_scheme crowfs \<Rightarrow> (('d, 'p, 'f, 'a, 'z) proc_state_scheme, unit) kern" where
  "scheduler_init K C =
     kbind (proc_exec K C (init_literal K) (init_args K) None) (\<lambda>r.
     kbind (kassert (r \<noteq> -1) ''cannot create /init process'') (\<lambda>_.
     kbind (kprintf (map of_char ''Initialized first userprog'' @ [10]) []) (\<lambda>_. kret ())))"

section \<open>Properties\<close>


text \<open>The stack frame at address 0.\<close>

definition some_image :: kernel_image where
  "some_image = \<lparr>stack_frame = 0, jump_to_ring3 = 0, slash_literal = 0, serial_literal = 0, init_literal = 0, init_args = 0,
     syscall_handler_asm = 0\<rparr>"

lemma fs_read_run:
  assumes "fs_ok s" and "i < MAX_INODES" and "0 \<le> sint r"
    and op: "crowfs_read C (dnode (inodes s i)) buffer len off (ilk.entered i s) = Ok (r, s2)"
    and s2: "inodes s2 = inodes (ilk.entered i s)" "cpu s2 = cpu (ilk.entered i s)"
  shows "fs_read C i buffer len off s = Ok (r, (ilock_update_at i (\<lambda>_. unlocked_lock) s2)\<lparr>cpu := settled (cpu s)\<rparr>)"
proof -
  have c: "cpu_ok (cpu s)" "ilock (inodes s i) = unlocked_lock" using assms(1,2) inodes_okD(1) by (auto simp: fs_ok_def)
  have lock: "lock_inode i s = Ok ((), ilk.entered i s)" "dnode (inodes (ilk.entered i s) i) = dnode (inodes s i)"
    unfolding lock_inode_def by (rule ilk.lock_free [OF c], simp add: ilk.entered_def ilock_update_at_def set_inode_def)
  have "unlock_inode i s2 = Ok ((), (ilock_update_at i (\<lambda>_. unlocked_lock) s2)\<lparr>cpu := settled (cpu s)\<rparr>)"
    unfolding unlock_inode_def by (rule ilk.unlock_entered [OF c(1)]) (simp_all add: s2 ilk.entered_def ilock_update_at_def set_inode_def)
  then show ?thesis unfolding fs_read_def using lock op assms(3) by simp
qed


text \<open>
  C33. A program header of a loadable segment without bytes passes every check of the loader and stops
  the kernel.
\<close>

theorem exec_empty_segment_panics:
  assumes rd: "fs_read C ip (ph_of K) sizeof_ProgramHeader off s = Ok (56, s1)"
    and ph: "ph = program_header_at (mem s1) (ph_of K)" "ph_type ph = ELF_PROG_LOAD" "ph_memsz ph = 0" "ph_filesz ph = 0"
      "ph_vaddr ph mod PAGE_SIZE = 0"
  shows "load_segments (Suc k) K C p ip off s = Panic ''vmm_allocate: size''"
proof -
  have "PAGE_ROUND_UP 0 = 0" by (simp add: PAGE_ROUND_UP_def PAGE_SIZE_def)
  then show ?thesis
    using rd ph by (simp add: sizeof_ProgramHeader_def vmm_allocate_def kassert_def PAGE_SIZE_def)
qed

text \<open>A library whose reads deliver what was asked for, and a frame with a header of type 1 and zeros.\<close>

definition full_reads :: "(unit, u64, unit, u32 \<times> (u32 \<Rightarrow> u32)) proc_state crowfs" where
  "full_reads = one_file\<lparr>crowfs_read := (\<lambda>d b l off. kbind (kmodify (\<lambda>s. s\<lparr>cpu := settled (cpu s)\<rparr>)) (\<lambda>_. kret (ucast l)))\<rparr>"

definition header_machine :: "(unit, u64, unit, u32 \<times> (u32 \<Rightarrow> u32)) proc_state" where
  "header_machine = files_machine\<lparr>mem := (\<lambda>_. 0)(64 := 1)\<rparr>"

theorem exec_empty_segment_panics_witness:
  "load_segments 1 some_image full_reads 1 3 64 header_machine = Panic ''vmm_allocate: size''"
proof -
  have ok: "fs_ok header_machine" using files_okD(1) [OF files_machine_ok] by (simp add: header_machine_def fs_ok_def)
  have "\<exists>s1. fs_read full_reads 3 (ph_of some_image) sizeof_ProgramHeader 64 header_machine = Ok (56, s1) \<and> mem s1 = mem header_machine"
    using fs_read_run [OF ok, of 3 56 full_reads "ph_of some_image" sizeof_ProgramHeader 64] settled_save [of "cpu header_machine"] ok
    by (simp add: full_reads_def ilk.entered_def ilock_update_at_def set_inode_def MAX_INODES_def fs_ok_def sizeof_ProgramHeader_def)
  then obtain s1 where rd: "fs_read full_reads 3 (ph_of some_image) sizeof_ProgramHeader 64 header_machine = Ok (56, s1)"
    and m: "mem s1 = (\<lambda>_. 0)(64 := 1)" by (auto simp: header_machine_def)
  let ?ph = "program_header_at ((\<lambda>_. 0)(64 := 1)) 64"
  have "ph_type ?ph = ELF_PROG_LOAD" "ph_memsz ?ph = 0" "ph_filesz ?ph = 0" "ph_vaddr ?ph mod PAGE_SIZE = 0"
    by code_simp+
  moreover have "ph_of some_image = 64" by (simp add: ph_of_def some_image_def)
  ultimately show ?thesis
    using exec_empty_segment_panics [OF rd refl, of 0 1] m by simp
qed

end
