(* ===== verification/Syscall.thy ===== *)
theory Syscall
  imports Exec
begin

text \<open>
  System calls, \<^verbatim>\<open>src/kernel/userspace/syscall.c\<close>: the registers that route the
  instruction to the kernel, and the dispatch on the number of the call. A call that gives up the core
  returns \<open>Switched\<close>.
\<close>

section \<open>Numbers\<close>

definition SYSCALL_READ :: u64 where "SYSCALL_READ = 0"
definition SYSCALL_WRITE :: u64 where "SYSCALL_WRITE = 1"
definition SYSCALL_OPEN :: u64 where "SYSCALL_OPEN = 2"
definition SYSCALL_CLOSE :: u64 where "SYSCALL_CLOSE = 3"
definition SYSCALL_SBRK :: u64 where "SYSCALL_SBRK = 4"
definition SYSCALL_EXEC :: u64 where "SYSCALL_EXEC = 5"
definition SYSCALL_EXIT :: u64 where "SYSCALL_EXIT = 6"
definition SYSCALL_WAIT :: u64 where "SYSCALL_WAIT = 7"
definition SYSCALL_LSEEK :: u64 where "SYSCALL_LSEEK = 8"
definition SYSCALL_TIME :: u64 where "SYSCALL_TIME = 9"
definition SYSCALL_SLEEP :: u64 where "SYSCALL_SLEEP = 10"
definition SYSCALL_IOCTL :: u64 where "SYSCALL_IOCTL = 11"
definition SYSCALL_RENAME :: u64 where "SYSCALL_RENAME = 12"
definition SYSCALL_UNLINK :: u64 where "SYSCALL_UNLINK = 13"
definition SYSCALL_MKDIR :: u64 where "SYSCALL_MKDIR = 14"
definition SYSCALL_CHDIR :: u64 where "SYSCALL_CHDIR = 15"
definition SYSCALL_READDIR :: u64 where "SYSCALL_READDIR = 16"

lemmas syscall_numbers = SYSCALL_READ_def SYSCALL_WRITE_def SYSCALL_OPEN_def SYSCALL_CLOSE_def SYSCALL_SBRK_def SYSCALL_EXEC_def
  SYSCALL_EXIT_def SYSCALL_WAIT_def SYSCALL_LSEEK_def SYSCALL_TIME_def SYSCALL_SLEEP_def SYSCALL_IOCTL_def SYSCALL_RENAME_def
  SYSCALL_UNLINK_def SYSCALL_MKDIR_def SYSCALL_CHDIR_def SYSCALL_READDIR_def

section \<open>Entry\<close>

definition GDT_KERNEL_CODE_SEGMENT :: u64 where "GDT_KERNEL_CODE_SEGMENT = 0x8"
definition GDT_KERNEL_DATA_SEGMENT :: u64 where "GDT_KERNEL_DATA_SEGMENT = 0x10"
definition GDT_USER_DATA_SEGMENT :: u64 where "GDT_USER_DATA_SEGMENT = 0x18"
definition GDT_USER_CODE_SEGMENT :: u64 where "GDT_USER_CODE_SEGMENT = 0x20"
definition GDT_TSS_SEGMENT :: u64 where "GDT_TSS_SEGMENT = 0x28"

definition IA32_EFER :: u32 where "IA32_EFER = 0xC0000080"
definition IA32_STAR :: u32 where "IA32_STAR = 0xC0000081"
definition IA32_LSTAR :: u32 where "IA32_LSTAR = 0xC0000082"
definition IA32_FMASK :: u32 where "IA32_FMASK = 0xC0000084"

text \<open>The carry, parity, adjust, zero, sign, trap, interrupt, direction, overflow, nested task, resume,
  alignment and identification flags and the two bits of the I/O privilege level.\<close>

definition syscall_flag_mask :: u64 where
  "syscall_flag_mask = foldr (\<lambda>b m. push_bit b 1 OR m) [0, 2, 4, 6, 7, 8, 9, 10, 11] (push_bit 12 3) OR
     foldr (\<lambda>b m. push_bit b 1 OR m) [14, 16, 18, 21] 0"

definition syscall_init :: "kernel_image \<Rightarrow> (('d, 'p, 'f, 'a, 'z) apic_state_scheme, unit) kern" where
  "syscall_init K =
     kbind (rdmsr IA32_EFER) (\<lambda>efer.
     kbind (wrmsr IA32_EFER (efer OR 1)) (\<lambda>_.
     kbind (wrmsr IA32_STAR (push_bit 32 GDT_KERNEL_CODE_SEGMENT OR push_bit 48 (GDT_USER_DATA_SEGMENT - 8))) (\<lambda>_.
     kbind (wrmsr IA32_LSTAR (syscall_handler_asm K)) (\<lambda>_.
     wrmsr IA32_FMASK syscall_flag_mask))))"

section \<open>Dispatch\<close>

text \<open>An \<open>int\<close> is widened with its sign, an unsigned value with zeros.\<close>

definition int_result :: "('s, u32) kern \<Rightarrow> ('s, u64 control) kern" where
  "int_result m = kbind m (\<lambda>r. kret (Return (scast r)))"

definition int_control :: "('s, u32 control) kern \<Rightarrow> ('s, u64 control) kern" where
  "int_control m = kbind m (\<lambda>c. kret (case c of Return r \<Rightarrow> Return (scast r) | Switched \<Rightarrow> Switched))"

definition value_result :: "('s, u64) kern \<Rightarrow> ('s, u64 control) kern" where
  "value_result m = kbind m (\<lambda>r. kret (Return r))"

definition syscall_c ::
  "kernel_image \<Rightarrow> ('d, 'p, 'f, 'a, 'z) proc_state_scheme crowfs \<Rightarrow> u64 \<Rightarrow> u64 \<Rightarrow> u64 \<Rightarrow> u64 \<Rightarrow>
   (('d, 'p, 'f, 'a, 'z) proc_state_scheme, u64 control) kern" where
  "syscall_c K C syscall_number a1 a2 a3 =
     (if syscall_number = SYSCALL_READ then int_control (sys_read C (ucast a1) a2 a3)
      else if syscall_number = SYSCALL_WRITE then int_result (sys_write C (ucast a1) a2 a3)
      else if syscall_number = SYSCALL_OPEN then int_result (sys_open C a1 (ucast a2))
      else if syscall_number = SYSCALL_CLOSE then int_result (sys_close (ucast a1))
      else if syscall_number = SYSCALL_SBRK then value_result (proc_sbrk (scast (ucast a1 :: u32)))
      else if syscall_number = SYSCALL_EXEC
      then the_process (\<lambda>p. kbind (kgets (\<lambda>s. working_directory (processes s p))) (\<lambda>wd. value_result (proc_exec K C a1 a2 wd)))
      else if syscall_number = SYSCALL_EXIT
      then kbind (proc_exit (ucast a1)) (\<lambda>c. case c of Switched \<Rightarrow> kret Switched | Return _ \<Rightarrow> int_control (proc_wait a1))
      else if syscall_number = SYSCALL_WAIT then int_control (proc_wait a1)
      else if syscall_number = SYSCALL_LSEEK then int_result (sys_lseek (ucast a1) a2 (ucast a3))
      else if syscall_number = SYSCALL_TIME then value_result rtc_now
      else if syscall_number = SYSCALL_SLEEP
      then kbind (sys_sleep a1) (\<lambda>c. kret (case c of Return _ \<Rightarrow> Return 0 | Switched \<Rightarrow> Switched))
      else if syscall_number = SYSCALL_IOCTL then int_result (sys_ioctl (ucast a1) (ucast a2) a3)
      else if syscall_number = SYSCALL_RENAME then int_result (sys_rename a1 a2)
      else if syscall_number = SYSCALL_UNLINK then int_result (sys_unlink C a1)
      else if syscall_number = SYSCALL_MKDIR then int_result (sys_mkdir C a1)
      else if syscall_number = SYSCALL_CHDIR then int_result (sys_chdir C a1)
      else if syscall_number = SYSCALL_READDIR then int_result (sys_readdir C (ucast a1) a2 a3)
      else kret (Return (-1)))"

end
