(* ===== verification/Pcie.thy ===== *)
theory Pcie
  imports Printf Vmm
begin

text \<open>
  Finding the disk, \<^verbatim>\<open>src/kernel/device/pcie.c\<close>, and starting it: the initialisation of the
  NVMe controller in \<^verbatim>\<open>src/kernel/device/nvme.c\<close>. The configuration space is behind
  the I/O ports; how the registers of the controller answer a load is a parameter.
\<close>

section \<open>The configuration space\<close>

definition pci_address :: "u8 \<Rightarrow> u8 \<Rightarrow> u8 \<Rightarrow> u8 \<Rightarrow> u32" where
  "pci_address bus slot func off =
     push_bit 16 (ucast bus) OR push_bit 11 (ucast slot) OR push_bit 8 (ucast func) OR ucast (off AND 0xFC) OR 0x80000000"

definition pci_word :: "u8 \<Rightarrow> u32 \<Rightarrow> u16" where
  "pci_word off v = ucast (drop_bit (unat ((off AND 2) * 8)) v)"

definition pci_config_read_word :: "u8 \<Rightarrow> u8 \<Rightarrow> u8 \<Rightarrow> u8 \<Rightarrow> (('d, 'p, 'z) console_scheme, u16) kern" where
  "pci_config_read_word bus slot func off =
     kbind (kgets (\<lambda>s. rflags_IF (cpu s))) (\<lambda>interrupts_enabled.
     kbind cli (\<lambda>_.
     kbind (outl 0xCF8 (pci_address bus slot func off)) (\<lambda>_.
     kbind (inl 0xCFC) (\<lambda>v.
     kbind (if interrupts_enabled then sti else kret ()) (\<lambda>_.
     kret (pci_word off v))))))"

definition bar_of :: "u16 \<Rightarrow> u16 \<Rightarrow> u16 \<Rightarrow> u16 \<Rightarrow> u64" where
  "bar_of w10 w12 w14 w16 =
     (let bar0 = ucast w10 OR push_bit 16 (ucast w12) :: u32;
          bar1 = ucast w14 OR push_bit 16 (ucast w16) :: u32
      in push_bit 32 (ucast bar1) OR ucast (bar0 AND 0xFFFFFFF0))"

primrec nvme_base_loop :: "nat \<Rightarrow> (('d, 'p, 'z) console_scheme, u64) kern" where
  "nvme_base_loop 0 = kret 0"
| "nvme_base_loop (Suc k) =
     (let device = of_nat (32 - Suc k) in
      kbind (pci_config_read_word 0 device 0 0) (\<lambda>vendor.
      if vendor = 0xFFFF then nvme_base_loop k else
      kbind (pci_config_read_word 0 device 0 0xA) (\<lambda>class_subclass.
      kbind (pci_config_read_word 0 device 0 0x8) (\<lambda>w8.
      if class_subclass \<noteq> 0x108 \<or> drop_bit 8 w8 \<noteq> 2 then nvme_base_loop k else
      kbind (pci_config_read_word 0 device 0 0x10) (\<lambda>w10.
      kbind (pci_config_read_word 0 device 0 0x12) (\<lambda>w12.
      kbind (pci_config_read_word 0 device 0 0x14) (\<lambda>w14.
      kbind (pci_config_read_word 0 device 0 0x16) (\<lambda>w16.
      let bar = bar_of w10 w12 w14 w16 in
      kbind (kprintf (chars ''NVMe found at %p'' @ [10]) [bar]) (\<lambda>_.
      kret bar)))))))))"

definition pcie_get_nvme_base :: "(('d, 'p, 'z) console_scheme, u64) kern" where
  "pcie_get_nvme_base = nvme_base_loop 32"

primrec pcie_list_devices :: "nat \<Rightarrow> u8 \<Rightarrow> (('d, 'p, 'z) console_scheme, unit) kern" where
  "pcie_list_devices 0 bus = kret ()"
| "pcie_list_devices (Suc k) bus =
     (let device = of_nat (32 - Suc k) in
      kbind (pci_config_read_word bus device 0 0) (\<lambda>vendor.
      if vendor = 0xFFFF then pcie_list_devices k bus else
      kbind (pci_config_read_word bus device 0 0xA) (\<lambda>class_subclass.
      kbind (pci_config_read_word bus device 0 0x8) (\<lambda>w8.
      kbind (kprintf (chars ''PCIe device %u.%u -> 0x%x -> 0x%x %u'' @ [10])
               [ucast bus, ucast device, ucast vendor, ucast class_subclass, ucast (drop_bit 8 w8)]) (\<lambda>_.
      pcie_list_devices k bus)))))"

primrec pcie_list_buses :: "nat \<Rightarrow> (('d, 'p, 'z) console_scheme, unit) kern" where
  "pcie_list_buses 0 = kret ()"
| "pcie_list_buses (Suc k) = kbind (pcie_list_devices 32 (of_nat (255 - Suc k))) (\<lambda>_. pcie_list_buses k)"

definition pcie_list :: "(('d, 'p, 'z) console_scheme, unit) kern" where
  "pcie_list =
     kbind (kprintf (chars ''Attached PCIe devices:'' @ [10]) []) (\<lambda>_.
     pcie_list_buses 255)"

section \<open>The controller\<close>

text \<open>Loads of the registers and 64-bit stores; 32-bit stores are part of the state.\<close>

record 'd nvme_registers =
  load4 :: "u64 \<Rightarrow> 'd \<Rightarrow> u32 \<times> 'd"
  load8 :: "u64 \<Rightarrow> 'd \<Rightarrow> u64 \<times> 'd"
  store8 :: "u64 \<Rightarrow> u64 \<Rightarrow> 'd \<Rightarrow> 'd"

definition NVME_CAP_OFFSET :: u32 where "NVME_CAP_OFFSET = 0"
definition NVME_CC_OFFSET :: u32 where "NVME_CC_OFFSET = 0x14"
definition NVME_CSTS_OFFSET :: u32 where "NVME_CSTS_OFFSET = 0x1c"
definition NVME_AQA_OFFSET :: u32 where "NVME_AQA_OFFSET = 0x24"
definition NVME_ASQ_OFFSET :: u32 where "NVME_ASQ_OFFSET = 0x28"
definition NVME_ACQ_OFFSET :: u32 where "NVME_ACQ_OFFSET = 0x30"
definition NVME_ADMIN_QUEUE_SIZE :: u32 where "NVME_ADMIN_QUEUE_SIZE = 2"
definition NVME_IO_QUEUE_SIZE :: u32 where "NVME_IO_QUEUE_SIZE = 16"
definition NVME_PAGE_SIZE_BITS :: u64 where "NVME_PAGE_SIZE_BITS = 12"
definition NVME_NAMESPACE_INDEX :: u32 where "NVME_NAMESPACE_INDEX = 1"
definition NVME_ADMIN_CRIOSQ_OPC :: u8 where "NVME_ADMIN_CRIOSQ_OPC = 1"
definition NVME_ADMIN_CRIOCQ_OPC :: u8 where "NVME_ADMIN_CRIOCQ_OPC = 5"
definition NVME_ADMIN_IDENTIFY_OPC :: u8 where "NVME_ADMIN_IDENTIFY_OPC = 6"
definition NVME_ADMIN_SETFEATURES_OPC :: u8 where "NVME_ADMIN_SETFEATURES_OPC = 9"
definition NVME_ADMIN_SETFEATURES_NUMQUEUES :: u32 where "NVME_ADMIN_SETFEATURES_NUMQUEUES = 7"
definition NVME_ID_CNS_NS_IDENTIFY :: u32 where "NVME_ID_CNS_NS_IDENTIFY = 0"

definition nvme_reg4 :: "'d nvme_registers \<Rightarrow> u32 \<Rightarrow> (('d, 'z) kernel_scheme, u32) kern" where
  "nvme_reg4 R off s = (case load4 R (ucast off) (nvme_ctrl s) of (v, d) \<Rightarrow> Ok (v, s\<lparr>nvme_ctrl := d\<rparr>))"

definition nvme_reg8 :: "'d nvme_registers \<Rightarrow> u32 \<Rightarrow> (('d, 'z) kernel_scheme, u64) kern" where
  "nvme_reg8 R off s = (case load8 R (ucast off) (nvme_ctrl s) of (v, d) \<Rightarrow> Ok (v, s\<lparr>nvme_ctrl := d\<rparr>))"

definition nvme_reg8_store :: "'d nvme_registers \<Rightarrow> u32 \<Rightarrow> u64 \<Rightarrow> (('d, 'z) kernel_scheme, unit) kern" where
  "nvme_reg8_store R off v = kmodify (\<lambda>s. s\<lparr>nvme_ctrl := store8 R (ucast off) v (nvme_ctrl s)\<rparr>)"

definition nvme_disable_device :: "'d nvme_registers \<Rightarrow> (('d, 'z) kernel_scheme, unit) kern" where
  "nvme_disable_device R =
     kbind (nvme_reg4 R NVME_CC_OFFSET) (\<lambda>cc.
     kbind (nvme_reg4_store NVME_CC_OFFSET (cc AND NOT 1)) (\<lambda>_.
     kbind (kpoll (nvme_reg4 R NVME_CSTS_OFFSET) (\<lambda>v. v AND 1 \<noteq> 1)) (\<lambda>_. kret ())))"

definition nvme_enable_device :: "'d nvme_registers \<Rightarrow> (('d, 'z) kernel_scheme, unit) kern" where
  "nvme_enable_device R =
     kbind (nvme_reg4_store NVME_CC_OFFSET (1 OR push_bit 16 6 OR push_bit 20 4)) (\<lambda>_.
     kbind (kpoll (nvme_reg4 R NVME_CSTS_OFFSET) (\<lambda>v. v AND 1 \<noteq> 0)) (\<lambda>_. kret ()))"

text \<open>An entry of the admin queue: \<open>nsid\<close> at 4, \<open>prp[0]\<close> at 24, \<open>cdw10\<close> at 40 and \<open>cdw11\<close> at 44.\<close>

definition admin_sq_entry :: "u64 \<Rightarrow> u8 \<Rightarrow> u16 \<Rightarrow> u32 \<Rightarrow> u64 \<Rightarrow> u32 \<Rightarrow> u32 \<Rightarrow> mem \<Rightarrow> mem" where
  "admin_sq_entry sq opc cid nsid prp cdw10 cdw11 m =
     (let m1 = memset sq 0 64 m;
          m2 = m1(sq := opc);
          m3 = store16 m2 (sq + 2) cid;
          m4 = store32 m3 (sq + 4) nsid;
          m5 = store64 m4 (sq + 24) prp;
          m6 = store32 m5 (sq + 40) cdw10
      in store32 m6 (sq + 44) cdw11)"

definition admin_command ::
  "u8 \<Rightarrow> u32 \<Rightarrow> (('d, 'z) kernel_scheme \<Rightarrow> u64) \<Rightarrow> (('d, 'z) kernel_scheme \<Rightarrow> u32) \<Rightarrow> (('d, 'z) kernel_scheme \<Rightarrow> u32) \<Rightarrow>
   (('d, 'z) kernel_scheme, unit) kern" where
  "admin_command opc nsid prp cdw10 cdw11 =
     kbind next_command (\<lambda>cid.
     kbind (kmodify (\<lambda>s. s\<lparr>mem := admin_sq_entry (sq_slot (admin_queue s)) opc cid nsid (prp s) (cdw10 s) (cdw11 s) (mem s)\<rparr>)) (\<lambda>_.
     nvme_do_one_cmd_synchronous admin_queue admin_queue_update))"

definition nvme_create_io_queue :: "(('d, 'z) kernel_scheme, unit) kern" where
  "nvme_create_io_queue =
     kbind (admin_command NVME_ADMIN_SETFEATURES_OPC 0 (\<lambda>_. 0) (\<lambda>_. NVME_ADMIN_SETFEATURES_NUMQUEUES) (\<lambda>_. 0)) (\<lambda>_.
     kbind (admin_command NVME_ADMIN_CRIOCQ_OPC 0 (\<lambda>s. V2P s (completion_queue (io_queue s)))
              (\<lambda>s. queue_index (io_queue s) OR push_bit 16 (NVME_IO_QUEUE_SIZE - 1)) (\<lambda>_. 1)) (\<lambda>_.
     admin_command NVME_ADMIN_CRIOSQ_OPC 0 (\<lambda>s. V2P s (submission_queue (io_queue s)))
       (\<lambda>s. queue_index (io_queue s) OR push_bit 16 (NVME_IO_QUEUE_SIZE - 1))
       (\<lambda>s. 1 OR push_bit 16 (queue_index (io_queue s)))))"

text \<open>
  Of the data of a namespace: \<open>nsze\<close> at 0, \<open>flbas\<close> at 26 and the LBA formats of 4 bytes from 128, with
  \<open>lbads\<close> at 2. A shift of 2 by a negative number or past the sign bit is undefined.
\<close>

definition namespace_lbads :: "mem \<Rightarrow> u64 \<Rightarrow> u8" where
  "namespace_lbads m a = m (a + 128 + 4 * ucast (m (a + 26) AND 0xF) + 2)"

definition nvme_setup_namespaces :: "(('d, 'p, 'z) console_scheme, unit) kern" where
  "nvme_setup_namespaces =
     kbind kalloc (\<lambda>namespace_data.
     kbind (kassert (namespace_data \<noteq> 0) ''nvme: nvme_identify_namespaces: OOM'') (\<lambda>_.
     kbind (admin_command NVME_ADMIN_IDENTIFY_OPC NVME_NAMESPACE_INDEX (\<lambda>s. V2P s namespace_data)
              (\<lambda>_. NVME_ID_CNS_NS_IDENTIFY) (\<lambda>_. 0)) (\<lambda>_.
     kbind (kgets (\<lambda>s. namespace_lbads (mem s) namespace_data)) (\<lambda>lbads.
     if lbads = 0 \<or> 31 \<le> lbads then kundef else
     kbind (kmodify (\<lambda>s. s\<lparr>block_size := push_bit (unat (lbads - 1)) 2, total_blocks := load64 (mem s) namespace_data\<rparr>)) (\<lambda>_.
     kbind (kgets (\<lambda>s. ucast (block_size s) * total_blocks s)) (\<lambda>bytes.
     kbind (kprintf (chars ''Detected NVMe with %llu bytes in size'' @ [10]) [bytes]) (\<lambda>_.
     kfree namespace_data)))))))"

definition fresh_queue :: "u32 \<Rightarrow> u32 \<Rightarrow> u64 \<Rightarrow> u64 \<Rightarrow> nvme_queue \<Rightarrow> nvme_queue" where
  "fresh_queue index sz sq cq q = q\<lparr>submission_queue := sq, completion_queue := cq, queue_index := index, queue_size := sz,
     completion_queue_current_phase := 0\<rparr>"

definition nvme_init :: "'d nvme_registers \<Rightarrow> (('d, 'p, 'z) console_scheme, unit) kern" where
  "nvme_init R =
     kbind pcie_get_nvme_base (\<lambda>nvme_base_physical.
     kbind (vmm_io_memmap nvme_base_physical 0x2000) (\<lambda>nvme_base.
     kbind (kassert (nvme_base \<noteq> 0) ''nvme: could not get NVMe base'') (\<lambda>_.
     kbind (nvme_reg8 R NVME_CAP_OFFSET) (\<lambda>cap.
     kbind (kmodify (\<lambda>s. s\<lparr>nvme_cap := cap\<rparr>)) (\<lambda>_.
     kbind (kassert (drop_bit 37 cap AND 1 \<noteq> 0) ''nvme: NCSS not supported'') (\<lambda>_.
     kbind (kassert (12 + (drop_bit 48 cap AND 0xf) \<le> NVME_PAGE_SIZE_BITS) ''nvme: Driver does not support 4kb pages'') (\<lambda>_.
     kbind (kassert (ucast NVME_IO_QUEUE_SIZE \<le> cap AND 0xffff) ''nvme: Small queue size'') (\<lambda>_.
     kbind kcalloc (\<lambda>asq. kbind kcalloc (\<lambda>acq. kbind kcalloc (\<lambda>isq. kbind kcalloc (\<lambda>icq.
     kbind (kassert (asq \<noteq> 0 \<and> acq \<noteq> 0 \<and> isq \<noteq> 0 \<and> icq \<noteq> 0) ''nvme: queue allocation failed: OOM'') (\<lambda>_.
     kbind (kmodify (\<lambda>s. s\<lparr>admin_queue := fresh_queue 0 NVME_ADMIN_QUEUE_SIZE asq acq (admin_queue s),
                             io_queue := fresh_queue 1 NVME_IO_QUEUE_SIZE isq icq (io_queue s)\<rparr>)) (\<lambda>_.
     kbind (nvme_disable_device R) (\<lambda>_.
     kbind (nvme_reg4_store NVME_AQA_OFFSET ((NVME_ADMIN_QUEUE_SIZE - 1) OR push_bit 16 (NVME_ADMIN_QUEUE_SIZE - 1))) (\<lambda>_.
     kbind (kgets (\<lambda>s. V2P s asq)) (\<lambda>asq_physical.
     kbind (nvme_reg8_store R NVME_ASQ_OFFSET asq_physical) (\<lambda>_.
     kbind (kgets (\<lambda>s. V2P s acq)) (\<lambda>acq_physical.
     kbind (nvme_reg8_store R NVME_ACQ_OFFSET acq_physical) (\<lambda>_.
     kbind (nvme_enable_device R) (\<lambda>_.
     kbind nvme_create_io_queue (\<lambda>_.
     nvme_setup_namespaces))))))))))))))))))))))"

section \<open>Properties\<close>

text \<open>Behind the two ports stands a configuration space \<open>cfg\<close>: what a register holds for an address.\<close>

definition pci_ports :: "(u32 \<Rightarrow> u32) \<Rightarrow> 'p ports \<Rightarrow> bool" where
  "pci_ports cfg P \<longleftrightarrow> (\<forall>a d. pin32 P 0xCFC (pout32 P 0xCF8 a d) = (cfg a, pout32 P 0xCF8 a d))"

definition cfg_word :: "(u32 \<Rightarrow> u32) \<Rightarrow> u8 \<Rightarrow> u8 \<Rightarrow> u16" where
  "cfg_word cfg device off = pci_word off (cfg (pci_address 0 device 0 off))"

definition is_nvme :: "(u32 \<Rightarrow> u32) \<Rightarrow> u8 \<Rightarrow> bool" where
  "is_nvme cfg device \<longleftrightarrow> cfg_word cfg device 0 \<noteq> 0xFFFF \<and> cfg_word cfg device 0xA = 0x108 \<and> drop_bit 8 (cfg_word cfg device 8) = 2"

definition nvme_bar :: "(u32 \<Rightarrow> u32) \<Rightarrow> u8 \<Rightarrow> u64" where
  "nvme_bar cfg device = bar_of (cfg_word cfg device 0x10) (cfg_word cfg device 0x12) (cfg_word cfg device 0x14) (cfg_word cfg device 0x16)"

text \<open>States that differ in what happened behind the ports only.\<close>

definition same_but_dev :: "('d, 'p, 'z) console_scheme \<Rightarrow> ('d, 'p, 'z) console_scheme \<Rightarrow> bool" where
  "same_but_dev s s' \<longleftrightarrow> (\<exists>d. s' = s\<lparr>ports := (ports s)\<lparr>pdev := d\<rparr>\<rparr>)"

lemma same_but_dev_refl [simp]: "same_but_dev s s"
  unfolding same_but_dev_def by (rule exI [of _ "pdev (ports s)"]) simp

lemma same_but_dev_trans [trans]: "same_but_dev s s1 \<Longrightarrow> same_but_dev s1 s2 \<Longrightarrow> same_but_dev s s2"
  by (auto simp: same_but_dev_def)

lemma same_but_dev_ports: "same_but_dev s s1 \<Longrightarrow> pci_ports cfg (ports s) \<Longrightarrow> pci_ports cfg (ports s1)"
  by (auto simp: same_but_dev_def pci_ports_def)

lemma pci_config_read_word_eq:
  assumes "pci_ports cfg (ports s)"
  obtains s1 where "pci_config_read_word bus slot func off s = Ok (pci_word off (cfg (pci_address bus slot func off)), s1)"
    "same_but_dev s s1" "pci_ports cfg (ports s1)"
proof -
  let ?d = "pout32 (ports s) 0xCF8 (pci_address bus slot func off) (pdev (ports s))"
  let ?s1 = "s\<lparr>ports := (ports s)\<lparr>pdev := ?d\<rparr>\<rparr>"
  have i: "pin32 (ports s) 0xCFC ?d = (cfg (pci_address bus slot func off), ?d)" using assms by (simp add: pci_ports_def)
  have run: "pci_config_read_word bus slot func off s = Ok (pci_word off (cfg (pci_address bus slot func off)),
      ?s1\<lparr>cpu := if rflags_IF (cpu s) then (cpu s)\<lparr>rflags_IF := True\<rparr> else (cpu s)\<lparr>rflags_IF := False\<rparr>\<rparr>)"
    unfolding pci_config_read_word_def cli_def sti_def using i by (simp add: outl_def inl_def)
  have "(if rflags_IF (cpu s) then (cpu s)\<lparr>rflags_IF := True\<rparr> else (cpu s)\<lparr>rflags_IF := False\<rparr>) = cpu s"
    by (cases "cpu s") simp
  then have "pci_config_read_word bus slot func off s = Ok (pci_word off (cfg (pci_address bus slot func off)), ?s1)"
    unfolding run by simp
  moreover have "same_but_dev s ?s1" unfolding same_but_dev_def by blast
  moreover have "pci_ports cfg (ports ?s1)" using assms by (simp add: pci_ports_def)
  ultimately show ?thesis by (rule that)
qed

lemma read_word_bus0:
  assumes "pci_ports cfg (ports s)"
  shows "\<exists>s1. pci_config_read_word 0 device 0 off s = Ok (cfg_word cfg device off, s1) \<and> same_but_dev s s1 \<and> pci_ports cfg (ports s1)"
  using pci_config_read_word_eq [OF assms, of 0 device 0 off] unfolding cfg_word_def by blast

definition first_nvme :: "(u32 \<Rightarrow> u32) \<Rightarrow> nat \<Rightarrow> u8 option" where
  "first_nvme cfg k = find (is_nvme cfg) (map of_nat [32 - k..<32])"

lemma first_nvme_Suc:
  "k < 32 \<Longrightarrow> first_nvme cfg (Suc k) = (if is_nvme cfg (of_nat (32 - Suc k)) then Some (of_nat (32 - Suc k)) else first_nvme cfg k)"
proof -
  assume "k < 32"
  then have "Suc (32 - Suc k) = 32 - k" by simp
  then have "[32 - Suc k..<32] = (32 - Suc k) # [32 - k..<32]" using upt_conv_Cons [of "32 - Suc k" 32] by (simp only:)
  then show ?thesis by (simp only: first_nvme_def list.map find.simps)
qed

lemma nvme_base_loop_eq:
  "k \<le> 32 \<Longrightarrow> pci_ports cfg (ports s) \<Longrightarrow>
   \<exists>s1. same_but_dev s s1 \<and> nvme_base_loop k s = (case first_nvme cfg k of None \<Rightarrow> Ok (0, s1)
     | Some d \<Rightarrow> kbind (kprintf (chars ''NVMe found at %p'' @ [10]) [nvme_bar cfg d]) (\<lambda>_. kret (nvme_bar cfg d)) s1)"
proof (induction k arbitrary: s)
  case 0
  show ?case by (rule exI [of _ s]) (simp add: first_nvme_def)
next
  case (Suc k)
  define dev :: u8 where "dev = of_nat (32 - Suc k)"
  have f: "first_nvme cfg (Suc k) = (if is_nvme cfg dev then Some dev else first_nvme cfg k)"
    using first_nvme_Suc [of k cfg] Suc.prems(1) by (simp add: dev_def)
  obtain s1 where s1: "pci_config_read_word 0 dev 0 0 s = Ok (cfg_word cfg dev 0, s1)" "same_but_dev s s1" "pci_ports cfg (ports s1)"
    using read_word_bus0 [OF Suc.prems(2)] by blast
  show ?case
  proof (cases "cfg_word cfg dev 0 = 0xFFFF")
    case True
    then have "\<not> is_nvme cfg dev" by (simp add: is_nvme_def)
    moreover have "nvme_base_loop (Suc k) s = nvme_base_loop k s1"
      unfolding nvme_base_loop.simps Let_def dev_def [symmetric] using s1(1) True by simp
    ultimately show ?thesis using Suc.IH [OF _ s1(3)] Suc.prems(1) s1(2) f by (auto intro: same_but_dev_trans)
  next
    case v: False
    obtain s2 where s2: "pci_config_read_word 0 dev 0 0xA s1 = Ok (cfg_word cfg dev 0xA, s2)" "same_but_dev s1 s2" "pci_ports cfg (ports s2)"
      using read_word_bus0 [OF s1(3)] by blast
    obtain s3 where s3: "pci_config_read_word 0 dev 0 8 s2 = Ok (cfg_word cfg dev 8, s3)" "same_but_dev s2 s3" "pci_ports cfg (ports s3)"
      using read_word_bus0 [OF s2(3)] by blast
    have s03: "same_but_dev s s3" using s1(2) s2(2) s3(2) by (blast intro: same_but_dev_trans)
    show ?thesis
    proof (cases "is_nvme cfg dev")
      case False
      then have "nvme_base_loop (Suc k) s = nvme_base_loop k s3"
        unfolding nvme_base_loop.simps Let_def dev_def [symmetric] using v s1(1) s2(1) s3(1) by (auto simp: is_nvme_def)
      with Suc.IH [OF _ s3(3)] Suc.prems(1) s03 f False show ?thesis by (auto intro: same_but_dev_trans)
    next
      case True
      obtain s4 where s4: "pci_config_read_word 0 dev 0 0x10 s3 = Ok (cfg_word cfg dev 0x10, s4)" "same_but_dev s3 s4" "pci_ports cfg (ports s4)"
        using read_word_bus0 [OF s3(3)] by blast
      obtain s5 where s5: "pci_config_read_word 0 dev 0 0x12 s4 = Ok (cfg_word cfg dev 0x12, s5)" "same_but_dev s4 s5" "pci_ports cfg (ports s5)"
        using read_word_bus0 [OF s4(3)] by blast
      obtain s6 where s6: "pci_config_read_word 0 dev 0 0x14 s5 = Ok (cfg_word cfg dev 0x14, s6)" "same_but_dev s5 s6" "pci_ports cfg (ports s6)"
        using read_word_bus0 [OF s5(3)] by blast
      obtain s7 where s7: "pci_config_read_word 0 dev 0 0x16 s6 = Ok (cfg_word cfg dev 0x16, s7)" "same_but_dev s6 s7"
        using read_word_bus0 [OF s6(3)] by blast
      have "same_but_dev s s7" using s03 s4(2) s5(2) s6(2) s7(2) by (blast intro: same_but_dev_trans)
      moreover have "nvme_base_loop (Suc k) s =
          kbind (kprintf (chars ''NVMe found at %p'' @ [10]) [nvme_bar cfg dev]) (\<lambda>_. kret (nvme_bar cfg dev)) s7"
        unfolding nvme_base_loop.simps Let_def dev_def [symmetric]
        using True v s1(1) s2(1) s3(1) s4(1) s5(1) s6(1) s7(1) by (simp add: is_nvme_def nvme_bar_def)
      ultimately show ?thesis using f True by auto
    qed
  qed
qed


text \<open>A disk in slot 4 with its registers at \<open>0xFEBF0000\<close>, on a machine whose serial port is always ready.\<close>

definition disk_config :: "u32 \<Rightarrow> u32" where
  "disk_config a = (if a = pci_address 0 4 0 0 then 0x00101B36 else if a = pci_address 0 4 0 8 then 0x01080202
     else if a = pci_address 0 4 0 0x10 then 0xFEBF0004 else if a = pci_address 0 4 0 0x14 then 0 else 0xFFFFFFFF)"

definition disk_ports :: "u32 ports" where
  "disk_ports = \<lparr>pdev = 0, pin8 = (\<lambda>_ d. (0x60, d)), pout8 = (\<lambda>_ _ d. d), pin32 = (\<lambda>_ d. (disk_config d, d)),
     pout32 = (\<lambda>_ v _. v), ptsc = (\<lambda>d. (0, d)), plog = []\<rparr>"

definition disk_console :: "(unit, u32) console" where
  "disk_console = kernel.extend boot_kernel (console.fields disk_ports unlocked_lock)"


end
