(* ===== verification/Descriptors.thy ===== *)
theory Descriptors
  imports Syscall Pcie
begin

text \<open>
  The descriptor tables of the core: segments and the task state segment
  (\<^verbatim>\<open>src/kernel/cpu/gdt.c\<close>, \<^verbatim>\<open>reload_segments\<close> in
  \<^verbatim>\<open>src/kernel/cpu/snippets.S\<close>) and the interrupt vectors
  (\<^verbatim>\<open>src/kernel/cpu/idt.c\<close>). The addresses that the linker gives to the tables and to the
  generated interrupt routines are fields of a parameter. What the processor reads from a descriptor is
  in the second section.
\<close>

section \<open>Tables\<close>

record gdtr =
  gdtr_limit :: u16
  gdtr_ptr :: u64

record gdt_desc =
  limit :: u16
  base_low :: u16
  base_mid :: u8
  access :: u8
  granularity :: u8
  base_hi :: u8

record gdt_sys_desc_upper =
  base_very_high :: u32
  sys_reserved :: u32

datatype gdt_entry = Normal gdt_desc | SysDescUpper gdt_sys_desc_upper

record tss_entry =
  reserved1 :: u32
  sp0 :: u64
  sp1 :: u64
  sp2 :: u64
  reserved2 :: u64
  ist :: "u64 list"
  reserved3 :: u32
  reserved4 :: u32
  reserved5 :: u16
  io_bitmap_base :: u16

record idt_entry_t =
  isr_low :: u16
  kernel_cs :: u16
  gate_ist :: u8
  attributes :: u8
  isr_mid :: u16
  isr_high :: u32
  gate_reserved :: u32

record idtr_t =
  idtr_limit :: u16
  idtr_base :: u64

text \<open>The \<open>idt\<close> has an entry for every byte. The last fields are registers of the core.\<close>

record ('d, 'p, 'f, 'a) machine_state = "('d, 'p, 'f, 'a) proc_state" +
  gdt_entries :: "gdt_entry list"
  tss :: tss_entry
  idt :: "u8 \<Rightarrow> idt_entry_t"
  idtr :: idtr_t
  cores :: smp
  gdt_register :: gdtr
  idt_register :: idtr_t
  task_register :: u16
  cs_register :: u16
  ss_register :: u16
  data_segment_registers :: "u16 list"

record boot_image = kernel_image +
  tss_address :: u64
  gdt_entries_address :: u64
  idt_address :: u64
  irq_vec :: "u64 \<Rightarrow> u64"
  cpu_locals_address :: u64

definition initial_gdt_entries :: "gdt_entry list" where
  "initial_gdt_entries =
     [Normal \<lparr>limit = 0, base_low = 0, base_mid = 0, access = 0, granularity = 0, base_hi = 0\<rparr>,
      Normal \<lparr>limit = 0, base_low = 0, base_mid = 0, access = 0b10011011, granularity = 0b00100000, base_hi = 0\<rparr>,
      Normal \<lparr>limit = 0, base_low = 0, base_mid = 0, access = 0b10010011, granularity = 0, base_hi = 0\<rparr>,
      Normal \<lparr>limit = 0, base_low = 0, base_mid = 0, access = 0b11110011, granularity = 0, base_hi = 0\<rparr>,
      Normal \<lparr>limit = 0, base_low = 0, base_mid = 0, access = 0b11111011, granularity = 0b00100000, base_hi = 0\<rparr>,
      Normal \<lparr>limit = 0, base_low = 0, base_mid = 0, access = 0b10001001, granularity = 0, base_hi = 0\<rparr>,
      SysDescUpper \<lparr>base_very_high = 0, sys_reserved = 0\<rparr>]"

definition initial_tss :: tss_entry where
  "initial_tss = \<lparr>reserved1 = 0, sp0 = 0, sp1 = 0, sp2 = 0, reserved2 = 0, ist = replicate 7 0,
     reserved3 = 0, reserved4 = 0, reserved5 = 0, io_bitmap_base = 0\<rparr>"

definition sizeof_tss :: u16 where
  "sizeof_tss = 4 + 4 * 8 + 7 * 8 + 2 * 4 + 2 * 2"

definition IST_DOUBLE_FAULT_STACK_INDEX :: u8 where
  "IST_DOUBLE_FAULT_STACK_INDEX = 1"

definition reload_segments :: "gdtr \<Rightarrow> (('d, 'p, 'f, 'a, 'z) machine_state_scheme, unit) kern" where
  "reload_segments gdt = kmodify (\<lambda>s. s\<lparr>gdt_register := gdt, cs_register := ucast GDT_KERNEL_CODE_SEGMENT,
     ss_register := ucast GDT_KERNEL_DATA_SEGMENT, data_segment_registers := [0, 0, 0, 0]\<rparr>)"

definition tss_descriptor :: "u64 \<Rightarrow> gdt_entry \<Rightarrow> gdt_entry" where
  "tss_descriptor a e = (case e of
     Normal d \<Rightarrow> Normal (d\<lparr>limit := sizeof_tss, base_low := ucast (a AND 0xFFFF),
       base_mid := ucast (drop_bit 16 a AND 0xFF), base_hi := ucast (drop_bit 24 a AND 0xFF)\<rparr>)
   | SysDescUpper d \<Rightarrow> SysDescUpper (d\<lparr>base_very_high := ucast (drop_bit 32 a AND 0xFFFFFFFF)\<rparr>))"

definition gdt_init :: "boot_image \<Rightarrow> (('d, 'p, 'f, 'a, 'z) machine_state_scheme, unit) kern" where
  "gdt_init B =
     (let t = unat (GDT_TSS_SEGMENT div 8) in
      kbind (kmodify (\<lambda>s. s\<lparr>gdt_entries := (gdt_entries s)[
        t := tss_descriptor (tss_address B) (gdt_entries s ! t),
        t + 1 := tss_descriptor (tss_address B) (gdt_entries s ! (t + 1))]\<rparr>)) (\<lambda>_.
      kbind (kgets gdt_entries) (\<lambda>es.
      reload_segments \<lparr>gdtr_limit = of_nat (8 * length es) - 1, gdtr_ptr = gdt_entries_address B\<rparr>)))"

definition tss_init_and_load :: "(('d, 'p, 'f, 'a, 'z) machine_state_scheme, unit) kern" where
  "tss_init_and_load =
     kbind (kmodify (\<lambda>s. s\<lparr>tss := (tss s)\<lparr>sp0 := INTSTACK_VIRTUAL_ADDRESS_TOP, io_bitmap_base := 0xFFFF\<rparr>\<rparr>)) (\<lambda>_.
     kbind kalloc (\<lambda>p.
     kbind (kmodify (\<lambda>s. s\<lparr>tss := (tss s)\<lparr>ist := (ist (tss s))[unat IST_DOUBLE_FAULT_STACK_INDEX - 1 := p]\<rparr>\<rparr>)) (\<lambda>_.
     kmodify (\<lambda>s. s\<lparr>task_register := ucast GDT_TSS_SEGMENT\<rparr>))))"

definition IDT_MAX_DESCRIPTORS :: nat where
  "IDT_MAX_DESCRIPTORS = 256"

definition T_DBLFLT :: u64 where
  "T_DBLFLT = 8"

definition idt_set_descriptor :: "u8 \<Rightarrow> u64 \<Rightarrow> u8 \<Rightarrow> u8 \<Rightarrow> (('d, 'p, 'f, 'a, 'z) machine_state_scheme, unit) kern" where
  "idt_set_descriptor vector isr flags i =
     kmodify (\<lambda>s. s\<lparr>idt := (idt s)(vector := \<lparr>isr_low = ucast (isr AND 0xFFFF), kernel_cs = ucast GDT_KERNEL_CODE_SEGMENT,
       gate_ist = i, attributes = flags, isr_mid = ucast (drop_bit 16 isr AND 0xFFFF),
       isr_high = ucast (drop_bit 32 isr AND 0xFFFFFFFF), gate_reserved = 0\<rparr>)\<rparr>)"

primrec idt_init_loop :: "nat \<Rightarrow> boot_image \<Rightarrow> u64 \<Rightarrow> (('d, 'p, 'f, 'a, 'z) machine_state_scheme, unit) kern" where
  "idt_init_loop 0 B irq = kret ()"
| "idt_init_loop (Suc k) B irq =
     kbind (idt_set_descriptor (ucast irq) (irq_vec B irq) (if irq = T_YEILD then 0xEE else 0x8E)
              (if irq = T_DBLFLT then IST_DOUBLE_FAULT_STACK_INDEX else 0)) (\<lambda>_.
     idt_init_loop k B (irq + 1))"

definition sizeof_idt_entry_t :: u16 where
  "sizeof_idt_entry_t = 16"

definition idt_init :: "boot_image \<Rightarrow> (('d, 'p, 'f, 'a, 'z) machine_state_scheme, unit) kern" where
  "idt_init B =
     kbind (kmodify (\<lambda>s. s\<lparr>idtr := \<lparr>idtr_limit = sizeof_idt_entry_t * of_nat IDT_MAX_DESCRIPTORS - 1, idtr_base = idt_address B\<rparr>\<rparr>)) (\<lambda>_.
     idt_init_loop IDT_MAX_DESCRIPTORS B 0)"

definition idt_load :: "(('d, 'p, 'f, 'a, 'z) machine_state_scheme, unit) kern" where
  "idt_load = kmodify (\<lambda>s. s\<lparr>idt_register := idtr s\<rparr>)"

section \<open>What the processor reads\<close>

text \<open>The code address of an interrupt gate, the privilege that may raise it by an instruction, and
  whether it is a present gate that masks interrupts.\<close>

definition gate_address :: "idt_entry_t \<Rightarrow> u64" where
  "gate_address e = ucast (isr_low e) OR push_bit 16 (ucast (isr_mid e)) OR push_bit 32 (ucast (isr_high e))"

definition gate_privilege :: "idt_entry_t \<Rightarrow> u8" where
  "gate_privilege e = drop_bit 5 (attributes e) AND 3"

definition interrupt_gate :: "idt_entry_t \<Rightarrow> bool" where
  "interrupt_gate e \<longleftrightarrow> bit (attributes e) 7 \<and> attributes e AND 0x1F = 0x0E"

text \<open>The descriptor a selector refers to, its privilege, and what kind of segment it is.\<close>

definition selected :: "gdt_entry list \<Rightarrow> u16 \<Rightarrow> gdt_desc option" where
  "selected es sel = (let i = unat (sel div 8) in
     if i < length es then (case es ! i of Normal d \<Rightarrow> Some d | SysDescUpper _ \<Rightarrow> None) else None)"

definition segment_privilege :: "gdt_desc \<Rightarrow> u8" where
  "segment_privilege d = drop_bit 5 (access d) AND 3"

definition code_segment :: "gdt_desc \<Rightarrow> bool" where
  "code_segment d \<longleftrightarrow> bit (access d) 7 \<and> bit (access d) 4 \<and> bit (access d) 3 \<and> bit (granularity d) 5"

definition data_segment :: "gdt_desc \<Rightarrow> bool" where
  "data_segment d \<longleftrightarrow> bit (access d) 7 \<and> bit (access d) 4 \<and> \<not> bit (access d) 3 \<and> bit (access d) 1"

definition system_base :: "gdt_entry list \<Rightarrow> u16 \<Rightarrow> u64 option" where
  "system_base es sel = (let i = unat (sel div 8) in
     if i + 1 < length es then
       (case (es ! i, es ! (i + 1)) of
          (Normal d, SysDescUpper u) \<Rightarrow> Some (ucast (base_low d) OR push_bit 16 (ucast (base_mid d)) OR
             push_bit 24 (ucast (base_hi d)) OR push_bit 32 (ucast (base_very_high u)))
        | _ \<Rightarrow> None) else None)"

text \<open>The selectors that \<^verbatim>\<open>syscall\<close> and \<^verbatim>\<open>sysretq\<close> load into CS and SS.\<close>

definition syscall_selectors :: "u64 \<Rightarrow> u16 \<times> u16" where
  "syscall_selectors star = (ucast (drop_bit 32 star) AND 0xFFFC, ucast (drop_bit 32 star) + 8)"

definition sysret_selectors :: "u64 \<Rightarrow> u16 \<times> u16" where
  "sysret_selectors star = ((ucast (drop_bit 48 star) + 16) OR 3, (ucast (drop_bit 48 star) + 8) OR 3)"

lemma split_address16: "ucast (ucast (a AND 0xFFFF) :: u16) OR push_bit 16 (ucast (ucast (drop_bit 16 a AND 0xFFFF) :: u16)) OR
    push_bit 32 (ucast (ucast (drop_bit 32 a AND 0xFFFFFFFF) :: u32)) = (a :: u64)"
proof (rule bit_word_eqI)
  fix n assume "n < LENGTH(64)"
  have m: "0xFFFF = (mask 16 :: u64)" "0xFFFFFFFF = (mask 32 :: u64)" by (simp_all add: mask_eq_exp_minus_1)
  show "bit (ucast (ucast (a AND 0xFFFF) :: u16) OR push_bit 16 (ucast (ucast (drop_bit 16 a AND 0xFFFF) :: u16)) OR
      push_bit 32 (ucast (ucast (drop_bit 32 a AND 0xFFFFFFFF) :: u32)) :: u64) n \<longleftrightarrow> bit a n"
    unfolding m using \<open>n < LENGTH(64)\<close>
    by (cases "n < 16"; cases "n < 32") (auto simp: bit_simps dest: bit_imp_le_length)
qed

lemma split_address8: "ucast (ucast (a AND 0xFFFF) :: u16) OR push_bit 16 (ucast (ucast (drop_bit 16 a AND 0xFF) :: u8)) OR
    push_bit 24 (ucast (ucast (drop_bit 24 a AND 0xFF) :: u8)) OR
    push_bit 32 (ucast (ucast (drop_bit 32 a AND 0xFFFFFFFF) :: u32)) = (a :: u64)"
proof (rule bit_word_eqI)
  fix n assume "n < LENGTH(64)"
  have m: "0xFFFF = (mask 16 :: u64)" "0xFF = (mask 8 :: u64)" "0xFFFFFFFF = (mask 32 :: u64)" by (simp_all add: mask_eq_exp_minus_1)
  show "bit (ucast (ucast (a AND 0xFFFF) :: u16) OR push_bit 16 (ucast (ucast (drop_bit 16 a AND 0xFF) :: u8)) OR
      push_bit 24 (ucast (ucast (drop_bit 24 a AND 0xFF) :: u8)) OR
      push_bit 32 (ucast (ucast (drop_bit 32 a AND 0xFFFFFFFF) :: u32)) :: u64) n \<longleftrightarrow> bit a n"
    unfolding m using \<open>n < LENGTH(64)\<close>
    by (cases "n < 16"; cases "n < 24"; cases "n < 32") (auto simp: bit_simps dest: bit_imp_le_length)
qed

definition selects :: "gdt_entry list \<Rightarrow> u16 \<Rightarrow> (gdt_desc \<Rightarrow> bool) \<Rightarrow> u8 \<Rightarrow> bool" where
  "selects es sel kind dpl = (case selected es sel of Some d \<Rightarrow> kind d \<and> segment_privilege d = dpl | None \<Rightarrow> False)"

definition gate_for :: "boot_image \<Rightarrow> u64 \<Rightarrow> idt_entry_t" where
  "gate_for B irq = \<lparr>isr_low = ucast (irq_vec B irq AND 0xFFFF), kernel_cs = ucast GDT_KERNEL_CODE_SEGMENT,
     gate_ist = (if irq = T_DBLFLT then IST_DOUBLE_FAULT_STACK_INDEX else 0), attributes = (if irq = T_YEILD then 0xEE else 0x8E),
     isr_mid = ucast (drop_bit 16 (irq_vec B irq) AND 0xFFFF), isr_high = ucast (drop_bit 32 (irq_vec B irq) AND 0xFFFFFFFF),
     gate_reserved = 0\<rparr>"

lemma unat_ucast_8_64 [simp]: "unat (ucast (v :: u8) :: u64) = unat v"
proof -
  have "unat v < 256" using unsigned_less [of v, where ?'a = nat] by simp
  then show ?thesis by (simp add: unsigned_ucast_eq take_bit_eq_mod)
qed

lemma idt_set_gate:
  "idt_set_descriptor (ucast irq) (irq_vec B irq) (if irq = T_YEILD then 0xEE else 0x8E)
     (if irq = T_DBLFLT then IST_DOUBLE_FAULT_STACK_INDEX else 0) s = Ok ((), s\<lparr>idt := (idt s)(ucast irq := gate_for B irq)\<rparr>)"
  by (simp only: idt_set_descriptor_def gate_for_def kmodify_apply)

lemma idt_init_loop_eq:
  "k + unat irq = 256 \<Longrightarrow> idt_init_loop k B irq s =
     Ok ((), s\<lparr>idt := (\<lambda>v. if unat irq \<le> unat v then gate_for B (ucast v) else idt s v)\<rparr>)"
proof (induction k arbitrary: irq s)
  case 0
  have "\<not> unat irq \<le> unat v" for v :: u8 using 0 unsigned_less [of v, where ?'a = nat] by simp
  then show ?case by simp
next
  case (Suc k)
  have i: "unat irq < 256" using Suc.prems by simp
  then have n: "unat (irq + 1) = Suc (unat irq)" by (subst unat_add64) simp_all
  have c: "ucast v = irq \<longleftrightarrow> unat v = unat irq" for v :: u8 by (simp add: word_unat_eq_iff)
  have v: "v = ucast irq \<longleftrightarrow> unat v = unat irq" for v :: u8
    using i by (simp add: word_unat_eq_iff unsigned_ucast_eq take_bit_eq_mod)
  have "(\<lambda>v. if Suc (unat irq) \<le> unat v then gate_for B (ucast v) else ((idt s)(ucast irq := gate_for B irq)) v) =
      (\<lambda>v. if unat irq \<le> unat v then gate_for B (ucast v) else idt s v)"
  proof
    fix x :: u8
    consider "unat x < unat irq" | "unat irq < unat x" | "x = ucast irq" "ucast x = irq" "unat x = unat irq"
      using c [of x] v [of x] by linarith
    then show "(if Suc (unat irq) \<le> unat x then gate_for B (ucast x) else ((idt s)(ucast irq := gate_for B irq)) x) =
        (if unat irq \<le> unat x then gate_for B (ucast x) else idt s x)"
      by cases (use v [of x] in auto)
  qed
  moreover have "idt_init_loop (Suc k) B irq s = idt_init_loop k B (irq + 1) (s\<lparr>idt := (idt s)(ucast irq := gate_for B irq)\<rparr>)"
    by (simp only: idt_init_loop.simps kbind_Ok [OF idt_set_gate])
  moreover have "idt_init_loop k B (irq + 1) (s\<lparr>idt := g\<rparr>) =
      Ok ((), s\<lparr>idt := (\<lambda>v. if Suc (unat irq) \<le> unat v then gate_for B (ucast v) else g v)\<rparr>)" for g
    using Suc.IH [of "irq + 1" "s\<lparr>idt := g\<rparr>"] Suc.prems n by (simp cong: if_cong)
  ultimately show ?case by (simp only:)
qed

lemma idt_init_eq:
  "idt_init B s = Ok ((), s\<lparr>idtr := \<lparr>idtr_limit = 4095, idtr_base = idt_address B\<rparr>, idt := (\<lambda>v. gate_for B (ucast v))\<rparr>)"
  by (simp add: idt_init_def idt_init_loop_eq IDT_MAX_DESCRIPTORS_def sizeof_idt_entry_t_def kmodify_def)

lemma gate_for_simps:
  "gate_address (gate_for B irq) = irq_vec B irq"
  "interrupt_gate (gate_for B irq)"
  "gate_privilege (gate_for B irq) = (if irq = T_YEILD then 3 else 0)"
  "gate_ist (gate_for B irq) = (if irq = T_DBLFLT then 1 else 0)"
  "kernel_cs (gate_for B irq) = 8"
  by (auto simp: IST_DOUBLE_FAULT_STACK_INDEX_def GDT_KERNEL_CODE_SEGMENT_def gate_address_def gate_for_def split_address16 interrupt_gate_def gate_privilege_def)

definition final_gdt_entries :: "boot_image \<Rightarrow> gdt_entry list" where
  "final_gdt_entries B = take 5 initial_gdt_entries @
     [tss_descriptor (tss_address B) (initial_gdt_entries ! 5), tss_descriptor (tss_address B) (initial_gdt_entries ! 6)]"

lemma gdt_init_eq:
  "gdt_entries s = initial_gdt_entries \<Longrightarrow> gdt_init B s = Ok ((), s\<lparr>gdt_entries := final_gdt_entries B,
     gdt_register := \<lparr>gdtr_limit = 55, gdtr_ptr = gdt_entries_address B\<rparr>, cs_register := 8, ss_register := 0x10,
     data_segment_registers := [0, 0, 0, 0]\<rparr>)"
  by (simp add: gdt_init_def reload_segments_def kmodify_def kgets_def final_gdt_entries_def initial_gdt_entries_def GDT_TSS_SEGMENT_def
      GDT_KERNEL_CODE_SEGMENT_def GDT_KERNEL_DATA_SEGMENT_def)

lemma final_system_base: "system_base (final_gdt_entries B) 0x28 = Some (tss_address B)"
  by (simp add: system_base_def final_gdt_entries_def initial_gdt_entries_def tss_descriptor_def split_address8)

text \<open>
  C35. The tables that the boot code builds fit together. The task register's selector finds the task
  state segment; each of the 256 vectors leads to its own interrupt routine through a present interrupt
  gate into the kernel's code segment, only vector 0x80 can be raised by a program, and only the double
  fault changes to the first interrupt stack; the loaded limits cover exactly the two tables. The
  selectors that a system call loads are the kernel's code and data segments at privilege 0, and those
  that its return loads are the user's code and data segments at privilege 3.
\<close>

theorem descriptor_tables_consistent:
  fixes s :: "('d, 'p, 'f, 'a, 'z) machine_state_scheme"
  assumes "gdt_entries s = initial_gdt_entries"
  shows "\<exists>s'. kbind (gdt_init B) (\<lambda>_. kbind (idt_init B) (\<lambda>_. kbind idt_load (\<lambda>_. syscall_init (kernel_image.truncate B)))) s = Ok ((), s') \<and>
    system_base (gdt_entries s') (ucast GDT_TSS_SEGMENT) = Some (tss_address B) \<and>
    gdt_register s' = \<lparr>gdtr_limit = of_nat (8 * length (gdt_entries s')) - 1, gdtr_ptr = gdt_entries_address B\<rparr> \<and>
    idt_register s' = \<lparr>idtr_limit = 16 * 256 - 1, idtr_base = idt_address B\<rparr> \<and>
    (\<forall>v. gate_address (idt s' v) = irq_vec B (ucast v) \<and> interrupt_gate (idt s' v) \<and> kernel_cs (idt s' v) = cs_register s' \<and>
       gate_privilege (idt s' v) = (if v = 0x80 then 3 else 0) \<and> gate_ist (idt s' v) = (if v = 8 then 1 else 0)) \<and>
    selects (gdt_entries s') (cs_register s') code_segment 0 \<and> selects (gdt_entries s') (ss_register s') data_segment 0 \<and>
    syscall_selectors (msr s' IA32_STAR) = (cs_register s', ss_register s') \<and>
    selects (gdt_entries s') (fst (sysret_selectors (msr s' IA32_STAR))) code_segment 3 \<and>
    selects (gdt_entries s') (snd (sysret_selectors (msr s' IA32_STAR))) data_segment 3 \<and>
    msr s' IA32_LSTAR = syscall_handler_asm B"
proof -
  have v: "ucast v = T_YEILD \<longleftrightarrow> v = 0x80" "ucast v = T_DBLFLT \<longleftrightarrow> v = 8" for v :: u8
    by (simp_all add: T_YEILD_def T_DBLFLT_def word_unat_eq_iff)
  have star: "push_bit 32 GDT_KERNEL_CODE_SEGMENT OR push_bit 48 (GDT_USER_DATA_SEGMENT - 8) = (0x0010000800000000 :: u64)"
    by (simp add: GDT_KERNEL_CODE_SEGMENT_def GDT_USER_DATA_SEGMENT_def)
  have sel: "syscall_selectors 0x0010000800000000 = (8, 0x10)" "sysret_selectors 0x0010000800000000 = (0x23, 0x1B)" by code_simp+
  have segs: "selects (final_gdt_entries B) 8 code_segment 0" "selects (final_gdt_entries B) 0x10 data_segment 0"
    "selects (final_gdt_entries B) 0x23 code_segment 3" "selects (final_gdt_entries B) 0x1B data_segment 3"
    by (simp_all add: selects_def selected_def final_gdt_entries_def initial_gdt_entries_def code_segment_def data_segment_def
        segment_privilege_def)
  have len: "length (final_gdt_entries B) = 7" by (simp add: final_gdt_entries_def initial_gdt_entries_def)
  show ?thesis
    using gdt_init_eq [OF assms, of B]
    by (simp add: idt_init_eq idt_load_def syscall_init_def rdmsr_def wrmsr_def kgets_def kmodify_def star sel segs final_system_base
        gate_for_simps v len GDT_TSS_SEGMENT_def IA32_STAR_def IA32_LSTAR_def IA32_EFER_def IA32_FMASK_def
        kernel_image.defs)
qed

text \<open>The machine as the boot loader leaves it, and an image with its tables at some addresses.\<close>

definition boot_machine :: "(unit, u64, unit, u32 \<times> (u32 \<Rightarrow> u32)) machine_state" where
  "boot_machine = proc_state.extend files_machine (machine_state.fields initial_gdt_entries initial_tss
     (\<lambda>_. \<lparr>isr_low = 0, kernel_cs = 0, gate_ist = 0, attributes = 0, isr_mid = 0, isr_high = 0, gate_reserved = 0\<rparr>)
     \<lparr>idtr_limit = 0, idtr_base = 0\<rparr> \<lparr>next_cpuid = 0, cpu_locals = []\<rparr> \<lparr>gdtr_limit = 0, gdtr_ptr = 0\<rparr>
     \<lparr>idtr_limit = 0, idtr_base = 0\<rparr> 0 0 0 [])"

definition sample_image :: boot_image where
  "sample_image = kernel_image.extend \<lparr>stack_frame = 0x1000, jump_to_ring3 = 0x2000, slash_literal = 0, serial_literal = 0,
     init_literal = 0, init_args = 0, syscall_handler_asm = 0xFFFFFFFF80003000\<rparr>
     (boot_image.fields 0xFFFFFFFF80123456 0xFFFFFFFF80004000 0xFFFFFFFF80005000 (\<lambda>i. 0xFFFFFFFF80006000 + 16 * i) 0xFFFFFFFF80007000)"

theorem descriptor_tables_consistent_witness:
  "\<exists>s'. kbind (gdt_init sample_image) (\<lambda>_. kbind (idt_init sample_image) (\<lambda>_. kbind idt_load (\<lambda>_.
      syscall_init (kernel_image.truncate sample_image)))) boot_machine = Ok ((), s') \<and>
     system_base (gdt_entries s') 0x28 = Some 0xFFFFFFFF80123456 \<and> gate_address (idt s' 0x80) = 0xFFFFFFFF80006800 \<and>
     gate_privilege (idt s' 0x80) = 3 \<and> gate_privilege (idt s' 14) = 0"
proof -
  have g: "gdt_entries boot_machine = initial_gdt_entries" by (simp add: boot_machine_def proc_state.defs machine_state.defs)
  have a: "tss_address sample_image = 0xFFFFFFFF80123456" "irq_vec sample_image 0x80 = 0xFFFFFFFF80006800"
    by (simp_all add: sample_image_def kernel_image.defs boot_image.defs)
  obtain s' where s': "kbind (gdt_init sample_image) (\<lambda>_. kbind (idt_init sample_image) (\<lambda>_. kbind idt_load (\<lambda>_.
      syscall_init (kernel_image.truncate sample_image)))) boot_machine = Ok ((), s')"
    "system_base (gdt_entries s') (ucast GDT_TSS_SEGMENT) = Some (tss_address sample_image)"
    and v: "\<forall>v. gate_address (idt s' v) = irq_vec sample_image (ucast v) \<and> gate_privilege (idt s' v) = (if v = 0x80 then 3 else 0)"
    using descriptor_tables_consistent [OF g, of sample_image] by blast
  show ?thesis using s' v [rule_format, of "0x80"] v [rule_format, of 14] a by (auto simp: GDT_TSS_SEGMENT_def)
qed

text \<open>
  The stack of the double fault starts at the lowest address of its page, so the frame that the
  processor pushes for the fault is on the page below, which was not allocated for it.
\<close>

lemma double_fault_stack_bottom:
  assumes "pool (p # fl) s" and "length (ist (tss s)) = 7"
  shows "\<exists>s'. tss_init_and_load s = Ok ((), s') \<and> ist (tss s') ! 0 = p \<and> pageno (p - 8) \<noteq> pageno p"
proof -
  let ?s = "s\<lparr>tss := (tss s)\<lparr>sp0 := INTSTACK_VIRTUAL_ADDRESS_TOP, io_bitmap_base := 0xFFFF\<rparr>\<rparr>"
  have "pool (p # fl) ?s" using assms(1) by (simp add: pool_def)
  from kalloc_page [OF this] assms(2) have "\<exists>s'. tss_init_and_load s = Ok ((), s') \<and> ist (tss s') ! 0 = p"
    by (simp add: tss_init_and_load_def IST_DOUBLE_FAULT_STACK_INDEX_def)
  moreover have p: "page_aligned p" "p \<noteq> 0" using assms(1) by (simp_all add: pool_def)
  have "pageno (p - 8) \<noteq> pageno p"
  proof
    assume "pageno (p - 8) = pageno p"
    then have "in_region p 4096 (p - 8)" using in_page_iff [OF p(1)] by simp
    then show False by (simp add: in_region_def)
  qed
  ultimately show ?thesis by blast
qed

end
