(* ===== verification/Boot.thy ===== *)
theory Boot
  imports Descriptors
begin

text \<open>
  The entry point of the kernel, \<open>kmain\<close> in \<^verbatim>\<open>src/kernel/init.c\<close>: the components are
  initialised in the order the code has, and the scheduler is entered. What the boot loader answers to
  the requests is a parameter. A call of \<open>halt\<close> never returns.
\<close>

section \<open>Answers of the boot loader\<close>

record limine_responses =
  base_revision_supported :: bool
  hhdm_response :: u64
  memmap_response :: "limine_memmap_entry list"
  kernel_address_response :: limine_kernel_address_response
  framebuffer_response :: "limine_framebuffer list option"

section \<open>The first core\<close>

definition MSR_GS_BASE :: u32 where
  "MSR_GS_BASE = 0xC0000101"

definition sizeof_cpu_local_data :: u64 where
  "sizeof_cpu_local_data = 40"

text \<open>The local data of the core that runs is the slot the GS base points to.\<close>

definition core_setup :: "boot_image \<Rightarrow> (('d, 'p, 'f, 'a, 'z) machine_state_scheme, unit) kern" where
  "core_setup B s = (case cpu_local_setup (cores s) of
     Ok (c, smp') \<Rightarrow>
       let a = cpu_locals_address B + of_nat c * sizeof_cpu_local_data in
       kbind (kmodify (\<lambda>s. s\<lparr>cores := smp', cpu := cpu_local_data.extend (cpu_locals smp' ! c) (cpu.fields (rflags_IF (cpu s)))\<rparr>)) (\<lambda>_.
       kbind (wrmsr MSR_GS_BASE a) (\<lambda>_.
       wrmsr MSR_KERNEL_GS_BASE a)) s
   | Panic e \<Rightarrow> Panic e | Hang \<Rightarrow> Hang | Undef \<Rightarrow> Undef)"

definition say :: "string \<Rightarrow> (('d, 'p, 'z) console_scheme, unit) kern" where
  "say text = kbind (kprintf (chars text @ [10]) []) (\<lambda>_. kret ())"

definition framebuffer_setup :: "limine_responses \<Rightarrow> (('d, 'p, 'z) fb_state_scheme, unit) kern" where
  "framebuffer_setup L = (case framebuffer_response L of Some (fb # _) \<Rightarrow> fb_init fb | _ \<Rightarrow> kret ())"

definition kmain ::
  "limine_responses \<Rightarrow> boot_image \<Rightarrow> 'd nvme_registers \<Rightarrow> ('d, 'p, 'f, 'a, 'z) machine_state_scheme crowfs \<Rightarrow>
   (('d, 'p, 'f, 'a, 'z) machine_state_scheme, unit) kern" where
  "kmain L B R C =
     (if \<not> base_revision_supported L then khang else
      kbind (gdt_init B) (\<lambda>_.
      kbind (core_setup B) (\<lambda>_.
      kbind serial_init (\<lambda>r.
      if r \<noteq> 0 then khang else
      kbind (say ''Serial port initialized'') (\<lambda>_.
      kbind (init_mem (hhdm_response L) (memmap_response L)) (\<lambda>total_free_pages.
      kbind (kprintf (chars ''Memory initialized with %lu free pages'' @ [10]) [total_free_pages]) (\<lambda>_.
      kbind (vmm_init_kernel (kernel_address_response L)) (\<lambda>_.
      kbind (say ''Kernel memory layout changed'') (\<lambda>_.
      kbind tss_init_and_load (\<lambda>_.
      kbind rtc_init (\<lambda>_.
      kbind (framebuffer_setup L) (\<lambda>_.
      kbind ioapic_init (\<lambda>_.
      kbind serial_init_interrupt (\<lambda>_.
      kbind (say ''IO APIC initialized'') (\<lambda>_.
      kbind (nvme_init R) (\<lambda>_.
      kbind (say ''Initialized NVMe'') (\<lambda>_.
      kbind (fs_init C) (\<lambda>_.
      kbind (say ''Initialized file system'') (\<lambda>_.
      kbind (idt_init B) (\<lambda>_.
      kbind (say ''IDT initialized'') (\<lambda>_.
      kbind (scheduler_init (kernel_image.truncate B) C) (\<lambda>_.
      kbind lapic_init (\<lambda>_.
      kbind idt_load (\<lambda>_.
      kbind (syscall_init (kernel_image.truncate B)) (\<lambda>_.
      say ''Master Core Initiated'')))))))))))))))))))))))))"

end
