(* ===== verification/User_String.thy ===== *)
theory User_String
  imports Lib
begin

text \<open>
  The string routines of the user library: \<^verbatim>\<open>src/user/libc/string.c\<close>,
  \<^verbatim>\<open>ctype.c\<close> and the number routines of \<^verbatim>\<open>stdlib.c\<close>. The memory
  routines and some string routines have the same text as the kernel's and share their loops. A pointer
  result that is \<open>NULL\<close> is 0. \<open>char\<close> is signed.
\<close>

section \<open>Characters and numbers\<close>

definition user_isspace :: "u32 \<Rightarrow> u32" where
  "user_isspace c = (if c = 32 then 1 else 0)"

definition user_toupper :: "u32 \<Rightarrow> u32" where
  "user_toupper c = (if 97 \<le> sint c \<and> sint c \<le> 122 then c + (65 - 97) else c)"

text \<open>\<open>-a\<close> of the least \<open>int\<close> is undefined.\<close>

definition user_abs :: "u32 \<Rightarrow> u32 option" where
  "user_abs a = (if 0 < sint a then Some a else if a = 0x80000000 then None else Some (- a))"

text \<open>\<open>int\<close> arithmetic that overflows is undefined: \<open>None\<close> inside the result.\<close>

definition atoi_digit :: "int \<Rightarrow> u8 \<Rightarrow> int option" where
  "atoi_digit n c =
     (let a = n * 10; b = a + sint c; r = b - 48
      in if a < - (2 ^ 31) \<or> 2 ^ 31 \<le> a \<or> b < - (2 ^ 31) \<or> 2 ^ 31 \<le> b \<or> r < - (2 ^ 31) \<or> 2 ^ 31 \<le> r then None else Some r)"

partial_function (option) atoi_from :: "u64 \<Rightarrow> int \<Rightarrow> mem \<Rightarrow> int option option" where
  "atoi_from s n m =
     (if 48 \<le> sint (m s) \<and> sint (m s) \<le> 57
      then (case atoi_digit n (m s) of None \<Rightarrow> Some None | Some n' \<Rightarrow> atoi_from (s + 1) n' m)
      else Some (Some n))"

definition user_atoi :: "u64 \<Rightarrow> mem \<Rightarrow> int option option" where
  "user_atoi s m = atoi_from s 0 m"

section \<open>Memory\<close>

definition user_memcpy :: "u64 \<Rightarrow> u64 \<Rightarrow> u64 \<Rightarrow> mem \<Rightarrow> mem" where
  "user_memcpy dest src n m = memcpy_loop (unat n) dest src 0 m"

definition user_memset :: "u64 \<Rightarrow> u32 \<Rightarrow> u64 \<Rightarrow> mem \<Rightarrow> mem" where
  "user_memset s c n m = memset_loop (unat n) s (ucast c) 0 m"

definition user_memmove :: "u64 \<Rightarrow> u64 \<Rightarrow> u64 \<Rightarrow> mem \<Rightarrow> mem" where
  "user_memmove dest src n m =
     (if dest < src then memcpy_loop (unat n) dest src 0 m
      else if src < dest then memmove_down_loop (unat n) dest src m
      else m)"

definition user_memcmp :: "u64 \<Rightarrow> u64 \<Rightarrow> u64 \<Rightarrow> mem \<Rightarrow> int" where
  "user_memcmp s1 s2 n m = memcmp_loop (unat n) s1 s2 0 m"

section \<open>Strings\<close>

partial_function (option) user_strcpy :: "u64 \<Rightarrow> u64 \<Rightarrow> mem \<Rightarrow> mem option" where
  "user_strcpy s t m =
     (let m' = m(s := m t) in if m t \<noteq> 0 then user_strcpy (s + 1) (t + 1) m' else Some m')"

primrec strncpy_loop :: "nat \<Rightarrow> u64 \<Rightarrow> u64 \<Rightarrow> mem \<Rightarrow> mem" where
  "strncpy_loop 0 d s m = m"
| "strncpy_loop (Suc k) d s m =
     (let m' = m(d := m s) in
      if m s = 0 then memset_loop k (d + 1) 0 0 m' else strncpy_loop k (d + 1) (s + 1) m')"

definition user_strncpy :: "u64 \<Rightarrow> u64 \<Rightarrow> u64 \<Rightarrow> mem \<Rightarrow> mem" where
  "user_strncpy dst src n m = strncpy_loop (unat n) dst src m"

partial_function (option) user_strcmp :: "u64 \<Rightarrow> u64 \<Rightarrow> mem \<Rightarrow> int option" where
  "user_strcmp p q m =
     (if m p \<noteq> 0 \<and> m p = m q then user_strcmp (p + 1) (q + 1) m
      else Some (uint (m p) - uint (m q)))"

definition user_strncmp :: "u64 \<Rightarrow> u64 \<Rightarrow> u64 \<Rightarrow> mem \<Rightarrow> int" where
  "user_strncmp s1 s2 n m = (if n = 0 then 0 else strncmp_loop (unat n) s1 s2 m)"

definition upper :: "u8 \<Rightarrow> u32" where
  "upper c = user_toupper (scast c)"

partial_function (option) user_strcasecmp :: "u64 \<Rightarrow> u64 \<Rightarrow> mem \<Rightarrow> int option" where
  "user_strcasecmp p q m =
     (if m p \<noteq> 0 \<and> upper (m p) = upper (m q) then user_strcasecmp (p + 1) (q + 1) m
      else Some (uint (m p) - uint (m q)))"

primrec strncasecmp_loop :: "nat \<Rightarrow> u64 \<Rightarrow> u64 \<Rightarrow> mem \<Rightarrow> int" where
  "strncasecmp_loop 0 s1 s2 m = 0"
| "strncasecmp_loop (Suc k) s1 s2 m =
     (if upper (m s1) \<noteq> upper (m s2) then uint (m s1) - uint (m s2)
      else if m s1 = 0 then 0
      else strncasecmp_loop k (s1 + 1) (s2 + 1) m)"

definition user_strncasecmp :: "u64 \<Rightarrow> u64 \<Rightarrow> u64 \<Rightarrow> mem \<Rightarrow> int" where
  "user_strncasecmp s1 s2 n m = (if n = 0 then 0 else strncasecmp_loop (unat n) s1 s2 m)"

definition user_strlen :: "u64 \<Rightarrow> mem \<Rightarrow> u64 option" where
  "user_strlen s m = strlen_from s 0 m"

partial_function (option) user_strchr :: "u64 \<Rightarrow> u8 \<Rightarrow> mem \<Rightarrow> u64 option" where
  "user_strchr s c m =
     (if m s = 0 then Some 0 else if m s = c then Some s else user_strchr (s + 1) c m)"

partial_function (option) strrchr_from :: "u64 \<Rightarrow> u8 \<Rightarrow> u64 \<Rightarrow> mem \<Rightarrow> u64 option" where
  "strrchr_from p c save m =
     (let save' = (if m p = c then p else save) in
      if m p = 0 then Some save' else strrchr_from (p + 1) c save' m)"

definition user_strrchr :: "u64 \<Rightarrow> u8 \<Rightarrow> mem \<Rightarrow> u64 option" where
  "user_strrchr p c m = strrchr_from p c 0 m"

text \<open>The inner loop of \<open>strstr\<close> stops behind the next byte equal to \<open>c\<close>, or at the end.\<close>

partial_function (option) strstr_skip :: "u64 \<Rightarrow> u8 \<Rightarrow> mem \<Rightarrow> u64 option option" where
  "strstr_skip s c m =
     (if m s = 0 then Some None else if m s \<noteq> c then strstr_skip (s + 1) c m else Some (Some (s + 1)))"

partial_function (option) strstr_loop :: "u64 \<Rightarrow> u8 \<Rightarrow> u64 \<Rightarrow> u64 \<Rightarrow> mem \<Rightarrow> u64 option" where
  "strstr_loop s c fnd len m =
     (case strstr_skip s c m of
        None \<Rightarrow> None
      | Some None \<Rightarrow> Some 0
      | Some (Some s') \<Rightarrow> if user_strncmp s' fnd len m \<noteq> 0 then strstr_loop s' c fnd len m else Some (s' - 1))"

definition user_strstr :: "u64 \<Rightarrow> u64 \<Rightarrow> mem \<Rightarrow> u64 option" where
  "user_strstr s fnd m =
     (if m fnd \<noteq> 0
      then (case user_strlen (fnd + 1) m of None \<Rightarrow> None | Some len \<Rightarrow> strstr_loop s (m fnd) (fnd + 1) len m)
      else Some s)"

section \<open>Correctness\<close>

lemma user_same_text:
  "user_memcpy = memcpy" "user_memset = memset" "user_memmove = memmove" "user_memcmp = memcmp" "user_strncmp = strncmp"
  "user_strlen = strlen"
  by (simp_all add: fun_eq_iff user_memcpy_def memcpy_def user_memset_def memset_def user_memmove_def memmove_def
      user_memcmp_def memcmp_def user_strncmp_def strncmp_def user_strlen_def strlen_def)

lemma cstr_length:
  assumes "cstr m p xs"
  shows "length xs < 18446744073709551616"
proof (rule ccontr)
  assume "\<not> ?thesis"
  then obtain k where k: "length xs = k + 18446744073709551616" using le_Suc_ex [of 18446744073709551616 "length xs"] by auto
  then have e: "of_nat (length xs) = (of_nat k :: u64)" by (simp add: word_unat_eq_iff unsigned_of_nat take_bit_eq_mod del: of_nat_add)
  have "xs ! k = m (p + of_nat k)" using assms k load_bytes_nth [of k "length xs" m p] by (simp add: cstr_def)
  also have "\<dots> = 0" using assms by (simp add: cstr_def e)
  finally show False using assms k nth_mem [of k xs] by (simp add: cstr_def)
qed

text \<open>The address of the first byte \<open>c\<close>, and of the last one, in a string.\<close>

lemma user_strchr_cstr:
  "cstr m s xs \<Longrightarrow> user_strchr s c m =
     Some (if c \<in> set xs then s + of_nat (length (takeWhile (\<lambda>x. x \<noteq> c) xs)) else 0)"
proof (induction xs arbitrary: s)
  case Nil
  then show ?case by (subst user_strchr.simps) simp
next
  case (Cons x xs)
  then show ?case by (subst user_strchr.simps) (auto simp: algebra_simps)
qed

text \<open>The reference: the first position where \<open>ys\<close> stands in \<open>xs\<close>.\<close>

definition first_match :: "u8 list \<Rightarrow> u8 list \<Rightarrow> nat option" where
  "first_match ys xs = List.find (\<lambda>i. take (length ys) (drop i xs) = ys) [0..<Suc (length xs)]"

lemma find_map: "List.find P (map f xs) = map_option f (List.find (P \<circ> f) xs)"
  by (induction xs) auto

lemma first_match_simps:
  "ys \<noteq> [] \<Longrightarrow> first_match ys [] = None"
  "first_match ys (x # xs) = (if take (length ys) (x # xs) = ys then Some 0 else map_option Suc (first_match ys xs))"
  "first_match [] xs = Some 0"
proof -
  show "ys \<noteq> [] \<Longrightarrow> first_match ys [] = None" by (auto simp: first_match_def)
  have u: "[0..<Suc (Suc n)] = 0 # map Suc [0..<Suc n]" for n
    by (simp add: upt_conv_Cons map_Suc_upt del: upt_Suc)
  show "first_match ys (x # xs) = (if take (length ys) (x # xs) = ys then Some 0 else map_option Suc (first_match ys xs))"
    unfolding first_match_def list.size add_0_right add_Suc_right u by (simp add: find_map comp_def del: upt_Suc)
  show "first_match [] xs = Some 0"
    by (simp add: first_match_def upt_conv_Cons del: upt_Suc)
qed

lemma strncmp_prefix:
  assumes "cstr m p xs" and "cstr m q ys"
  shows "user_strncmp p q (of_nat (length ys)) m = 0 \<longleftrightarrow> take (length ys) xs = ys"
proof -
  have l: "unat (of_nat (length ys) :: u64) = length ys" using cstr_length [OF assms(2)] by (rule unat_of_nat64)
  have "user_strncmp p q (of_nat (length ys)) m = cstr_diff (take (length ys) xs) ys"
    using strncmp_loop_cstr [OF assms, of "length ys"] l by (auto simp: user_strncmp_def word_unat_eq_iff)
  moreover have "0 \<notin> set (take (length ys) xs)" "0 \<notin> set ys" using assms by (auto simp: cstr_def dest: in_set_takeD)
  ultimately show ?thesis by (simp add: cstr_diff_zero)
qed

lemma strstr_loop_cstr:
  assumes "cstr m fnd ys" and "c \<noteq> 0"
  shows "cstr m s xs \<Longrightarrow> strstr_loop s c fnd (of_nat (length ys)) m =
    Some (case first_match (c # ys) xs of None \<Rightarrow> 0 | Some i \<Rightarrow> s + of_nat i)"
proof (induction xs arbitrary: s)
  case Nil
  then show ?case using assms by (subst strstr_loop.simps, subst strstr_skip.simps) (simp add: first_match_simps)
next
  case (Cons x xs)
  then have x: "m s = x" "x \<noteq> 0" and xs: "cstr m (s + 1) xs" by auto
  show ?case
  proof (cases "x = c")
    case False
    then have "strstr_skip s c m = strstr_skip (s + 1) c m" using x by (subst strstr_skip.simps) simp
    then have "strstr_loop s c fnd (of_nat (length ys)) m = strstr_loop (s + 1) c fnd (of_nat (length ys)) m"
      by (subst (1 2) strstr_loop.simps) simp
    then show ?thesis using Cons.IH [OF xs] False by (auto simp: first_match_simps split: option.splits)
  next
    case True
    then have "strstr_skip s c m = Some (Some (s + 1))" using x by (subst strstr_skip.simps) simp
    then show ?thesis using Cons.IH [OF xs] True strncmp_prefix [OF xs assms(1)]
      by (subst strstr_loop.simps) (auto simp: first_match_simps split: option.splits)
  qed
qed

text \<open>
  C36. On NUL-terminated strings \<open>strstr\<close> always returns, and it computes the reference search: a
  pointer to the first position at which the second string stands in the first, \<open>NULL\<close> when there is
  none, and the first string itself for an empty pattern.
\<close>

theorem user_strstr_equiv:
  assumes "cstr m s xs" and "cstr m fnd ys"
  shows "user_strstr s fnd m = Some (case first_match ys xs of None \<Rightarrow> 0 | Some i \<Rightarrow> s + of_nat i)"
proof (cases ys)
  case Nil
  then show ?thesis using assms by (simp add: user_strstr_def first_match_simps)
next
  case (Cons c zs)
  then have c: "m fnd = c" "c \<noteq> 0" "cstr m (fnd + 1) zs" using assms(2) by simp_all
  have "user_strlen (fnd + 1) m = Some (of_nat (length zs))" using strlen_cstr [OF c(3)] by (simp add: user_same_text)
  then show ?thesis using c strstr_loop_cstr [OF c(3,2) assms(1)] by (simp add: user_strstr_def Cons)
qed

definition haystack :: mem where
  "haystack = store_bytes (store_bytes (\<lambda>_. 0) 100 (map of_char ''banana'')) 200 (map of_char ''nan'')"

theorem user_strstr_equiv_witness: "user_strstr 100 200 haystack = Some 102"
proof -
  have "cstr haystack 100 (map of_char ''banana'')" "cstr haystack 200 (map of_char ''nan'')" by code_simp+
  moreover have "first_match (map of_char ''nan'') (map of_char ''banana'') = Some 2" by code_simp
  ultimately show ?thesis using user_strstr_equiv [of haystack 100 "map of_char ''banana''" 200 "map of_char ''nan''"] by simp
qed

text \<open>
  Strings that differ only in case compare equal, but the order of others is that of the bytes as they
  are: \<^verbatim>\<open>"a"\<close> comes after \<^verbatim>\<open>"B"\<close>.
\<close>

lemma user_strcasecmp_cstr:
  "cstr m p xs \<Longrightarrow> cstr m q ys \<Longrightarrow> map upper xs = map upper ys \<Longrightarrow> user_strcasecmp p q m = Some 0"
proof (induction xs arbitrary: p q ys)
  case Nil
  then show ?case by (subst user_strcasecmp.simps) simp
next
  case (Cons x xs)
  then show ?case by (cases ys) (simp_all, subst user_strcasecmp.simps, auto)
qed

lemma user_strcasecmp_order: "cstr m p [97] \<Longrightarrow> cstr m q [66] \<Longrightarrow> user_strcasecmp p q m = Some 31"
  by (subst user_strcasecmp.simps) (simp add: upper_def user_toupper_def)

end
