(* ===== verification/User_Malloc.thy ===== *)
theory User_Malloc
  imports User_String
begin

text \<open>
  The allocator of the user library, \<^verbatim>\<open>src/user/libc/malloc.c\<close>, and \<open>strdup\<close>. Free blocks
  form a circular list through the static header \<open>base\<close>, whose address is a parameter, as is the call
  \<open>sbrk\<close>; what the kernel keeps of the process is a value of any type \<open>'w\<close>. A header is a pointer
  and a size in units of headers, 16 bytes. The loops walk a list in memory, so they are
  \<^theory_text>\<open>partial_function (option)\<close>.
\<close>

section \<open>The allocator\<close>

record 'w heap =
  hmem :: mem
  freep :: u64
  world :: 'w

definition sizeof_Header :: u64 where
  "sizeof_Header = 16"

partial_function (option) free_search :: "u64 \<Rightarrow> u64 \<Rightarrow> mem \<Rightarrow> u64 option" where
  "free_search bp p m =
     (if p < bp \<and> bp < load64 m p then Some p
      else if load64 m p \<le> p \<and> (p < bp \<or> bp < load64 m p) then Some p
      else free_search bp (load64 m p) m)"

definition join_upper :: "u64 \<Rightarrow> u64 \<Rightarrow> mem \<Rightarrow> mem" where
  "join_upper bp p m =
     (if bp + load64 m (bp + 8) * sizeof_Header = load64 m p
      then let m' = store64 m (bp + 8) (load64 m (bp + 8) + load64 m (load64 m p + 8))
           in store64 m' bp (load64 m' (load64 m' p))
      else store64 m bp (load64 m p))"

definition join_lower :: "u64 \<Rightarrow> u64 \<Rightarrow> mem \<Rightarrow> mem" where
  "join_lower bp p m =
     (if p + load64 m (p + 8) * sizeof_Header = bp
      then let m' = store64 m (p + 8) (load64 m (p + 8) + load64 m (bp + 8)) in store64 m' p (load64 m' bp)
      else store64 m p bp)"

definition user_free :: "u64 \<Rightarrow> 'w heap \<Rightarrow> 'w heap option" where
  "user_free ap h =
     (if ap = 0 then Some h
      else let bp = ap - sizeof_Header
           in case free_search bp (freep h) (hmem h) of
                None \<Rightarrow> None
              | Some p \<Rightarrow> Some (h\<lparr>hmem := join_lower bp p (join_upper bp p (hmem h)), freep := p\<rparr>))"

definition morecore :: "(u64 \<Rightarrow> 'w heap \<Rightarrow> u64 \<times> 'w heap) \<Rightarrow> u64 \<Rightarrow> 'w heap \<Rightarrow> (u64 \<times> 'w heap) option" where
  "morecore sbrk nu h =
     (let nu' = (if nu < 4096 then 4096 else nu); (p, h1) = sbrk (nu' * sizeof_Header) h
      in if p = -1 then Some (0, h1)
         else case user_free (p + sizeof_Header) (h1\<lparr>hmem := store64 (hmem h1) (p + 8) nu'\<rparr>) of
                None \<Rightarrow> None
              | Some h2 \<Rightarrow> Some (freep h2, h2))"

text \<open>A block that is large enough: all of it, or its tail.\<close>

definition malloc_take :: "u64 \<Rightarrow> u64 \<Rightarrow> u64 \<Rightarrow> 'w heap \<Rightarrow> u64 \<times> 'w heap" where
  "malloc_take nunits prevp p h =
     (let m = hmem h in
      if load64 m (p + 8) = nunits
      then (p + sizeof_Header, h\<lparr>hmem := store64 m prevp (load64 m p), freep := prevp\<rparr>)
      else let m1 = store64 m (p + 8) (load64 m (p + 8) - nunits);
               p' = p + load64 m1 (p + 8) * sizeof_Header
           in (p' + sizeof_Header, h\<lparr>hmem := store64 m1 (p' + 8) nunits, freep := prevp\<rparr>))"

partial_function (option) malloc_loop ::
  "(u64 \<Rightarrow> 'w heap \<Rightarrow> u64 \<times> 'w heap) \<Rightarrow> u64 \<Rightarrow> u64 \<Rightarrow> u64 \<Rightarrow> 'w heap \<Rightarrow> (u64 \<times> 'w heap) option" where
  "malloc_loop sbrk nunits prevp p h =
     (if nunits \<le> load64 (hmem h) (p + 8) then Some (malloc_take nunits prevp p h)
      else if p = freep h
      then (case morecore sbrk nunits h of
              None \<Rightarrow> None
            | Some (q, h1) \<Rightarrow> if q = 0 then Some (0, h1) else malloc_loop sbrk nunits q (load64 (hmem h1) q) h1)
      else malloc_loop sbrk nunits p (load64 (hmem h) p) h)"

definition malloc_units :: "u64 \<Rightarrow> u64" where
  "malloc_units nbytes = (nbytes + sizeof_Header - 1) div sizeof_Header + 1"

definition user_malloc :: "u64 \<Rightarrow> (u64 \<Rightarrow> 'w heap \<Rightarrow> u64 \<times> 'w heap) \<Rightarrow> u64 \<Rightarrow> 'w heap \<Rightarrow> (u64 \<times> 'w heap) option" where
  "user_malloc bse sbrk nbytes h =
     (let nunits = malloc_units nbytes;
          h1 = (if freep h = 0 then h\<lparr>hmem := store64 (store64 (hmem h) bse bse) (bse + 8) 0, freep := bse\<rparr> else h)
      in malloc_loop sbrk nunits (freep h1) (load64 (hmem h1) (freep h1)) h1)"

definition user_calloc ::
  "u64 \<Rightarrow> (u64 \<Rightarrow> 'w heap \<Rightarrow> u64 \<times> 'w heap) \<Rightarrow> u64 \<Rightarrow> u64 \<Rightarrow> 'w heap \<Rightarrow> (u64 \<times> 'w heap) option" where
  "user_calloc bse sbrk nmemb sz h =
     (case user_malloc bse sbrk (nmemb * sz) h of
        None \<Rightarrow> None
      | Some (data, h1) \<Rightarrow>
          if data = 0 then Some (0, h1) else Some (data, h1\<lparr>hmem := user_memset data 0 (nmemb * sz) (hmem h1)\<rparr>))"

definition user_realloc ::
  "u64 \<Rightarrow> (u64 \<Rightarrow> 'w heap \<Rightarrow> u64 \<times> 'w heap) \<Rightarrow> u64 \<Rightarrow> u64 \<Rightarrow> 'w heap \<Rightarrow> (u64 \<times> 'w heap) option" where
  "user_realloc bse sbrk ptr sz h =
     (if ptr = 0 then user_malloc bse sbrk sz h
      else if sz = 0 then (case user_free ptr h of None \<Rightarrow> None | Some h1 \<Rightarrow> Some (0, h1))
      else if sz = load64 (hmem h) (ptr - sizeof_Header + 8) then Some (ptr, h)
      else case user_malloc bse sbrk sz h of
             None \<Rightarrow> None
           | Some (new_data, h1) \<Rightarrow>
               let old = load64 (hmem h1) (ptr - sizeof_Header + 8)
               in Some (new_data, h1\<lparr>hmem := user_memcpy new_data ptr (if sz < old then sz else old) (hmem h1)\<rparr>))"

definition user_strdup :: "u64 \<Rightarrow> (u64 \<Rightarrow> 'w heap \<Rightarrow> u64 \<times> 'w heap) \<Rightarrow> u64 \<Rightarrow> 'w heap \<Rightarrow> (u64 \<times> 'w heap) option" where
  "user_strdup bse sbrk s h =
     (case user_strlen s (hmem h) of
        None \<Rightarrow> None
      | Some string_length \<Rightarrow>
          (case user_malloc bse sbrk (string_length + 1) h of
             None \<Rightarrow> None
           | Some (new_string, h1) \<Rightarrow>
               if new_string = 0 then Some (0, h1)
               else Some (new_string, h1\<lparr>hmem := user_memcpy new_string s (string_length + 1) (hmem h1)\<rparr>)))"

section \<open>Addresses as numbers\<close>

abbreviation W :: "nat \<Rightarrow> u64" where
  "W \<equiv> of_nat"

abbreviation SPACE :: nat where
  "SPACE \<equiv> 18446744073709551616"

lemma W_less: "a < SPACE \<Longrightarrow> b < SPACE \<Longrightarrow> W a < W b \<longleftrightarrow> a < b"
  and W_le: "a < SPACE \<Longrightarrow> b < SPACE \<Longrightarrow> W a \<le> W b \<longleftrightarrow> a \<le> b"
  and W_eq: "a < SPACE \<Longrightarrow> b < SPACE \<Longrightarrow> W a = W b \<longleftrightarrow> a = b"
  by (simp_all add: word_less_nat_alt word_le_nat_alt word_unat_eq_iff unat_of_nat64)

lemma W_offset: "W (a + 8) = W a + 8" "W (a + 16) = W a + 16" "W (a + 16 * s) = W a + W s * 16"
  by (simp_all add: algebra_simps)

lemma cell_region: "a + 8 \<le> SPACE \<Longrightarrow> in_region (W a) 8 x \<longleftrightarrow> a \<le> unat x \<and> unat x < a + 8"
  by (auto simp: in_region_def unat_diff_cases unat_of_nat64)

lemma store_byte: "a + 8 \<le> SPACE \<Longrightarrow> unat x < a \<or> a + 8 \<le> unat x \<Longrightarrow> store64 m (W a) v x = m x"
  by (rule store64_outside) (auto simp: cell_region)

lemma load_apart:
  "a + 8 \<le> SPACE \<Longrightarrow> b + 8 \<le> SPACE \<Longrightarrow> a + 8 \<le> b \<or> b + 8 \<le> a \<Longrightarrow> load64 (store64 m (W a) v) (W b) = load64 m (W b)"
  by (rule load64_cong, rule store_byte) (auto simp: cell_region)

section \<open>The free list\<close>

text \<open>
  A block is the address of its header and its size in units. The blocks \<open>fs\<close> are linked from the
  header at \<open>a\<close> on, and the last of them points to \<open>b\<close>.
\<close>

type_synonym block = "nat \<times> nat"

primrec chain :: "mem \<Rightarrow> nat \<Rightarrow> block list \<Rightarrow> nat \<Rightarrow> bool" where
  "chain m a [] b \<longleftrightarrow> load64 m (W a) = W b"
| "chain m a (f # fs) b \<longleftrightarrow>
     load64 m (W a) = W (fst f) \<and> load64 m (W (fst f + 8)) = W (snd f) \<and> chain m (fst f) fs b"

definition fin :: "block \<Rightarrow> nat" where
  "fin b = fst b + 16 * max 1 (snd b)"

definition before :: "block \<Rightarrow> block \<Rightarrow> bool" where
  "before b c \<longleftrightarrow> fin b \<le> fst c"

definition disjoint :: "block \<Rightarrow> block \<Rightarrow> bool" where
  "disjoint b c \<longleftrightarrow> before b c \<or> before c b"

definition size_of :: "mem \<Rightarrow> block \<Rightarrow> bool" where
  "size_of m b \<longleftrightarrow> load64 m (W (fst b + 8)) = W (snd b)"

lemma chain_append:
  "chain m a (xs @ f # ys) b \<longleftrightarrow> chain m a xs (fst f) \<and> size_of m f \<and> chain m (fst f) ys b"
  by (induction xs arbitrary: a) (auto simp: size_of_def)

lemma chain_move:
  assumes "chain m a fs b" and "load64 m' (W a') = load64 m (W a)"
    and "\<And>f. f \<in> set fs \<Longrightarrow> load64 m' (W (fst f)) = load64 m (W (fst f)) \<and> load64 m' (W (fst f + 8)) = load64 m (W (fst f + 8))"
  shows "chain m' a' fs b"
  using assms
proof (induction fs arbitrary: a a')
  case (Cons f fs)
  then show ?case using Cons.IH [of "fst f" "fst f"] by (auto simp del: of_nat_add)
qed auto

lemma chain_last:
  "chain m a (xs @ ys) b \<longleftrightarrow>
     (xs \<noteq> [] \<longrightarrow> chain m a (butlast xs) (fst (last xs)) \<and> size_of m (last xs)) \<and>
     chain m (if xs = [] then a else fst (last xs)) ys b"
  by (cases xs rule: rev_cases) (auto simp: chain_append)

lemma chain_next:
  "chain m a fs b \<Longrightarrow> i < Suc (length fs) \<Longrightarrow>
     load64 m (W (fst (((a, s) # fs) ! i))) = W (if i = length fs then b else fst (fs ! i))"
proof (induction fs arbitrary: a s i)
  case (Cons f fs)
  then show ?case using Cons.IH [of "fst f" "i - 1" "snd f"] by (cases i) auto
qed simp

lemma chain_size: "chain m a fs b \<Longrightarrow> f \<in> set fs \<Longrightarrow> size_of m f"
  by (induction fs arbitrary: a) (auto simp: size_of_def)

lemma fin_bounds: "fst b + 16 \<le> fin b" "fst b + 16 * snd b \<le> fin b" "1 \<le> snd b \<Longrightarrow> fin b = fst b + 16 * snd b"
  by (auto simp: fin_def max_def)

lemma before_trans: "before a b \<Longrightarrow> before b c \<Longrightarrow> before a c"
  using fin_bounds(1) [of b] by (simp add: before_def)

lemma before_cells: "before b c \<Longrightarrow> fst b + 16 \<le> fst c"
  using fin_bounds(1) [of b] by (simp add: before_def)

text \<open>
  The state of the allocator: the free blocks in ascending order above \<open>base\<close> and below the break,
  linked in a circle, and the blocks in use, which keep their size in their header. No two of all these
  blocks overlap.
\<close>

definition free_ok :: "nat \<Rightarrow> nat \<Rightarrow> mem \<Rightarrow> block list \<Rightarrow> bool" where
  "free_ok bse lim m fs \<longleftrightarrow> 0 < bse \<and> bse + 16 \<le> lim \<and> lim < SPACE \<and> sorted_wrt before ((bse, 0) # fs) \<and>
     (\<forall>f\<in>set fs. 1 \<le> snd f \<and> fin f \<le> lim) \<and> size_of m (bse, 0) \<and> chain m bse fs bse"

definition used_ok :: "nat \<Rightarrow> nat \<Rightarrow> mem \<Rightarrow> block list \<Rightarrow> block set \<Rightarrow> bool" where
  "used_ok bse lim m fs al \<longleftrightarrow>
     (\<forall>b\<in>al. 1 \<le> snd b \<and> before (bse, 0) b \<and> fin b \<le> lim \<and> size_of m b \<and> (\<forall>f\<in>set fs. disjoint b f)) \<and>
     (\<forall>b\<in>al. \<forall>c\<in>al. b \<noteq> c \<longrightarrow> disjoint b c)"

definition heap_ok :: "('w \<Rightarrow> nat) \<Rightarrow> nat \<Rightarrow> 'w heap \<Rightarrow> block list \<Rightarrow> block set \<Rightarrow> bool" where
  "heap_ok brk bse h fs al \<longleftrightarrow> free_ok bse (brk (world h)) (hmem h) fs \<and> used_ok bse (brk (world h)) (hmem h) fs al \<and>
     (\<exists>f\<in>set ((bse, 0) # fs). freep h = W (fst f))"

text \<open>The bytes of a block.\<close>

definition in_block :: "block \<Rightarrow> u64 \<Rightarrow> bool" where
  "in_block b x \<longleftrightarrow> fst b \<le> unat x \<and> unat x < fin b"

definition in_header :: "block \<Rightarrow> u64 \<Rightarrow> bool" where
  "in_header b x \<longleftrightarrow> fst b \<le> unat x \<and> unat x < fst b + 16"

section \<open>Returning a block\<close>

text \<open>The search of \<open>free\<close> ends at the last header below the block, wherever it starts.\<close>

lemma sorted_nth: "sorted_wrt before ns \<Longrightarrow> i < j \<Longrightarrow> j < length ns \<Longrightarrow> fst (ns ! i) + 16 \<le> fst (ns ! j)"
  using before_cells by (auto simp: sorted_wrt_iff_nth_less)

definition last_below :: "nat \<Rightarrow> block list \<Rightarrow> nat" where
  "last_below bse xs = (if xs = [] then bse else fst (last xs))"

lemma last_below_nth: "last_below bse xs = fst (((bse, s) # xs @ ys) ! length xs)"
  by (cases xs rule: rev_cases) (simp_all add: last_below_def nth_append nth_Cons')

lemma free_search_finds:
  assumes ok: "free_ok bse lim m (xs @ ys)" and lo: "\<forall>f\<in>set ((bse, 0) # xs). fst f < a" and hi: "\<forall>f\<in>set ys. a < fst f"
    and "a < SPACE" and k: "k < Suc (length (xs @ ys))"
  shows "free_search (W a) (W (fst (((bse, 0) # xs @ ys) ! k))) m = Some (W (last_below bse xs))"
proof -
  define A where "A i = fst (((bse, 0) # xs @ ys) ! i)" for i
  let ?t = "length xs" and ?n = "length (xs @ ys)"
  have fs: "sorted_wrt before ((bse, 0) # xs @ ys)" "chain m bse (xs @ ys) bse" "\<forall>f\<in>set (xs @ ys). fin f \<le> lim" "bse < lim" "lim < SPACE"
    using ok by (auto simp: free_ok_def)
  have nxt: "load64 m (W (A i)) = W (if i = ?n then bse else A (Suc i))" if "i \<le> ?n" for i
    using chain_next [OF fs(2), of i 0] that by (simp add: A_def)
  have sp: "A i < SPACE" if "i \<le> ?n" for i
  proof (cases i)
    case (Suc j)
    then have "(xs @ ys) ! j \<in> set (xs @ ys)" using that by (intro nth_mem) simp
    then show ?thesis using fs(3,5) fin_bounds(1) [of "(xs @ ys) ! j"] Suc by (fastforce simp: A_def)
  qed (use fs(4,5) in \<open>simp add: A_def\<close>)
  have less: "A i < A j" if "i < j" "j \<le> ?n" for i j using sorted_nth [OF fs(1) that(1)] that(2) by (simp add: A_def)
  have low: "A i < a" if "i \<le> ?t" for i
    using lo that nth_mem [of i "(bse, 0) # xs"] by (auto simp: A_def nth_append nth_Cons' simp del: nth_mem)
  have high: "a < A i" if "?t < i" "i \<le> ?n" for i
    using hi that nth_mem [of "i - Suc ?t" ys] by (auto simp: A_def nth_append nth_Cons' simp del: nth_mem)
  have b: "bse = A 0" by (simp add: A_def)
  have up: "free_search (W a) (W (A i)) m = Some (W (A ?t))" if "i \<le> ?t" for i
    using that
  proof (induction rule: inc_induct)
    case base
    have "ys \<noteq> [] \<Longrightarrow> Suc 0 \<le> length ys" by (cases ys) simp_all
    then show ?case
      by (subst free_search.simps, cases "ys = []"; cases "xs = []")
        (use nxt [of ?t] low [of ?t] low [of 0] high [of "Suc ?t"] sp [of ?t] sp [of 0] sp [of "Suc ?t"] \<open>a < SPACE\<close> b
          less [of 0 ?t] in \<open>auto simp: W_less W_le\<close>)
  next
    case (step i)
    then show ?case
      by (subst free_search.simps)
        (use nxt [of i] low [of i] low [of "Suc i"] sp [of i] sp [of "Suc i"] \<open>a < SPACE\<close> less [of i "Suc i"] in \<open>auto simp: W_less W_le\<close>)
  qed
  have down: "free_search (W a) (W (A i)) m = free_search (W a) (W (A 0)) m" if "?t < i" "i \<le> ?n" for i
    using that(2,1)
  proof (induction rule: inc_induct)
    case base
    then show ?case
      by (subst free_search.simps)
        (use nxt [of ?n] high [of ?n] low [of 0] sp [of ?n] sp [of 0] \<open>a < SPACE\<close> b in \<open>auto simp: W_less W_le\<close>)
  next
    case (step i)
    then show ?case
      by (subst free_search.simps)
        (use nxt [of i] high [of i] sp [of i] sp [of "Suc i"] \<open>a < SPACE\<close> less [of i "Suc i"] in \<open>auto simp: W_less W_le\<close>)
  qed
  have "A ?t = last_below bse xs" by (simp add: A_def last_below_nth [where s = 0 and ys = ys])
  then show ?thesis using up [of k] up [of 0] down [of k] k by (cases "k \<le> ?t") (simp_all add: A_def)
qed

text \<open>What \<open>free\<close> makes of the free list: the block joins a neighbour that it touches.\<close>

definition merge_upper :: "block \<Rightarrow> block list \<Rightarrow> block \<times> block list" where
  "merge_upper b ys = (case ys of
     [] \<Rightarrow> (b, [])
   | y # ys' \<Rightarrow> if fst b + 16 * snd b = fst y then ((fst b, snd b + snd y), ys') else (b, ys))"

definition merge_lower :: "block list \<Rightarrow> block \<Rightarrow> block list \<Rightarrow> block list" where
  "merge_lower xs b ys =
     (if xs \<noteq> [] \<and> fst (last xs) + 16 * snd (last xs) = fst b
      then butlast xs @ (fst (last xs), snd (last xs) + snd b) # ys else xs @ b # ys)"

definition fits :: "nat \<Rightarrow> nat \<Rightarrow> block list \<Rightarrow> block \<Rightarrow> block list \<Rightarrow> bool" where
  "fits bse lim xs b ys \<longleftrightarrow> sorted_wrt before ((bse, 0) # xs @ b # ys) \<and> (\<forall>f\<in>set (xs @ b # ys). 1 \<le> snd f \<and> fin f \<le> lim) \<and>
     0 < bse \<and> bse + 16 \<le> lim \<and> lim < SPACE"

lemma load_frame:
  assumes "\<And>x. \<not> in_header b x \<Longrightarrow> m' x = m x" and "c + 8 \<le> SPACE" and "c + 8 \<le> fst b \<or> fst b + 16 \<le> c"
  shows "load64 m' (W c) = load64 m (W c)"
  by (rule load64_cong, rule assms(1)) (use assms(2,3) in \<open>auto simp: cell_region in_header_def\<close>)

lemma header_stores:
  "a + 16 \<le> SPACE \<Longrightarrow> \<not> in_header (a, s) x \<Longrightarrow> store64 m (W a) v x = m x"
  "a + 16 \<le> SPACE \<Longrightarrow> \<not> in_header (a, s) x \<Longrightarrow> store64 m (W (a + 8)) v x = m x"
  by (rule store_byte; auto simp: in_header_def)+

lemma header_loads:
  assumes "a + 16 \<le> SPACE"
  shows "load64 (store64 m (W a) v) (W (a + 8)) = load64 m (W (a + 8))" "load64 (store64 m (W (a + 8)) v) (W a) = load64 m (W a)"
  by (rule load_apart; use assms in simp)+

lemma chain_frame:
  assumes "\<And>x. \<not> in_header b x \<Longrightarrow> m' x = m x" and "chain m a fs e" and "load64 m' (W a') = load64 m (W a)"
    and "\<And>g. g \<in> set fs \<Longrightarrow> fst g + 16 \<le> SPACE \<and> (fst b + 16 \<le> fst g \<or> fst g + 16 \<le> fst b)"
  shows "chain m' a' fs e"
proof (rule chain_move [OF assms(2,3)])
  fix g assume "g \<in> set fs"
  then show "load64 m' (W (fst g)) = load64 m (W (fst g)) \<and> load64 m' (W (fst g + 8)) = load64 m (W (fst g + 8))"
    using assms(4) [of g] by (intro conjI load_frame [of b m' m, OF assms(1)]) auto
qed

lemma fitsD:
  assumes "fits bse lim xs b ys"
  shows "f \<in> set xs \<Longrightarrow> before f b" "f \<in> set ys \<Longrightarrow> before b f" "f \<in> set xs \<Longrightarrow> before (bse, 0) f" "f \<in> set ys \<Longrightarrow> before (bse, 0) f"
    "before (bse, 0) b" "f \<in> set (xs @ b # ys) \<Longrightarrow> fin f \<le> lim" "f \<in> set (xs @ b # ys) \<Longrightarrow> 1 \<le> snd f" "lim < SPACE" "bse + 16 \<le> lim"
    "f \<in> set xs \<Longrightarrow> g \<in> set ys \<Longrightarrow> before f g"
  using assms by (auto simp: fits_def sorted_wrt_append)

lemma fits_last:
  assumes "fits bse lim xs b ys" and "xs \<noteq> []"
  shows "g \<in> set (butlast xs) \<Longrightarrow> before g (last xs)" "before (bse, 0) (last xs)" "fin (last xs) \<le> lim"
  using assms by (cases xs rule: rev_cases; auto simp: fits_def sorted_wrt_append)+

lemma last_below_cases:
  assumes "fits bse lim xs b ys"
  shows "last_below bse xs + 16 \<le> fst b" "f \<in> set ys \<Longrightarrow> last_below bse xs + 16 \<le> fst f"
  using assms fitsD(1) [OF assms, of "last xs"] fitsD(5) [OF assms] fitsD(10) [OF assms, of "last xs" f] fitsD(4) [OF assms, of f]
  by (auto simp: last_below_def dest: before_cells)

lemma join_upper_ok:
  assumes f: "fits bse lim xs (a, s) ys" and c: "chain m (last_below bse xs) ys bse" and sz: "size_of m (a, s)"
    and mu: "merge_upper (a, s) ys = (b, ys')"
  defines "m1 \<equiv> join_upper (W a) (W (last_below bse xs)) m"
  shows "fst b = a \<and> chain m1 a ys' bse \<and> size_of m1 b \<and> (\<forall>x. \<not> in_header (a, s) x \<longrightarrow> m1 x = m x)"
proof -
  let ?p = "last_below bse xs"
  have a: "a + 16 * s \<le> lim" "lim < SPACE" "bse + 16 \<le> a" "1 \<le> s"
    using fitsD(6,7) [OF f, of "(a, s)"] fitsD(8) [OF f] before_cells [OF fitsD(5) [OF f]] fin_bounds(3) [of "(a, s)"] by auto
  have y: "a + 16 * s \<le> fst y \<and> fst y + 16 \<le> lim" if "y \<in> set ys" for y
    using fitsD(2,6) [OF f, of y] that fin_bounds(2) [of "(a, s)"] fin_bounds(1) [of y] by (auto simp: before_def)
  have p: "?p + 16 \<le> a" using last_below_cases(1) [OF f] by simp
  have sz': "load64 m (W (a + 8)) = W s" using sz by (simp add: size_of_def del: of_nat_add)
  have m1: "m1 = (if W (a + 16 * s) = load64 m (W ?p)
      then let m' = store64 m (W (a + 8)) (W s + load64 m (load64 m (W ?p) + 8)) in store64 m' (W a) (load64 m' (load64 m' (W ?p)))
      else store64 m (W a) (load64 m (W ?p)))"
    unfolding m1_def join_upper_def sizeof_Header_def W_offset(1) [symmetric] sz' W_offset(3) ..
  show ?thesis
  proof (cases "ys \<noteq> [] \<and> a + 16 * s = fst (hd ys)")
    case True
    then obtain v ys0 where ys: "ys = v # ys0" and v: "a + 16 * s = fst v" by (cases ys) auto
    have b: "b = (a, s + snd v)" "ys' = ys0" using mu ys v by (auto simp: merge_upper_def)
    have cv: "load64 m (W ?p) = W (fst v)" "load64 m (W (fst v + 8)) = W (snd v)" "chain m (fst v) ys0 bse" using c ys by simp_all
    define m' where "m' = store64 m (W (a + 8)) (W s + W (snd v))"
    have frame: "\<not> in_header (a, s) x \<Longrightarrow> m' x = m x" for x using header_stores(2) [of a s x] a by (simp add: m'_def)
    have "load64 m' (W ?p) = W (fst v)" "load64 m' (W (fst v)) = load64 m (W (fst v))"
      using load_frame [of "(a, s)" m' m, OF frame, of ?p] load_frame [of "(a, s)" m' m, OF frame, of "fst v"] p a v y [of v] ys cv by simp_all
    then have m1': "m1 = store64 m' (W a) (load64 m (W (fst v)))"
      unfolding m1 v cv(1) if_True W_offset(1) [symmetric] using cv(2) by (simp add: m'_def Let_def)
    have fr: "\<not> in_header (a, s) x \<Longrightarrow> m1 x = m x" for x
      using header_stores(1) [of a s x] a frame by (simp add: m1')
    have "chain m1 a ys0 bse"
      by (rule chain_frame [of "(a, s)", OF fr cv(3)]) (use y ys a m1' in \<open>fastforce+\<close>)
    moreover have "size_of m1 b" using a header_loads(1) [of a m'] by (simp add: size_of_def b m1' m'_def del: of_nat_add) simp
    ultimately show ?thesis using b fr by simp
  next
    case False
    then have b: "b = (a, s)" "ys' = ys" using mu by (auto simp: merge_upper_def split: list.splits)
    have "load64 m (W ?p) = W (if ys = [] then bse else fst (hd ys))" using c by (cases ys) simp_all
    moreover have "W (a + 16 * s) \<noteq> W (if ys = [] then bse else fst (hd ys))"
      by (subst W_eq) (use a y [of "hd ys"] False in auto)
    ultimately have m1': "m1 = store64 m (W a) (load64 m (W ?p))" unfolding m1 by simp
    have fr: "\<not> in_header (a, s) x \<Longrightarrow> m1 x = m x" for x using header_stores(1) [of a s x] a by (simp add: m1')
    have "chain m1 a ys bse"
      by (rule chain_frame [of "(a, s)", OF fr c]) (use y a m1' in \<open>fastforce+\<close>)
    moreover have "size_of m1 b" using a header_loads(1) [of a m] sz' by (simp add: size_of_def b m1' del: of_nat_add)
    ultimately show ?thesis using b fr by simp
  qed
qed

lemma prefix_frame:
  assumes f: "fits bse lim xs b ys" and xs: "xs \<noteq> []" and c: "chain m bse (butlast xs) (fst (last xs))"
    and fr: "\<And>x. \<not> in_header (last_below bse xs, 0) x \<Longrightarrow> m' x = m x"
  shows "chain m' bse (butlast xs) (fst (last xs))"
proof -
  have p: "last_below bse xs = fst (last xs)" "fst (last xs) + 16 \<le> SPACE"
    using xs fits_last(3) [OF f xs] fitsD(8) [OF f] fin_bounds(1) [of "last xs"] by (auto simp: last_below_def)
  show ?thesis
  proof (rule chain_frame [of "(last_below bse xs, 0)", OF fr c])
    show "load64 m' (W bse) = load64 m (W bse)"
      using before_cells [OF fits_last(2) [OF f xs]] p by (intro load_frame [of "(last_below bse xs, 0)" m' m, OF fr]) auto
    show "fst g + 16 \<le> SPACE \<and> (fst (last_below bse xs, 0) + 16 \<le> fst g \<or> fst g + 16 \<le> fst (last_below bse xs, 0))"
      if "g \<in> set (butlast xs)" for g
      using before_cells [OF fits_last(1) [OF f xs that]] p by auto
  qed
qed

lemma join_lower_ok:
  assumes f: "fits bse lim xs (a, s) ys" and ys': "set ys' \<subseteq> set ys"
    and c: "chain m a ys' bse" "size_of m (a, s1)" "size_of m (bse, 0)"
    and pre: "xs \<noteq> [] \<Longrightarrow> chain m bse (butlast xs) (fst (last xs)) \<and> size_of m (last xs)"
  defines "p \<equiv> last_below bse xs" and "m2 \<equiv> join_lower (W a) (W (last_below bse xs)) m"
  shows "chain m2 bse (merge_lower xs (a, s1) ys') bse \<and> size_of m2 (bse, 0) \<and> (\<forall>x. \<not> in_header (p, 0) x \<longrightarrow> m2 x = m x)"
proof -
  define sp where "sp = (if xs = [] then 0 else snd (last xs))"
  have a: "a + 16 \<le> lim" "lim < SPACE" "p + 16 \<le> a"
    using fitsD(6) [OF f, of "(a, s)"] fitsD(8) [OF f] last_below_cases(1) [OF f] fin_bounds(1) [of "(a, s)"] by (auto simp: p_def)
  have y: "p + 16 \<le> fst y \<and> fst y + 16 \<le> lim \<and> a + 16 \<le> fst y" if "y \<in> set ys'" for y
    using ys' that fitsD(6) [OF f, of y] last_below_cases(2) [OF f, of y] fin_bounds(1) [of y] before_cells [OF fitsD(2) [OF f, of y]]
    by (auto simp: p_def)
  have sz: "load64 m (W (p + 8)) = W sp" using c(3) pre by (auto simp: size_of_def p_def sp_def last_below_def simp del: of_nat_add)
  have szb: "load64 m (W (a + 8)) = W s1" using c(2) by (simp add: size_of_def del: of_nat_add)
  have spl: "p + 16 * sp \<le> a" 
    using a fitsD(1) [OF f, of "last xs"] fin_bounds(2) [of "last xs"] by (auto simp: p_def sp_def last_below_def before_def)
  have m2: "m2 = (if p + 16 * sp = a
      then let m' = store64 m (W (p + 8)) (W sp + W s1) in store64 m' (W p) (load64 m' (W a)) else store64 m (W p) (W a))"
    unfolding m2_def p_def [symmetric] join_lower_def sizeof_Header_def W_offset(1) [symmetric] sz szb W_offset(3) [symmetric]
    using W_eq [of "p + 16 * sp" a] spl a by simp
  have fr: "\<not> in_header (p, 0) x \<Longrightarrow> m2 x = m x" for x
    using header_stores [of p 0 x] a by (simp add: m2 Let_def)
  have szp: "size_of m2 (p, if p + 16 * sp = a then sp + s1 else sp)"
    using header_loads(1) [of p] a sz by (simp add: size_of_def m2 Let_def del: of_nat_add) simp
  have b: "size_of m2 (a, s1)" using load_frame [of "(p, 0)" m2 m, OF fr, of "a + 8"] a szb by (simp add: size_of_def del: of_nat_add)
  have tl: "chain m2 a ys' bse"
    by (rule chain_frame [of "(p, 0)", OF fr c(1)]) (use y a load_frame [of "(p, 0)" m2 m, OF fr, of a] in \<open>fastforce+\<close>)
  have hd: "chain m2 bse (butlast xs) (fst (last xs))" if "xs \<noteq> []"
    using prefix_frame [OF f that conjunct1 [OF pre [OF that]]] fr by (simp add: p_def)
  have bz: "size_of m2 (bse, 0)"
  proof (cases "xs = []")
    case True
    then show ?thesis using szp a by (auto simp: p_def sp_def last_below_def)
  next
    case False
    have "bse + 16 \<le> p" using before_cells [OF fits_last(2) [OF f False]] False by (simp add: p_def last_below_def)
    then show ?thesis using c(3) load_frame [of "(p, 0)" m2 m, OF fr, of "bse + 8"] a by (simp add: size_of_def del: of_nat_add)
  qed
  have "chain m2 bse (merge_lower xs (a, s1) ys') bse"
  proof (cases "p + 16 * sp = a")
    case True
    then have xs: "xs \<noteq> []" "fst (last xs) = p" "snd (last xs) = sp" using a by (auto simp: p_def sp_def last_below_def)
    have ptr: "load64 m2 (W p) = load64 m (W a)"
      using True a load_apart [of "p + 8" a m] by (simp add: m2 Let_def del: of_nat_add)
    have "chain m2 p ys' bse" by (rule chain_frame [of "(p, 0)", OF fr c(1) ptr]) (use y a in \<open>fastforce+\<close>)
    then show ?thesis using hd [OF xs(1)] szp True xs by (simp add: merge_lower_def chain_append)
  next
    case False
    then have "merge_lower xs (a, s1) ys' = xs @ (a, s1) # ys'" by (auto simp: merge_lower_def p_def sp_def last_below_def)
    moreover have "chain m2 p ((a, s1) # ys') bse" using tl b False by (simp add: m2 size_of_def)
    moreover have "size_of m2 (last xs)" if "xs \<noteq> []" using szp False that by (simp add: p_def sp_def last_below_def)
    ultimately show ?thesis using hd by (auto simp: chain_last [of m2 bse xs] p_def last_below_def simp del: chain.simps)
  qed
  then show ?thesis using bz fr by blast
qed

text \<open>Joining keeps the order, and what overlaps no part overlaps no joined block.\<close>

definition avoids :: "block \<Rightarrow> block list \<Rightarrow> bool" where
  "avoids c bs \<longleftrightarrow> (\<forall>f\<in>set bs. disjoint c f)"

lemma disjoint_join:
  assumes "disjoint c (a, s)" and "disjoint c (a + 16 * s, s')" and "1 \<le> s" and "1 \<le> s'"
  shows "disjoint c (a, s + s')"
  using assms fin_bounds(1) [of c] by (auto simp: disjoint_def before_def fin_def max_def split: if_splits)

lemma merge_upper_fits:
  assumes f: "fits bse lim xs b ys" and mu: "merge_upper b ys = (b', ys')"
  shows "fits bse lim xs b' ys' \<and> fst b' = fst b \<and> set ys' \<subseteq> set ys \<and> snd b \<le> snd b' \<and>
    (\<forall>c. avoids c (xs @ b # ys) \<longrightarrow> avoids c (xs @ b' # ys'))"
proof (cases "ys \<noteq> [] \<and> fst b + 16 * snd b = fst (hd ys)")
  case True
  then obtain y zs where ys: "ys = y # zs" and y: "fst b + 16 * snd b = fst y" by (cases ys) auto
  have b': "b' = (fst b, snd b + snd y)" "ys' = zs" using mu ys y by (auto simp: merge_upper_def)
  have s: "1 \<le> snd b" "1 \<le> snd y" using fitsD(7) [OF f] ys by auto
  then have fin: "fin b' = fin y" using y b' by (simp add: fin_def max_def)
  have "fits bse lim xs b' ys'"
    using f ys s fin b'(2) unfolding fits_def by (auto simp: sorted_wrt_append before_def b'(1))
  moreover have "avoids c (xs @ b' # ys')" if "avoids c (xs @ b # ys)" for c
  proof -
    have "disjoint c (fst b, snd b)" "disjoint c (fst b + 16 * snd b, snd y)" using that ys y by (auto simp: avoids_def)
    from disjoint_join [OF this s] that show ?thesis using ys b' by (auto simp: avoids_def)
  qed
  ultimately show ?thesis using b' ys by auto
next
  case False
  then have "b' = b" "ys' = ys" using mu by (auto simp: merge_upper_def split: list.splits)
  then show ?thesis using f by simp
qed

lemma merge_lower_fits:
  assumes f: "fits bse lim xs b ys"
  defines "fs \<equiv> merge_lower xs b ys"
  shows "sorted_wrt before ((bse, 0) # fs) \<and> (\<forall>f\<in>set fs. 1 \<le> snd f \<and> fin f \<le> lim) \<and> (\<forall>c. avoids c (xs @ b # ys) \<longrightarrow> avoids c fs) \<and>
    (\<exists>f\<in>set fs. snd b \<le> snd f) \<and> (\<exists>f\<in>set ((bse, 0) # fs). last_below bse xs = fst f)"
proof (cases "xs \<noteq> [] \<and> fst (last xs) + 16 * snd (last xs) = fst b")
  case True
  then obtain zs l where xs: "xs = zs @ [l]" and l: "fst l + 16 * snd l = fst b" by (cases xs rule: rev_cases) auto
  have fs: "fs = zs @ (fst l, snd l + snd b) # ys" using True xs by (simp add: fs_def merge_lower_def)
  have s: "1 \<le> snd l" "1 \<le> snd b" using fitsD(7) [OF f] xs by auto
  then have fin: "fin (fst l, snd l + snd b) = fin b" using l by (simp add: fin_def max_def)
  have "sorted_wrt before ((bse, 0) # fs)" "\<forall>f\<in>set fs. 1 \<le> snd f \<and> fin f \<le> lim"
    using f xs s fin unfolding fits_def fs by (auto simp: sorted_wrt_append before_def)
  moreover have "avoids c fs" if "avoids c (xs @ b # ys)" for c
  proof -
    have "disjoint c (fst l, snd l)" "disjoint c (fst l + 16 * snd l, snd b)" using that xs l by (auto simp: avoids_def)
    from disjoint_join [OF this s] that show ?thesis using xs fs by (auto simp: avoids_def)
  qed
  ultimately show ?thesis using fs xs by (auto simp: last_below_def)
next
  case False
  then have fs: "fs = xs @ b # ys" by (auto simp: fs_def merge_lower_def)
  have "sorted_wrt before ((bse, 0) # fs)" "\<forall>f\<in>set fs. 1 \<le> snd f \<and> fin f \<le> lim" using f by (simp_all add: fits_def fs)
  moreover have "\<exists>f\<in>set ((bse, 0) # fs). last_below bse xs = fst f"
    using last_in_set [of xs] by (cases "xs = []") (auto simp: last_below_def fs)
  ultimately show ?thesis by (auto simp: fs)
qed

text \<open>The headers of the free list, of \<open>base\<close> and of the block are all that changes.\<close>

lemma release_ok:
  assumes ok: "free_ok bse lim m (xs @ ys)" and f: "fits bse lim xs (a, s) ys" and sz: "size_of m (a, s)"
  defines "p \<equiv> last_below bse xs"
  defines "m' \<equiv> join_lower (W a) (W p) (join_upper (W a) (W p) m)"
  shows "\<exists>fs. free_ok bse lim m' fs \<and> (\<forall>c. avoids c (xs @ (a, s) # ys) \<longrightarrow> avoids c fs) \<and> (\<exists>f\<in>set fs. s \<le> snd f) \<and>
    (\<exists>f\<in>set ((bse, 0) # fs). p = fst f) \<and> (\<forall>x. (\<forall>f\<in>set ((bse, 0) # xs @ (a, s) # ys). \<not> in_header f x) \<longrightarrow> m' x = m x)"
proof -
  obtain b ys' where mu: "merge_upper (a, s) ys = (b, ys')" by fastforce
  define m1 where "m1 = join_upper (W a) (W p) m"
  have c: "chain m p ys bse" "xs \<noteq> [] \<Longrightarrow> chain m bse (butlast xs) (fst (last xs)) \<and> size_of m (last xs)" "size_of m (bse, 0)"
    using ok by (auto simp: free_ok_def chain_last p_def last_below_def)
  have up: "fst b = a" "chain m1 a ys' bse" "size_of m1 b" and fr: "\<And>x. \<not> in_header (a, s) x \<Longrightarrow> m1 x = m x"
    using join_upper_ok [OF f c(1) [unfolded p_def] sz mu] by (auto simp: m1_def p_def)
  from merge_upper_fits [OF f mu] have f1: "fits bse lim xs b ys'" and ys': "set ys' \<subseteq> set ys" and s: "s \<le> snd b"
    and av: "avoids c (xs @ (a, s) # ys) \<Longrightarrow> avoids c (xs @ b # ys')" for c by (auto simp del: split_paired_All)
  have low: "fst g + 16 \<le> a" "fst g + 16 \<le> SPACE" if "g \<in> set ((bse, 0) # xs)" for g
    using that before_cells [OF fitsD(1) [OF f, of g]] before_cells [OF fitsD(5) [OF f]] fitsD(6) [OF f, of "(a, s)"] fitsD(8) [OF f]
      fin_bounds(1) [of "(a, s)"] by auto
  have sz1: "size_of m1 g" if "g \<in> set ((bse, 0) # xs)" "size_of m g" for g
    using load_frame [of "(a, s)" m1 m, OF fr, of "fst g + 8"] low [OF that(1)] that(2) by (simp add: size_of_def del: of_nat_add)
  have b0: "load64 m1 (W bse) = load64 m (W bse)"
    using load_frame [of "(a, s)" m1 m, OF fr, of bse] low [of "(bse, 0)"] by simp
  have pre: "chain m1 bse (butlast xs) (fst (last xs)) \<and> size_of m1 (last xs)" if "xs \<noteq> []"
  proof
    show "chain m1 bse (butlast xs) (fst (last xs))"
      by (rule chain_frame [of "(a, s)", OF fr conjunct1 [OF c(2) [OF that]] b0]) (use low in \<open>auto dest!: in_set_butlastD\<close>)
    show "size_of m1 (last xs)" using sz1 c(2) that by simp
  qed
  have low_ok: "chain m' bse (merge_lower xs b ys') bse" "size_of m' (bse, 0)" "\<And>x. \<not> in_header (p, 0) x \<Longrightarrow> m' x = m1 x"
    using join_lower_ok [OF f ys' up(2), of "snd b", OF _ sz1 [OF _ c(3)] pre] up by (auto simp: m'_def m1_def p_def)
  have "free_ok bse lim m' (merge_lower xs b ys')"
    using merge_lower_fits [OF f1] low_ok(1,2) ok by (auto simp: free_ok_def)
  moreover have "in_header (p, 0) x \<longleftrightarrow> in_header (if xs = [] then (bse, 0) else last xs) x" for x
    by (simp add: in_header_def p_def last_below_def)
  then have "m' x = m x" if "\<forall>f\<in>set ((bse, 0) # xs @ (a, s) # ys). \<not> in_header f x" for x
    using that low_ok(3) fr last_in_set [of xs] by (auto split: if_splits)
  ultimately show ?thesis using merge_lower_fits [OF f1] av s p_def by (intro exI [of _ "merge_lower xs b ys'"]) (auto intro: order_trans)
qed

lemma insert_split:
  assumes ok: "free_ok bse lim m fs" and b: "avoids (a, s) fs" "before (bse, 0) (a, s)" "1 \<le> s" "fin (a, s) \<le> lim"
  obtains xs ys where "fs = xs @ ys" "fits bse lim xs (a, s) ys" "\<forall>f\<in>set ((bse, 0) # xs). fst f < a" "\<forall>f\<in>set ys. a < fst f"
proof -
  define xs where "xs = takeWhile (\<lambda>f. fst f < a) fs"
  define ys where "ys = dropWhile (\<lambda>f. fst f < a) fs"
  have fs: "fs = xs @ ys" by (simp add: xs_def ys_def)
  have so: "sorted_wrt before ((bse, 0) # xs @ ys)" using ok by (simp add: free_ok_def fs)
  have x: "before f (a, s)" "fst f < a" if "f \<in> set xs" for f
  proof -
    show "fst f < a" using that set_takeWhileD [of f "\<lambda>f. fst f < a" fs] by (simp add: xs_def)
    moreover have "disjoint (a, s) f" using b(1) that by (auto simp: avoids_def fs)
    ultimately show "before f (a, s)" using before_cells [of "(a, s)" f] by (auto simp: disjoint_def)
  qed
  have y: "before (a, s) f" if f: "f \<in> set ys" for f
  proof -
    obtain g zs where g: "ys = g # zs" using f by (cases ys) auto
    then have "\<not> fst g < a" using hd_dropWhile [of "\<lambda>f. fst f < a" fs] by (simp add: ys_def)
    moreover have "f = g \<or> before g f" using so g f by (auto simp: sorted_wrt_append)
    ultimately have "a \<le> fst f" using before_cells [of g f] by auto
    moreover have "disjoint (a, s) f" using b(1) f by (auto simp: avoids_def fs)
    ultimately show ?thesis using before_cells [of f "(a, s)"] by (auto simp: disjoint_def)
  qed
  have "fits bse lim xs (a, s) ys"
    using so x(1) y b(2-) ok unfolding fits_def free_ok_def fs by (auto simp: sorted_wrt_append)
  moreover have "\<forall>f\<in>set ((bse, 0) # xs). fst f < a" using x(2) before_cells [OF b(2)] by auto
  moreover have "\<forall>f\<in>set ys. a < fst f" using y before_cells [of "(a, s)"] by fastforce
  ultimately show thesis using fs that by blast
qed

lemma user_free_block:
  assumes ok: "free_ok bse lim (hmem h) fs" and k: "\<exists>f\<in>set ((bse, 0) # fs). freep h = W (fst f)"
    and b: "avoids (a, s) fs" "before (bse, 0) (a, s)" "1 \<le> s" "fin (a, s) \<le> lim" "size_of (hmem h) (a, s)"
  obtains h' fs' where "user_free (W (a + 16)) h = Some h'" "free_ok bse lim (hmem h') fs'" "\<exists>f\<in>set ((bse, 0) # fs'). freep h' = W (fst f)"
    "world h' = world h" "\<forall>c. avoids c ((a, s) # fs) \<longrightarrow> avoids c fs'" "\<exists>f\<in>set fs'. s \<le> snd f"
    "\<forall>x. (\<forall>f\<in>set ((bse, 0) # (a, s) # fs). \<not> in_header f x) \<longrightarrow> hmem h' x = hmem h x"
proof -
  obtain xs ys where fs: "fs = xs @ ys" and f: "fits bse lim xs (a, s) ys"
    and lo: "\<forall>f\<in>set ((bse, 0) # xs). fst f < a" and hi: "\<forall>f\<in>set ys. a < fst f"
    by (rule insert_split [OF ok b(1-4)])
  have a: "a + 16 < SPACE" using b(4) ok fin_bounds(1) [of "(a, s)"] by (simp add: free_ok_def)
  obtain g where g: "g \<in> set ((bse, 0) # xs @ ys)" "freep h = W (fst g)" using k unfolding fs by blast
  then obtain i where i: "i < Suc (length (xs @ ys))" "freep h = W (fst (((bse, 0) # xs @ ys) ! i))"
    unfolding in_set_conv_nth by auto
  let ?p = "last_below bse xs"
  let ?h = "h\<lparr>hmem := join_lower (W a) (W ?p) (join_upper (W a) (W ?p) (hmem h)), freep := W ?p\<rparr>"
  have "free_search (W a) (freep h) (hmem h) = Some (W ?p)"
    unfolding i(2) using free_search_finds [OF ok [unfolded fs] lo hi _ i(1)] a by simp
  moreover have "W (a + 16) \<noteq> 0" using W_eq [of "a + 16" 0] a by simp
  moreover have "W (a + 16) - sizeof_Header = W a" by (simp add: sizeof_Header_def)
  ultimately have run: "user_free (W (a + 16)) h = Some ?h" by (simp only: user_free_def if_False Let_def option.case)
  have hm: "hmem ?h = join_lower (W a) (W ?p) (join_upper (W a) (W ?p) (hmem h))" by simp
  have perm: "set ((bse, 0) # xs @ (a, s) # ys) = set ((bse, 0) # (a, s) # fs)" "avoids c (xs @ (a, s) # ys) = avoids c ((a, s) # fs)" for c
    by (auto simp: fs avoids_def)
  from release_ok [OF ok [unfolded fs] f b(5)] obtain fs' where r: "free_ok bse lim (hmem ?h) fs'" "\<exists>f\<in>set ((bse, 0) # fs'). ?p = fst f"
    "\<forall>c. avoids c ((a, s) # fs) \<longrightarrow> avoids c fs'" "\<exists>f\<in>set fs'. s \<le> snd f"
    "\<forall>x. (\<forall>f\<in>set ((bse, 0) # (a, s) # fs). \<not> in_header f x) \<longrightarrow> hmem ?h x = hmem h x" unfolding perm hm by blast
  obtain g where "g \<in> set ((bse, 0) # fs')" "?p = fst g" using r(2) by blast
  then have "\<exists>f\<in>set ((bse, 0) # fs'). freep ?h = W (fst f)" by (intro bexI [of _ g]) simp_all
  then show thesis by (rule that [OF run r(1) _ _ r(3,4,5)]) simp
qed

lemma block_frame: "disjoint b f \<Longrightarrow> in_block b x \<Longrightarrow> \<not> in_block f x \<and> \<not> in_header f x"
  using fin_bounds(1) [of f] by (auto simp: disjoint_def before_def in_block_def in_header_def)

lemma used_okD:
  assumes "used_ok bse lim m fs al" and "b \<in> al"
  shows "avoids b fs" "1 \<le> snd b" "before (bse, 0) b" "fin b \<le> lim" "size_of m b" "c \<in> al \<Longrightarrow> b \<noteq> c \<Longrightarrow> disjoint b c"
  using assms by (auto simp: used_ok_def avoids_def)

lemma size_frame:
  assumes "fin b < SPACE" and "\<forall>x. in_block b x \<longrightarrow> m' x = m x" and "size_of m b"
  shows "size_of m' b"
proof -
  have "m' x = m x" if "in_region (W (fst b + 8)) 8 x" for x
    using that assms(1,2) fin_bounds(1) [of b] cell_region [of "fst b + 8" x] by (simp add: in_block_def del: of_nat_add)
  then have "load64 m' (W (fst b + 8)) = load64 m (W (fst b + 8))" by (rule load64_cong)
  then show ?thesis using assms(3) by (simp add: size_of_def del: of_nat_add)
qed

lemma used_ok_mono:
  assumes u: "used_ok bse lim m fs al" and sub: "al' \<subseteq> al" and "lim \<le> lim'" and "lim < SPACE" and av: "\<forall>b\<in>al'. avoids b fs'"
    and fr: "\<forall>b\<in>al'. \<forall>x. in_block b x \<longrightarrow> m' x = m x"
  shows "used_ok bse lim' m' fs' al'"
proof -
  have "1 \<le> snd b \<and> before (bse, 0) b \<and> fin b \<le> lim' \<and> size_of m' b \<and> (\<forall>f\<in>set fs'. disjoint b f)" if b: "b \<in> al'" for b
  proof -
    have "b \<in> al" using b sub by blast
    note d = used_okD [OF u this]
    have "fin b < SPACE" using d(4) assms(4) by simp
    then have "size_of m' b" by (rule size_frame) (use fr b d(5) in auto)
    then show ?thesis using d(2,3,4) assms(3) av b by (auto simp: avoids_def)
  qed
  moreover have "disjoint b c" if "b \<in> al'" "c \<in> al'" "b \<noteq> c" for b c using used_okD(6) [OF u, of b c] that sub by blast
  ultimately show ?thesis by (simp add: used_ok_def)
qed

lemma user_free_heap:
  assumes ok: "heap_ok brk bse h fs al" and b: "(a, s) \<in> al"
  shows "\<exists>h' fs'. user_free (W (a + 16)) h = Some h' \<and> heap_ok brk bse h' fs' (al - {(a, s)}) \<and>
    (\<forall>b\<in>al - {(a, s)}. \<forall>x. in_block b x \<longrightarrow> hmem h' x = hmem h x)"
proof -
  let ?lim = "brk (world h)"
  have u: "used_ok bse ?lim (hmem h) fs al" and fo: "free_ok bse ?lim (hmem h) fs" and k: "\<exists>f\<in>set ((bse, 0) # fs). freep h = W (fst f)"
    using ok by (simp_all add: heap_ok_def)
  have s: "1 \<le> s" using used_okD(2) [OF u b] by simp
  obtain h' fs' where h': "user_free (W (a + 16)) h = Some h'" "free_ok bse ?lim (hmem h') fs'" "\<exists>f\<in>set ((bse, 0) # fs'). freep h' = W (fst f)"
    "world h' = world h" "\<forall>c. avoids c ((a, s) # fs) \<longrightarrow> avoids c fs'" "\<exists>f\<in>set fs'. s \<le> snd f"
    and same: "\<forall>x. (\<forall>f\<in>set ((bse, 0) # (a, s) # fs). \<not> in_header f x) \<longrightarrow> hmem h' x = hmem h x"
    by (rule user_free_block [OF fo k used_okD(1,3) [OF u b] s used_okD(4,5) [OF u b]])
  have av: "avoids c ((a, s) # fs)" if "c \<in> al - {(a, s)}" for c
    using used_okD(1) [OF u, of c] used_okD(6) [OF u, of c "(a, s)"] b that by (auto simp: avoids_def)
  have fr: "hmem h' x = hmem h x" if c: "c \<in> al - {(a, s)}" and x: "in_block c x" for c x
  proof -
    have "disjoint c f" if "f \<in> set ((bse, 0) # (a, s) # fs)" for f
      using that av [OF c] used_okD(3) [OF u, of c] c by (auto simp: avoids_def disjoint_def)
    then show ?thesis using same block_frame [OF _ x] by blast
  qed
  have "?lim < SPACE" using fo by (simp add: free_ok_def)
  then have "used_ok bse ?lim (hmem h') fs' (al - {(a, s)})"
    by (intro used_ok_mono [OF u]) (use av h'(5) fr in blast)+
  then have "heap_ok brk bse h' fs' (al - {(a, s)})" using h'(2,3,4) by (simp only: heap_ok_def)
  then show ?thesis using h'(1) fr by blast
qed

section \<open>Allocating a block\<close>

text \<open>The loop of \<open>malloc\<close> when it has gone round the circle in vain.\<close>

definition grow :: "(u64 \<Rightarrow> 'w heap \<Rightarrow> u64 \<times> 'w heap) \<Rightarrow> u64 \<Rightarrow> 'w heap \<Rightarrow> (u64 \<times> 'w heap) option" where
  "grow sbrk nunits h = (case morecore sbrk nunits h of
     None \<Rightarrow> None
   | Some (q, h1) \<Rightarrow> if q = 0 then Some (0, h1) else malloc_loop sbrk nunits q (load64 (hmem h1) q) h1)"

text \<open>The headers in a circle, by number.\<close>

definition node :: "nat \<Rightarrow> block list \<Rightarrow> nat \<Rightarrow> block" where
  "node bse fs i = ((bse, 0) # fs) ! (i mod Suc (length fs))"

lemma node_facts:
  assumes ok: "free_ok bse lim m fs"
  shows "load64 m (W (fst (node bse fs i))) = W (fst (node bse fs (Suc i)))" "load64 m (W (fst (node bse fs i) + 8)) = W (snd (node bse fs i))"
    "fst (node bse fs i) < SPACE" "snd (node bse fs i) < SPACE"
    "fst (node bse fs i) = fst (node bse fs j) \<longleftrightarrow> i mod Suc (length fs) = j mod Suc (length fs)"
proof -
  let ?N = "Suc (length fs)" and ?ns = "(bse, 0) # fs"
  have fo: "sorted_wrt before ?ns" "chain m bse fs bse" "\<forall>f\<in>set fs. fin f \<le> lim" "bse < lim" "lim < SPACE" "size_of m (bse, 0)"
    using ok by (auto simp: free_ok_def)
  have r: "i mod ?N < Suc (length fs)" for i by simp
  have mem: "node bse fs i \<in> set ?ns" for i unfolding node_def by (rule nth_mem) simp
  show "load64 m (W (fst (node bse fs i))) = W (fst (node bse fs (Suc i)))"
    using chain_next [OF fo(2) r [of i], of 0] unfolding node_def by (simp add: mod_Suc)
  have all: "size_of m f \<and> fst f + 16 * snd f \<le> lim" if "f \<in> set ?ns" for f
    using that fo(3,4,6) chain_size [OF fo(2), of f] fin_bounds(2) [of f] by (cases "f = (bse, 0)") fastforce+
  then show "load64 m (W (fst (node bse fs i) + 8)) = W (snd (node bse fs i))" using mem [of i] by (simp add: size_of_def del: of_nat_add)
  show "fst (node bse fs i) < SPACE" "snd (node bse fs i) < SPACE" using all [OF mem [of i]] fo(5) by linarith+
  have less: "fst (?ns ! i) \<noteq> fst (?ns ! j)" if "i < j" "j < ?N" for i j using sorted_nth [OF fo(1) that(1)] that(2) by simp
  show "fst (node bse fs i) = fst (node bse fs j) \<longleftrightarrow> i mod ?N = j mod ?N"
    using less [of "i mod ?N" "j mod ?N"] less [of "j mod ?N" "i mod ?N"] unfolding node_def
    by (cases "i mod ?N" "j mod ?N" rule: linorder_cases) auto
qed

lemma malloc_loop_node:
  fixes h :: "'w heap"
  assumes ok: "free_ok bse lim (hmem h) fs" and k: "freep h = W (fst (node bse fs k))" and n: "n < SPACE"
  shows "malloc_loop sbrk (W n) prev (W (fst (node bse fs i))) h =
    (if n \<le> snd (node bse fs i) then Some (malloc_take (W n) prev (W (fst (node bse fs i))) h)
     else if i mod Suc (length fs) = k mod Suc (length fs) then grow sbrk (W n) h
     else malloc_loop sbrk (W n) (W (fst (node bse fs i))) (W (fst (node bse fs (Suc i)))) h)"
proof -
  note nf = node_facts [OF ok]
  have "W n \<le> load64 (hmem h) (W (fst (node bse fs i)) + 8) \<longleftrightarrow> n \<le> snd (node bse fs i)"
    unfolding W_offset(1) [symmetric] nf(2) using W_le [OF n nf(4)] .
  moreover have "W (fst (node bse fs i)) = freep h \<longleftrightarrow> i mod Suc (length fs) = k mod Suc (length fs)"
    unfolding k using W_eq [OF nf(3) nf(3)] nf(5) by metis
  ultimately show ?thesis by (subst malloc_loop.simps) (simp only: nf(1) grow_def)
qed

text \<open>
  One tour of the circle: the loop takes a block that is large enough, unlinking it from the header
  before it, or finds that all of them are too small.
\<close>

lemma malloc_tour:
  fixes h :: "'w heap"
  assumes ok: "free_ok bse lim (hmem h) fs" and k: "freep h = W (fst (node bse fs k))" and n: "n < SPACE"
    and d: "1 \<le> d" "d \<le> Suc (length fs)"
  shows "(\<exists>j. n \<le> snd (node bse fs (Suc j)) \<and> malloc_loop sbrk (W n) (W (fst (node bse fs (k + d - 1)))) (W (fst (node bse fs (k + d)))) h =
      Some (malloc_take (W n) (W (fst (node bse fs j))) (W (fst (node bse fs (Suc j)))) h)) \<or>
    (\<forall>e. d \<le> e \<and> e \<le> Suc (length fs) \<longrightarrow> snd (node bse fs (k + e)) < n) \<and>
      malloc_loop sbrk (W n) (W (fst (node bse fs (k + d - 1)))) (W (fst (node bse fs (k + d)))) h = grow sbrk (W n) h"
  using d(2,1)
proof (induction rule: inc_induct)
  case base
  have "(k + Suc (length fs)) mod Suc (length fs) = k mod Suc (length fs)" by (rule mod_add_self2)
  then have eq: "malloc_loop sbrk (W n) prev (W (fst (node bse fs (k + Suc (length fs))))) h =
      (if n \<le> snd (node bse fs (k + Suc (length fs))) then Some (malloc_take (W n) prev (W (fst (node bse fs (k + Suc (length fs))))) h)
       else grow sbrk (W n) h)" for prev
    using malloc_loop_node [OF ok k n, of sbrk _ "k + Suc (length fs)"] by (simp only: if_True refl)
  show ?case
  proof (cases "n \<le> snd (node bse fs (k + Suc (length fs)))")
    case True
    then show ?thesis using eq by (intro disjI1 exI [of _ "k + length fs"]) simp
  next
    case False
    then have "\<forall>e. Suc (length fs) \<le> e \<and> e \<le> Suc (length fs) \<longrightarrow> snd (node bse fs (k + e)) < n" using le_antisym by fastforce
    then show ?thesis using eq False by simp
  qed
next
  case (step d)
  have "(k + d) mod Suc (length fs) \<noteq> k mod Suc (length fs)" using step.prems step.hyps by (simp add: mod_eq_iff_dvd_symdiff_nat dvd_eq_mod_eq_0)
  then have eq: "malloc_loop sbrk (W n) (W (fst (node bse fs (k + d - 1)))) (W (fst (node bse fs (k + d)))) h =
      (if n \<le> snd (node bse fs (k + d)) then Some (malloc_take (W n) (W (fst (node bse fs (k + d - 1)))) (W (fst (node bse fs (k + d)))) h)
       else malloc_loop sbrk (W n) (W (fst (node bse fs (k + Suc d - 1)))) (W (fst (node bse fs (k + Suc d)))) h)"
    using malloc_loop_node [OF ok k n, of sbrk _ "k + d"] by simp
  show ?case
  proof (cases "n \<le> snd (node bse fs (k + d))")
    case True
    then show ?thesis using eq step.prems by (intro disjI1 exI [of _ "k + d - 1"]) simp
  next
    case False
    then have "\<forall>e. d \<le> e \<and> e \<le> Suc (length fs) \<longrightarrow> snd (node bse fs (k + e)) < n"
      if "\<forall>e. Suc d \<le> e \<and> e \<le> Suc (length fs) \<longrightarrow> snd (node bse fs (k + e)) < n"
      using that by (metis Suc_leI le_neq_implies_less not_le)
    moreover have "1 \<le> Suc d" by simp
    ultimately show ?thesis using step.IH unfolding eq if_not_P [OF False] by blast
  qed
qed

lemma node_split:
  assumes "1 \<le> n" and "n \<le> snd (node bse fs (Suc j))"
  obtains xs x s ys where "fs = xs @ (x, s) # ys" "node bse fs (Suc j) = (x, s)" "fst (node bse fs j) = last_below bse xs"
proof -
  let ?r = "j mod Suc (length fs)"
  have r: "?r < length fs"
  proof (rule ccontr)
    assume "\<not> ?r < length fs"
    moreover have "?r < Suc (length fs)" by simp
    ultimately have "?r = length fs" by linarith
    then have "Suc j mod Suc (length fs) = 0" by (simp add: mod_Suc)
    then show False using assms by (simp add: node_def)
  qed
  then have "node bse fs (Suc j) = fs ! ?r" by (simp add: node_def mod_Suc)
  moreover have fs: "fs = take ?r fs @ fs ! ?r # drop (Suc ?r) fs" using r by (rule id_take_nth_drop)
  moreover have "fst (node bse fs j) = last_below bse (take ?r fs)"
    using last_below_nth [of bse "take ?r fs" 0 "drop ?r fs"] r by (simp add: node_def)
  ultimately show thesis by (cases "fs ! ?r") (auto intro: that)
qed

lemma free_ok_fits: "free_ok bse lim m (xs @ b # ys) \<Longrightarrow> fits bse lim xs b ys"
  by (auto simp: free_ok_def fits_def)

lemma take_whole:
  assumes ok: "free_ok bse lim m (xs @ (x, s) # ys)"
  defines "m' \<equiv> store64 m (W (last_below bse xs)) (load64 m (W x))"
  shows "free_ok bse lim m' (xs @ ys) \<and> (\<forall>y. \<not> in_header (last_below bse xs, 0) y \<longrightarrow> m' y = m y)"
proof -
  let ?p = "last_below bse xs"
  have f: "fits bse lim xs (x, s) ys" using free_ok_fits [OF ok] .
  have p: "?p + 16 \<le> x" "x + 16 \<le> lim" "lim < SPACE"
    using last_below_cases(1) [OF f] fitsD(6) [OF f, of "(x, s)"] fitsD(8) [OF f] fin_bounds(1) [of "(x, s)"] by auto
  have fr: "\<And>y. \<not> in_header (?p, 0) y \<Longrightarrow> m' y = m y" using header_stores(1) [of ?p 0] p by (simp add: m'_def)
  have c: "chain m ?p ((x, s) # ys) bse" "xs \<noteq> [] \<Longrightarrow> chain m bse (butlast xs) (fst (last xs)) \<and> size_of m (last xs)" "size_of m (bse, 0)"
    using ok by (auto simp: free_ok_def chain_last [of m bse xs] last_below_def simp del: chain.simps)
  have y: "fst g + 16 \<le> SPACE \<and> (fst (?p, 0) + 16 \<le> fst g \<or> fst g + 16 \<le> fst (?p, 0))" if "g \<in> set ys" for g
    using last_below_cases(2) [OF f that] fitsD(6) [OF f, of g] fin_bounds(1) [of g] p that by auto
  have "chain m' ?p ys bse"
    by (rule chain_frame [of "(?p, 0)", OF fr, of _ x]) (use c(1) y in \<open>simp_all add: m'_def\<close>)
  moreover have szp: "load64 m' (W (?p + 8)) = load64 m (W (?p + 8))" using header_loads(1) [of ?p m] p by (simp add: m'_def del: of_nat_add)
  then have "size_of m' (last xs)" if "xs \<noteq> []" using c(2) that by (simp add: size_of_def last_below_def del: of_nat_add)
  moreover have "chain m' bse (butlast xs) (fst (last xs))" if "xs \<noteq> []" using prefix_frame [OF f that _ fr] c(2) that by simp
  ultimately have "chain m' bse (xs @ ys) bse" by (simp add: chain_last last_below_def)
  moreover have "size_of m' (bse, 0)"
  proof (cases "xs = []")
    case True
    then show ?thesis using szp c(3) by (simp add: size_of_def last_below_def del: of_nat_add)
  next
    case False
    then have "bse + 16 \<le> ?p" using before_cells [OF fits_last(2) [OF f False]] by (simp add: last_below_def)
    then show ?thesis using load_frame [of "(?p, 0)" m' m, OF fr, of "bse + 8"] p c(3) by (simp add: size_of_def del: of_nat_add)
  qed
  moreover have "sorted_wrt before ((bse, 0) # xs @ ys)" using ok by (auto simp: free_ok_def sorted_wrt_append)
  ultimately show ?thesis using ok fr by (auto simp: free_ok_def)
qed

lemma take_part:
  assumes ok: "free_ok bse lim m (xs @ (x, s) # ys)" and n: "1 \<le> n" "n < s"
  defines "m' \<equiv> store64 (store64 m (W (x + 8)) (W (s - n))) (W (x + 16 * (s - n) + 8)) (W n)"
  shows "free_ok bse lim m' (xs @ (x, s - n) # ys) \<and> size_of m' (x + 16 * (s - n), n) \<and> (\<forall>y. \<not> in_block (x, s) y \<longrightarrow> m' y = m y)"
proof -
  have f: "fits bse lim xs (x, s) ys" using free_ok_fits [OF ok] .
  have fin: "fin (x, s) = x + 16 * s" using n by (simp add: fin_def)
  have x: "x + 16 * s \<le> lim" "lim < SPACE" "bse + 16 \<le> x"
    using fitsD(6) [OF f, of "(x, s)"] fitsD(8) [OF f] before_cells [OF fitsD(5) [OF f]] fin by auto
  have a: "x + 16 \<le> x + 16 * (s - n)" "x + 16 * (s - n) + 16 \<le> x + 16 * s" using n by auto
  have fr: "m' y = m y" if y: "\<not> in_block (x, s) y" for y
  proof -
    have "unat y < x \<or> x + 16 * s \<le> unat y" using y by (auto simp: in_block_def fin)
    then show ?thesis unfolding m'_def using a x by (subst store_byte; (subst store_byte)?; auto)
  qed
  have ld: "load64 m' (W c) = load64 m (W c)" if "c + 8 \<le> x \<or> x + 16 * s \<le> c" "c + 8 \<le> SPACE" for c
    unfolding m'_def by (rule trans [OF load_apart load_apart]) (use that a x in arith)+
  have hx: "load64 m' (W x) = load64 m (W x)" "load64 m' (W (x + 8)) = W (s - n)"
    unfolding m'_def by (rule trans [OF load_apart load_apart] trans [OF load_apart load64_store64]; use a x in arith)+
  have sz: "size_of m' (x + 16 * (s - n), n)" "size_of m' (x, s - n)" using hx(2) by (simp_all add: size_of_def m'_def del: of_nat_add)
  have c: "chain m bse xs x" "chain m x ys bse" using ok by (auto simp: free_ok_def chain_append)
  have lo: "fst g + 16 \<le> x" if "g \<in> set xs" for g using before_cells [OF fitsD(1) [OF f that]] by simp
  have hi: "x + 16 * s \<le> fst g \<and> fst g + 16 \<le> lim" if "g \<in> set ys" for g
    using fitsD(2,6) [OF f, of g] that fin_bounds(1) [of g] by (auto simp: before_def fin)
  have "chain m' bse xs x"
    by (rule chain_move [OF c(1)]; (intro conjI)?; rule ld) (use lo x in \<open>fastforce+\<close>)
  moreover have "chain m' x ys bse"
    by (rule chain_move [OF c(2) hx(1)]; intro conjI; rule ld) (use hi x in \<open>fastforce+\<close>)
  ultimately have "chain m' bse (xs @ (x, s - n) # ys) bse" using sz(2) by (simp add: chain_append)
  moreover have "size_of m' (bse, 0)" using ok ld [of "bse + 8"] x by (simp add: free_ok_def size_of_def del: of_nat_add)
  moreover have fin': "fin (x, s - n) \<le> fin (x, s)" using n by (simp add: fin_def)
  moreover have "sorted_wrt before ((bse, 0) # xs @ (x, s - n) # ys)"
    using ok fin' by (auto simp: free_ok_def sorted_wrt_append before_def)
  ultimately show ?thesis using ok fr sz(1) n by (auto simp: free_ok_def)
qed

lemma header_in_block: "in_header f x \<Longrightarrow> in_block f x"
  using fin_bounds(1) [of f] by (simp add: in_header_def in_block_def)

lemma disjoint_part:
  assumes "disjoint c (x, s)" and "x \<le> a" and "a + 16 * n \<le> x + 16 * s" and "1 \<le> n"
  shows "disjoint c (a, n)"
  using assms by (auto simp: disjoint_def before_def fin_def max_def split: if_splits)

lemma malloc_take_eq:
  fixes h :: "'w heap"
  assumes sz: "load64 (hmem h) (W x + 8) = W s" and s: "s < SPACE" "n \<le> s"
  shows "n = s \<Longrightarrow> malloc_take (W n) p (W x) h = (W (x + 16), h\<lparr>hmem := store64 (hmem h) p (load64 (hmem h) (W x)), freep := p\<rparr>)"
    "n \<noteq> s \<Longrightarrow> malloc_take (W n) p (W x) h = (W (x + 16 * (s - n) + 16),
      h\<lparr>hmem := store64 (store64 (hmem h) (W (x + 8)) (W (s - n))) (W (x + 16 * (s - n) + 8)) (W n), freep := p\<rparr>)"
proof -
  show "n = s \<Longrightarrow> malloc_take (W n) p (W x) h = (W (x + 16), h\<lparr>hmem := store64 (hmem h) p (load64 (hmem h) (W x)), freep := p\<rparr>)"
    using sz by (simp add: malloc_take_def sizeof_Header_def Let_def)
  assume "n \<noteq> s"
  then have "W s \<noteq> W n" using W_eq [of s n] s by simp
  then show "malloc_take (W n) p (W x) h = (W (x + 16 * (s - n) + 16),
      h\<lparr>hmem := store64 (store64 (hmem h) (W (x + 8)) (W (s - n))) (W (x + 16 * (s - n) + 8)) (W n), freep := p\<rparr>)"
    using sz s(2) by (simp add: malloc_take_def sizeof_Header_def Let_def of_nat_diff algebra_simps)
qed

text \<open>Where the block comes from: all of a free block, or its upper part.\<close>

definition taken :: "nat \<Rightarrow> nat \<Rightarrow> nat \<Rightarrow> 'w heap \<Rightarrow> block list \<Rightarrow> nat \<Rightarrow> 'w heap \<Rightarrow> block list \<Rightarrow> bool" where
  "taken bse lim n h fs a h' fs' \<longleftrightarrow> world h' = world h \<and> free_ok bse lim (hmem h') fs' \<and> (\<exists>f\<in>set ((bse, 0) # fs'). freep h' = W (fst f)) \<and>
     size_of (hmem h') (a, n) \<and> before (bse, 0) (a, n) \<and> fin (a, n) \<le> lim \<and> avoids (a, n) fs' \<and>
     (\<forall>c. avoids c fs \<longrightarrow> avoids c fs' \<and> disjoint c (a, n)) \<and>
     (\<forall>x. (\<forall>f\<in>set ((bse, 0) # fs). \<not> in_block f x) \<longrightarrow> hmem h' x = hmem h x)"

lemma taken_whole:
  fixes h :: "'w heap"
  assumes ok: "free_ok bse lim (hmem h) (xs @ (x, n) # ys)"
  defines "p \<equiv> last_below bse xs"
  shows "taken bse lim n h (xs @ (x, n) # ys) x (h\<lparr>hmem := store64 (hmem h) (W p) (load64 (hmem h) (W x)), freep := W p\<rparr>) (xs @ ys)"
proof -
  let ?m = "store64 (hmem h) (W p) (load64 (hmem h) (W x))"
  have f: "fits bse lim xs (x, n) ys" using free_ok_fits ok by simp
  have t: "free_ok bse lim ?m (xs @ ys)" and fr: "\<And>y. \<not> in_header (p, 0) y \<Longrightarrow> ?m y = hmem h y"
    using take_whole [OF ok] by (simp_all add: p_def)
  obtain g where g: "g \<in> set ((bse, 0) # xs)" "fst g = p" by (cases "xs = []") (auto simp: p_def last_below_def intro: last_in_set that [of "last xs"] simp del: split_paired_All)
  have "p + 16 \<le> x" "x + 16 \<le> lim" "lim < SPACE"
    using last_below_cases(1) [OF f] fitsD(6) [OF f, of "(x, n)"] fitsD(8) [OF f] fin_bounds(1) [of "(x, n)"] by (auto simp: p_def)
  then have "size_of ?m (x, n)"
    using ok load_frame [of "(p, 0)" ?m "hmem h", OF fr, of "x + 8"] by (simp add: free_ok_def chain_append size_of_def del: of_nat_add)
  moreover have "?m y = hmem h y" if "\<forall>f\<in>set ((bse, 0) # xs @ (x, n) # ys). \<not> in_block f y" for y
  proof (rule fr)
    have "\<not> in_header g y" using that g(1) header_in_block [of g y] by auto
    then show "\<not> in_header (p, 0) y" using g(2) by (simp add: in_header_def)
  qed
  moreover have "\<exists>f\<in>set ((bse, 0) # xs @ ys). W p = W (fst f)" using g by (intro bexI [of _ g]) auto
  moreover have "avoids (x, n) (xs @ ys)" using fitsD(1,2) [OF f] by (auto simp: avoids_def disjoint_def)
  ultimately show ?thesis using t fitsD(5,6) [OF f] by (auto simp: taken_def avoids_def)
qed

lemma taken_part:
  fixes h :: "'w heap"
  assumes ok: "free_ok bse lim (hmem h) (xs @ (x, s) # ys)" and n: "1 \<le> n" "n < s"
  defines "p \<equiv> last_below bse xs"
  shows "taken bse lim n h (xs @ (x, s) # ys) (x + 16 * (s - n))
    (h\<lparr>hmem := store64 (store64 (hmem h) (W (x + 8)) (W (s - n))) (W (x + 16 * (s - n) + 8)) (W n), freep := W p\<rparr>) (xs @ (x, s - n) # ys)"
proof -
  let ?a = "x + 16 * (s - n)"
  let ?m = "store64 (store64 (hmem h) (W (x + 8)) (W (s - n))) (W (?a + 8)) (W n)"
  have f: "fits bse lim xs (x, s) ys" using free_ok_fits ok by simp
  have t: "free_ok bse lim ?m (xs @ (x, s - n) # ys)" "size_of ?m (?a, n)" and fr: "\<And>y. \<not> in_block (x, s) y \<Longrightarrow> ?m y = hmem h y"
    using take_part [OF ok n] by blast+
  have fin: "fin (x, s) = x + 16 * s" "fin (?a, n) = x + 16 * s" "fin (x, s - n) = ?a" using n by (simp_all add: fin_def)
  have "before (bse, 0) (?a, n)" "fin (?a, n) \<le> lim" using fitsD(5) [OF f] fitsD(6) [OF f, of "(x, s)"] fin by (auto simp: before_def)
  moreover have "avoids (?a, n) (xs @ (x, s - n) # ys)"
    using fitsD(1,2) [OF f] fin by (fastforce simp: avoids_def disjoint_def before_def)
  moreover have "avoids c (xs @ (x, s - n) # ys) \<and> disjoint c (?a, n)" if "avoids c (xs @ (x, s) # ys)" for c
  proof -
    have "disjoint c (x, s)" using that by (simp add: avoids_def)
    then have "disjoint c (x, s - n)" "disjoint c (?a, n)" using n by (auto intro: disjoint_part)
    then show ?thesis using that by (auto simp: avoids_def)
  qed
  moreover have "\<exists>f\<in>set ((bse, 0) # xs @ (x, s - n) # ys). W p = W (fst f)"
    by (cases "xs = []") (auto simp: p_def last_below_def intro!: bexI [of _ "last xs"])
  moreover have "?m y = hmem h y" if "\<forall>f\<in>set ((bse, 0) # xs @ (x, s) # ys). \<not> in_block f y" for y using fr that by simp
  moreover have "hmem (h\<lparr>hmem := ?m, freep := W p\<rparr>) = ?m" "freep (h\<lparr>hmem := ?m, freep := W p\<rparr>) = W p"
    "world (h\<lparr>hmem := ?m, freep := W p\<rparr>) = world h" by simp_all
  ultimately show ?thesis using t unfolding taken_def by (simp only:) blast
qed

lemma malloc_take_ok:
  fixes h :: "'w heap"
  assumes ok: "free_ok bse lim (hmem h) fs" and n: "1 \<le> n" "n \<le> snd (node bse fs (Suc j))"
  shows "\<exists>a h' fs'. malloc_take (W n) (W (fst (node bse fs j))) (W (fst (node bse fs (Suc j)))) h = (W (a + 16), h') \<and> taken bse lim n h fs a h' fs'"
proof -
  obtain xs x s ys where fs: "fs = xs @ (x, s) # ys" and nx: "node bse fs (Suc j) = (x, s)" and pr: "fst (node bse fs j) = last_below bse xs"
    by (rule node_split [OF n])
  have s: "s < SPACE" "n \<le> s" "load64 (hmem h) (W x + 8) = W s" using node_facts(2,4) [OF ok, of "Suc j"] nx n by simp_all
  show ?thesis
  proof (cases "n = s")
    case True
    have "free_ok bse lim (hmem h) (xs @ (x, n) # ys)" using ok fs True by simp
    from taken_whole [OF this] have "taken bse lim n h fs x (h\<lparr>hmem := store64 (hmem h) (W (last_below bse xs)) (load64 (hmem h) (W x)),
        freep := W (last_below bse xs)\<rparr>) (xs @ ys)" by (simp only: fs True)
    then show ?thesis unfolding pr nx fst_conv malloc_take_eq(1) [OF s(3,1,2) True] by blast
  next
    case False
    then have "n < s" using s(2) by simp
    from taken_part [OF ok [unfolded fs] n(1) this] show ?thesis
      unfolding pr nx fst_conv malloc_take_eq(2) [OF s(3,1,2) False] fs [symmetric] by blast
  qed
qed

text \<open>
  What the allocator relies on: \<open>sbrk\<close> fails without an effect, or returns the old break and moves it
  up by the bytes that were asked for. The kernel takes the argument as a 32-bit integer, so this is
  said of requests below 2 GiB only. What lies above the old break may have any contents.
\<close>

definition moves_break :: "('w \<Rightarrow> nat) \<Rightarrow> (u64 \<Rightarrow> 'w heap \<Rightarrow> u64 \<times> 'w heap) \<Rightarrow> bool" where
  "moves_break brk sbrk \<longleftrightarrow> (\<forall>n h p h'. unat n < 2 ^ 31 \<longrightarrow> sbrk n h = (p, h') \<longrightarrow>
     p = -1 \<and> h' = h \<or>
     p = W (brk (world h)) \<and> brk (world h') = brk (world h) + unat n \<and> brk (world h') < SPACE - 1 \<and> freep h' = freep h \<and>
       (\<forall>x. unat x < brk (world h) \<longrightarrow> hmem h' x = hmem h x))"

lemma free_ok_mono:
  assumes ok: "free_ok bse lim m fs" and lim: "lim \<le> lim'" "lim' < SPACE" and same: "\<And>x. unat x < lim \<Longrightarrow> m' x = m x"
  shows "free_ok bse lim' m' fs"
proof -
  have fo: "\<forall>f\<in>set fs. fin f \<le> lim" "bse + 16 \<le> lim" "chain m bse fs bse" "size_of m (bse, 0)" using ok by (auto simp: free_ok_def)
  have ld: "load64 m' (W c) = load64 m (W c)" if "c + 8 \<le> lim" for c
  proof (rule load64_cong, rule same)
    fix x assume "in_region (W c) 8 x"
    then show "unat x < lim" using cell_region [of c x] that lim by simp
  qed
  have "chain m' bse fs bse"
  proof (rule chain_move [OF fo(3) ld])
    fix f assume "f \<in> set fs"
    then have "fst f + 16 \<le> lim" using fo(1) fin_bounds(1) [of f] by fastforce
    then show "load64 m' (W (fst f)) = load64 m (W (fst f)) \<and> load64 m' (W (fst f + 8)) = load64 m (W (fst f + 8))" by (intro conjI ld) simp_all
  qed (use fo(2) in simp)
  moreover have "size_of m' (bse, 0)" using ld [of "bse + 8"] fo(2,4) by (simp add: size_of_def del: of_nat_add)
  ultimately show ?thesis using ok lim by (fastforce simp: free_ok_def)
qed

lemma W_minus_1: "a < SPACE \<Longrightarrow> W a = -1 \<longleftrightarrow> a = SPACE - 1"
  by (simp add: word_unat_eq_iff unat_of_nat64 unsigned_minus_1_eq_mask mask_eq_exp_minus_1)

lemma heap_ok_freep:
  assumes "heap_ok brk bse h fs al"
  shows "freep h \<noteq> 0"
proof -
  obtain f where f: "f \<in> set ((bse, 0) # fs)" "freep h = W (fst f)" using assms unfolding heap_ok_def by blast
  have fo: "free_ok bse (brk (world h)) (hmem h) fs" using assms by (simp add: heap_ok_def)
  have "0 < fst f \<and> fst f < SPACE"
  proof (cases "f = (bse, 0)")
    case False
    then have "f \<in> set fs" using f(1) by simp
    then have "before (bse, 0) f" "fin f \<le> brk (world h)" using fo by (auto simp: free_ok_def)
    then show ?thesis using before_cells [of "(bse, 0)" f] fin_bounds(1) [of f] fo by (auto simp: free_ok_def)
  qed (use fo in \<open>auto simp: free_ok_def\<close>)
  then show ?thesis using f(2) W_eq [of "fst f" 0] by simp
qed

lemma adopt_ok:
  fixes h :: "'w heap"
  assumes ok: "heap_ok brk bse h fs al" and lim: "brk (world h1) = brk (world h) + 16 * nu" "brk (world h1) < SPACE - 1" "1 \<le> nu"
    and same: "freep h1 = freep h" "\<And>x. unat x < brk (world h) \<Longrightarrow> hmem h1 x = hmem h x"
  defines "h2 \<equiv> h1\<lparr>hmem := store64 (hmem h1) (W (brk (world h) + 8)) (W nu)\<rparr>"
  shows "\<exists>h' fs'. user_free (W (brk (world h) + 16)) h2 = Some h' \<and> heap_ok brk bse h' fs' al \<and> (\<exists>f\<in>set fs'. nu \<le> snd f) \<and>
    (\<forall>b\<in>al. \<forall>x. in_block b x \<longrightarrow> hmem h' x = hmem h x)"
proof -
  let ?t = "brk (world h)" and ?l = "brk (world h1)"
  have fo: "free_ok bse ?t (hmem h) fs" and u: "used_ok bse ?t (hmem h) fs al" and k: "\<exists>f\<in>set ((bse, 0) # fs). freep h2 = W (fst f)"
    using ok same(1) by (simp_all add: heap_ok_def h2_def)
  have sp: "?l < SPACE" "?t + 16 \<le> ?l" "?t < SPACE" using lim by auto
  have m2: "hmem h2 x = hmem h x" if "unat x < ?t" for x
    using that same(2) sp store_byte [of "?t + 8" x "hmem h1" "W nu"] by (simp add: h2_def del: of_nat_add)
  have fo2: "free_ok bse ?l (hmem h2) fs" using free_ok_mono [OF fo _ sp(1) m2] sp(2) by simp
  have sz: "size_of (hmem h2) (?t, nu)" by (simp add: size_of_def h2_def del: of_nat_add)
  have end_t: "fin f \<le> ?t" if "f \<in> set ((bse, 0) # fs) \<union> al" for f using that fo u by (auto simp: free_ok_def used_ok_def fin_def)
  have av: "avoids (?t, nu) fs" "before (bse, 0) (?t, nu)" "fin (?t, nu) \<le> ?l"
    using end_t lim fin_bounds(3) [of "(?t, nu)"] by (auto simp: avoids_def disjoint_def before_def)
  obtain h' fs' where h': "user_free (W (?t + 16)) h2 = Some h'" "free_ok bse ?l (hmem h') fs'" "\<exists>f\<in>set ((bse, 0) # fs'). freep h' = W (fst f)"
    "world h' = world h2" "\<forall>c. avoids c ((?t, nu) # fs) \<longrightarrow> avoids c fs'" "\<exists>f\<in>set fs'. nu \<le> snd f"
    and fr: "\<forall>x. (\<forall>f\<in>set ((bse, 0) # (?t, nu) # fs). \<not> in_header f x) \<longrightarrow> hmem h' x = hmem h2 x"
    by (rule user_free_block [OF fo2 k av(1,2) lim(3) av(3) sz])
  have dj: "disjoint b f" if "b \<in> al" "f \<in> set ((bse, 0) # (?t, nu) # fs)" for b f
    using that used_okD(1,3) [OF u, of b] end_t [of b] by (auto simp: avoids_def disjoint_def before_def)
  have keep: "\<forall>b\<in>al. \<forall>x. in_block b x \<longrightarrow> hmem h' x = hmem h x"
  proof (intro ballI allI impI)
    fix b x assume b: "b \<in> al" and x: "in_block b x"
    then have "unat x < ?t" using end_t [of b] by (simp add: in_block_def)
    moreover have "hmem h' x = hmem h2 x" using fr block_frame [OF dj [OF b] x] by blast
    ultimately show "hmem h' x = hmem h x" using m2 by simp
  qed
  have "avoids b fs'" if "b \<in> al" for b
  proof -
    have "avoids b ((?t, nu) # fs)" using dj [OF that] by (simp add: avoids_def)
    then show ?thesis using h'(5) by blast
  qed
  then have "used_ok bse ?l (hmem h') fs' al" using used_ok_mono [OF u order_refl _ sp(3) _ keep] sp(2) by simp
  then have "heap_ok brk bse h' fs' al" using h'(2,3,4) by (simp add: heap_ok_def h2_def)
  then show ?thesis using h'(1,6) keep by blast
qed

lemma morecore_ok:
  fixes h :: "'w heap"
  assumes mb: "moves_break brk sbrk" and ok: "heap_ok brk bse h fs al" and n: "1 \<le> n" "16 * max 4096 n < 2 ^ 31"
  shows "morecore sbrk (W n) h = Some (0, h) \<or>
    (\<exists>h' fs'. morecore sbrk (W n) h = Some (freep h', h') \<and> freep h' \<noteq> 0 \<and> heap_ok brk bse h' fs' al \<and>
      (\<exists>f\<in>set fs'. n \<le> snd f) \<and> (\<forall>b\<in>al. \<forall>x. in_block b x \<longrightarrow> hmem h' x = hmem h x))"
proof -
  let ?t = "brk (world h)" and ?nu = "max 4096 n"
  obtain p h1 where s: "sbrk (W (16 * ?nu)) h = (p, h1)" by fastforce
  have un: "unat (W (16 * ?nu)) = 16 * ?nu" using n(2) by (intro unat_of_nat64) simp
  have "n < SPACE" using n(2) by auto
  then have nu: "(if W n < 4096 then 4096 else W n) = W ?nu" using W_less [of n 4096] by (auto simp: max_def)
  have mc: "morecore sbrk (W n) h = (if p = -1 then Some (0, h1)
      else case user_free (p + 16) (h1\<lparr>hmem := store64 (hmem h1) (p + 8) (W ?nu)\<rparr>) of None \<Rightarrow> None | Some h2 \<Rightarrow> Some (freep h2, h2))"
    unfolding morecore_def nu Let_def sizeof_Header_def using s by (simp add: mult.commute)
  have "p = -1 \<and> h1 = h \<or> p = W ?t \<and> brk (world h1) = ?t + 16 * ?nu \<and> brk (world h1) < SPACE - 1 \<and> freep h1 = freep h \<and>
       (\<forall>x. unat x < ?t \<longrightarrow> hmem h1 x = hmem h x)"
    using mb [unfolded moves_break_def, rule_format, OF _ s] n(2) unfolding un by blast
  then consider "p = -1" "h1 = h" | "p = W ?t" "brk (world h1) = ?t + 16 * ?nu" "brk (world h1) < SPACE - 1" "freep h1 = freep h"
      "\<And>x. unat x < ?t \<Longrightarrow> hmem h1 x = hmem h x" by blast
  then show ?thesis
  proof cases
    case 1
    then show ?thesis using mc by simp
  next
    case 2
    have nu1: "1 \<le> ?nu" by simp
    have "p \<noteq> -1" using 2(1-3) W_minus_1 [of ?t] by simp
    moreover obtain h' fs' where h': "user_free (W (?t + 16)) (h1\<lparr>hmem := store64 (hmem h1) (W (?t + 8)) (W ?nu)\<rparr>) = Some h'"
      "heap_ok brk bse h' fs' al" "\<exists>f\<in>set fs'. ?nu \<le> snd f" "\<forall>b\<in>al. \<forall>x. in_block b x \<longrightarrow> hmem h' x = hmem h x"
      using adopt_ok [OF ok 2(2,3) nu1 2(4,5)] by blast
    ultimately have "morecore sbrk (W n) h = Some (freep h', h')" using mc 2(1) by simp
    moreover have "freep h' \<noteq> 0" using heap_ok_freep [OF h'(2)] .
    moreover have "\<exists>f\<in>set fs'. n \<le> snd f" using h'(3) by auto
    ultimately show ?thesis using h'(2,4) by blast
  qed
qed

lemma taken_heap:
  fixes h :: "'w heap"
  assumes tk: "taken bse (brk (world h)) n h fs a h' fs'" and ok: "heap_ok brk bse h fs al" and n: "1 \<le> n"
  shows "heap_ok brk bse h' fs' (insert (a, n) al) \<and> (a, n) \<notin> al \<and> (\<forall>b\<in>al. \<forall>x. in_block b x \<longrightarrow> hmem h' x = hmem h x)"
proof -
  let ?t = "brk (world h)"
  have fo: "free_ok bse ?t (hmem h) fs" and u: "used_ok bse ?t (hmem h) fs al" using ok by (simp_all add: heap_ok_def)
  have t: "world h' = world h" "free_ok bse ?t (hmem h') fs'" "\<exists>f\<in>set ((bse, 0) # fs'). freep h' = W (fst f)" "size_of (hmem h') (a, n)"
    "before (bse, 0) (a, n)" "fin (a, n) \<le> ?t" "avoids (a, n) fs'" and av: "\<And>c. avoids c fs \<Longrightarrow> avoids c fs' \<and> disjoint c (a, n)"
    and fr: "\<And>x. \<forall>f\<in>set ((bse, 0) # fs). \<not> in_block f x \<Longrightarrow> hmem h' x = hmem h x"
    using tk unfolding taken_def by blast+
  have al: "avoids b fs' \<and> disjoint b (a, n)" if "b \<in> al" for b using av [OF used_okD(1) [OF u that]] .
  have keep: "\<forall>b\<in>al. \<forall>x. in_block b x \<longrightarrow> hmem h' x = hmem h x"
  proof (intro ballI allI impI)
    fix b x assume b: "b \<in> al" and x: "in_block b x"
    have "disjoint b f" if "f \<in> set ((bse, 0) # fs)" for f
      using that used_okD(1,3) [OF u b] by (auto simp: avoids_def disjoint_def)
    then show "hmem h' x = hmem h x" using fr block_frame [OF _ x] by blast
  qed
  have "?t < SPACE" using fo by (simp add: free_ok_def)
  then have u': "used_ok bse ?t (hmem h') fs' al" using used_ok_mono [OF u order_refl order_refl _ _ keep] al by blast
  have "used_ok bse ?t (hmem h') fs' (insert (a, n) al)"
    using u' t(4-7) n al by (auto simp: used_ok_def avoids_def disjoint_def)
  moreover have "(a, n) \<notin> al"
  proof
    assume "(a, n) \<in> al"
    then have "before (a, n) (a, n)" using al by (auto simp: disjoint_def)
    then show False using before_cells [of "(a, n)" "(a, n)"] by simp
  qed
  ultimately show ?thesis using t(1-3) keep by (simp add: heap_ok_def)
qed

lemma malloc_first_tour:
  fixes h :: "'w heap"
  assumes ok: "heap_ok brk bse h fs al" and n: "n < SPACE"
  shows "(\<exists>j. n \<le> snd (node bse fs (Suc j)) \<and> malloc_loop sbrk (W n) (freep h) (load64 (hmem h) (freep h)) h =
      Some (malloc_take (W n) (W (fst (node bse fs j))) (W (fst (node bse fs (Suc j)))) h)) \<or>
    (\<forall>f\<in>set fs. snd f < n) \<and> malloc_loop sbrk (W n) (freep h) (load64 (hmem h) (freep h)) h = grow sbrk (W n) h"
proof -
  let ?N = "Suc (length fs)"
  have fo: "free_ok bse (brk (world h)) (hmem h) fs" using ok by (simp add: heap_ok_def)
  have idx: "\<exists>i<?N. f = node bse fs i" if "f \<in> set ((bse, 0) # fs)" for f
    using that unfolding in_set_conv_nth by (auto simp: node_def)
  obtain k where k: "k < ?N" "freep h = W (fst (node bse fs k))" using ok idx unfolding heap_ok_def by blast
  have "snd f < n" if all: "\<forall>e. Suc 0 \<le> e \<and> e \<le> ?N \<longrightarrow> snd (node bse fs (k + e)) < n" and f: "f \<in> set fs" for f
  proof -
    obtain i where i: "i < ?N" "f = node bse fs i" using idx [of f] f by auto
    define e where "e = (if k < i then i - k else i + ?N - k)"
    have "(i + ?N) mod ?N = i mod ?N" by (rule mod_add_self2)
    moreover have "k + e = i \<or> k + e = i + ?N" using i(1) k(1) by (simp add: e_def)
    ultimately have "node bse fs (k + e) = node bse fs i" unfolding node_def by metis
    moreover have "1 \<le> e" "e \<le> ?N" using i(1) k(1) by (auto simp: e_def)
    ultimately have e: "1 \<le> e" "e \<le> ?N" "node bse fs (k + e) = node bse fs i" by blast+
    then show ?thesis using all i(2) by (metis One_nat_def)
  qed
  then show ?thesis using malloc_tour [OF fo k(2) n, of 1 sbrk, simplified] unfolding k(2) node_facts(1) [OF fo] by blast
qed

lemma malloc_loop_ok:
  fixes h :: "'w heap"
  assumes mb: "moves_break brk sbrk" and ok: "heap_ok brk bse h fs al" and n: "1 \<le> n" "16 * max 4096 n < 2 ^ 31"
  shows "\<exists>r h'. malloc_loop sbrk (W n) (freep h) (load64 (hmem h) (freep h)) h = Some (r, h') \<and>
    (r = 0 \<and> h' = h \<or> (\<exists>a fs'. r = W (a + 16) \<and> heap_ok brk bse h' fs' (insert (a, n) al) \<and> (a, n) \<notin> al)) \<and>
    (\<forall>b\<in>al. \<forall>x. in_block b x \<longrightarrow> hmem h' x = hmem h x)"
proof -
  have nS: "n < SPACE" using n(2) by auto
  have take: "\<exists>r g'. malloc_loop sbrk (W n) (freep g) (load64 (hmem g) (freep g)) g = Some (r, g') \<and>
      (\<exists>a fs'. r = W (a + 16) \<and> heap_ok brk bse g' fs' (insert (a, n) al) \<and> (a, n) \<notin> al) \<and>
      (\<forall>b\<in>al. \<forall>x. in_block b x \<longrightarrow> hmem g' x = hmem g x)"
    if g: "heap_ok brk bse g gs al" and j: "n \<le> snd (node bse gs (Suc j))"
      "malloc_loop sbrk (W n) (freep g) (load64 (hmem g) (freep g)) g = Some (malloc_take (W n) (W (fst (node bse gs j))) (W (fst (node bse gs (Suc j)))) g)"
    for g :: "'w heap" and gs j
  proof -
    have "free_ok bse (brk (world g)) (hmem g) gs" using g by (simp add: heap_ok_def)
    from malloc_take_ok [OF this n(1) j(1)] obtain a g' fs' where
      "malloc_take (W n) (W (fst (node bse gs j))) (W (fst (node bse gs (Suc j)))) g = (W (a + 16), g')" and tk: "taken bse (brk (world g)) n g gs a g' fs'" by blast
    then show ?thesis using taken_heap [OF tk g n(1)] unfolding j(2) by blast
  qed
  show ?thesis
  proof (cases "malloc_loop sbrk (W n) (freep h) (load64 (hmem h) (freep h)) h = grow sbrk (W n) h")
    case False
    then show ?thesis using malloc_first_tour [OF ok nS, of sbrk] take [OF ok] by blast
  next
    case True
    consider "morecore sbrk (W n) h = Some (0, h)" | h1 fs1 where "morecore sbrk (W n) h = Some (freep h1, h1)" "freep h1 \<noteq> 0"
      "heap_ok brk bse h1 fs1 al" "\<exists>f\<in>set fs1. n \<le> snd f" "\<forall>b\<in>al. \<forall>x. in_block b x \<longrightarrow> hmem h1 x = hmem h x"
      using morecore_ok [OF mb ok n] by blast
    then show ?thesis
    proof cases
      case 1
      then show ?thesis using True by (simp add: grow_def)
    next
      case (2 h1 fs1)
      have "grow sbrk (W n) h = malloc_loop sbrk (W n) (freep h1) (load64 (hmem h1) (freep h1)) h1" using 2(1,2) by (simp add: grow_def)
      moreover have "\<not> (\<forall>f\<in>set fs1. snd f < n)" using 2(4) by (auto simp: not_less)
      ultimately show ?thesis using malloc_first_tour [OF 2(3) nS, of sbrk] take [OF 2(3)] 2(5) unfolding True by fastforce
    qed
  qed
qed

section \<open>Correctness\<close>

text \<open>Before the first allocation the list is not there yet.\<close>

definition malloc_ready :: "('w \<Rightarrow> nat) \<Rightarrow> nat \<Rightarrow> 'w heap \<Rightarrow> block set \<Rightarrow> bool" where
  "malloc_ready brk bse h al \<longleftrightarrow> (\<exists>fs. heap_ok brk bse h fs al) \<or>
     freep h = 0 \<and> al = {} \<and> 0 < bse \<and> bse + 16 \<le> brk (world h) \<and> brk (world h) < SPACE"

lemma malloc_starts:
  assumes "freep h = 0" "0 < bse" "bse + 16 \<le> brk (world h)" "brk (world h) < SPACE"
  shows "heap_ok brk bse (h\<lparr>hmem := store64 (store64 (hmem h) (W bse) (W bse)) (W bse + 8) 0, freep := W bse\<rparr>) [] {}"
proof -
  have "load64 (store64 (store64 (hmem h) (W bse) (W bse)) (W (bse + 8)) 0) (W bse) = W bse"
    by (rule trans [OF load_apart load64_store64]) (use assms in simp_all)
  then show ?thesis using assms by (simp add: heap_ok_def free_ok_def used_ok_def size_of_def)
qed

lemma malloc_units_nat:
  assumes "unat nbytes < 2 ^ 31 - 2 ^ 16"
  obtains n where "malloc_units nbytes = W n" "1 \<le> n" "16 * max 4096 n < 2 ^ 31" "unat nbytes \<le> 16 * (n - 1)"
proof
  let ?n = "(unat nbytes + 15) div 16 + 1"
  have "unat (nbytes + 15) = unat nbytes + 15" using assms by (subst unat_add64) simp_all
  then have "unat ((nbytes + 15) div 16) = (unat nbytes + 15) div 16" by (simp add: unat_div)
  moreover have "(unat nbytes + 15) div 16 < SPACE" using assms by simp
  ultimately have "(nbytes + 15) div 16 = W ((unat nbytes + 15) div 16)" by (subst word_unat_eq_iff) (simp only: unat_of_nat64)
  then show "malloc_units nbytes = W ?n" by (simp add: malloc_units_def sizeof_Header_def add.commute)
  show "1 \<le> ?n" "16 * max 4096 ?n < 2 ^ 31" "unat nbytes \<le> 16 * (?n - 1)" using assms by auto
qed

text \<open>A program that writes only inside its blocks, behind their headers, leaves the allocator ready.\<close>

definition in_payload :: "block \<Rightarrow> u64 \<Rightarrow> bool" where
  "in_payload b x \<longleftrightarrow> fst b + 16 \<le> unat x \<and> unat x < fin b"

lemma payload_writes:
  fixes h :: "'w heap"
  assumes ready: "malloc_ready brk bse h al" and same: "\<And>x. \<forall>b\<in>al. \<not> in_payload b x \<Longrightarrow> m' x = hmem h x"
  shows "malloc_ready brk bse (h\<lparr>hmem := m'\<rparr>) al"
proof (cases "al = {}")
  case True
  then have "m' = hmem h" using same by (simp add: fun_eq_iff)
  then show ?thesis using ready by simp
next
  case False
  then obtain fs where ok: "heap_ok brk bse h fs al" using ready unfolding malloc_ready_def by blast
  then have fo: "free_ok bse (brk (world h)) (hmem h) fs" and u: "used_ok bse (brk (world h)) (hmem h) fs al" by (simp_all add: heap_ok_def)
  have ld: "load64 m' (W c) = load64 (hmem h) (W c)"
    if f: "f \<in> set ((bse, 0) # fs) \<union> al" "c = fst f \<or> c = fst f + 8" for c f
  proof (rule load64_cong, rule same, intro ballI)
    fix x b assume x: "in_region (W c) 8 x" and b: "b \<in> al"
    have "fst f + 16 \<le> brk (world h)" "brk (world h) < SPACE"
      using f(1) fo u fin_bounds(1) [of f] by (auto simp: free_ok_def used_ok_def)
    then have "in_header f x" using x f(2) cell_region [of c x] by (auto simp: in_header_def)
    moreover have "b = f \<or> disjoint b f"
      using f(1) used_okD(1,3) [OF u b] used_okD(6) [OF u b, of f] by (auto simp: avoids_def disjoint_def)
    ultimately show "\<not> in_payload b x"
      using block_frame [of b f x] by (auto simp: in_payload_def in_header_def in_block_def)
  qed
  have "chain m' bse fs bse"
    using fo by (intro chain_move [of "hmem h" bse fs bse m' bse] conjI ld) (auto simp: free_ok_def)
  moreover have "size_of m' f" if "f \<in> set ((bse, 0) # fs) \<union> al" "size_of (hmem h) f" for f
    using that ld [of f "fst f + 8"] by (simp add: size_of_def del: of_nat_add)
  ultimately have "heap_ok brk bse (h\<lparr>hmem := m'\<rparr>) fs al"
    using ok by (auto simp: heap_ok_def free_ok_def used_ok_def)
  then show ?thesis unfolding malloc_ready_def by blast
qed

text \<open>
  C37. \<open>malloc\<close> always returns: the walk round the circle of free blocks ends. For requests of less than
  2 GiB it returns \<open>NULL\<close> when the kernel gives no more memory, and otherwise a block that overlaps no
  block in use and holds at least the bytes asked for; every byte of the blocks in use is kept, and the
  allocator is ready for the next call.
\<close>

theorem user_malloc_correct:
  fixes h :: "'w heap"
  assumes "moves_break brk sbrk" and "malloc_ready brk bse h al" and "unat nbytes < 2 ^ 31 - 2 ^ 16"
  shows "\<exists>r h'. user_malloc (W bse) sbrk nbytes h = Some (r, h') \<and>
    (r = 0 \<and> malloc_ready brk bse h' al \<or>
     (\<exists>a s. r = W (a + 16) \<and> malloc_ready brk bse h' (insert (a, s) al) \<and> (a, s) \<notin> al \<and> (\<forall>b\<in>al. disjoint (a, s) b) \<and> unat nbytes \<le> 16 * (s - 1))) \<and>
    (\<forall>b\<in>al. \<forall>x. in_block b x \<longrightarrow> hmem h' x = hmem h x)"
proof -
  obtain n where n: "malloc_units nbytes = W n" "1 \<le> n" "16 * max 4096 n < 2 ^ 31" "unat nbytes \<le> 16 * (n - 1)"
    by (rule malloc_units_nat [OF assms(3)])
  define h1 where "h1 = (if freep h = 0 then h\<lparr>hmem := store64 (store64 (hmem h) (W bse) (W bse)) (W bse + 8) 0, freep := W bse\<rparr> else h)"
  have run: "user_malloc (W bse) sbrk nbytes h = malloc_loop sbrk (W n) (freep h1) (load64 (hmem h1) (freep h1)) h1"
    by (simp add: user_malloc_def n(1) h1_def Let_def)
  have "\<exists>fs. heap_ok brk bse h1 fs al \<and> (al \<noteq> {} \<longrightarrow> h1 = h)"
    using assms(2) malloc_starts [of h bse brk] heap_ok_freep [of brk bse h] unfolding malloc_ready_def h1_def by auto
  then obtain fs where ok: "heap_ok brk bse h1 fs al" and same: "al \<noteq> {} \<Longrightarrow> h1 = h" by blast
  obtain r h' where r: "malloc_loop sbrk (W n) (freep h1) (load64 (hmem h1) (freep h1)) h1 = Some (r, h')"
    "r = 0 \<and> h' = h1 \<or> (\<exists>a fs'. r = W (a + 16) \<and> heap_ok brk bse h' fs' (insert (a, n) al) \<and> (a, n) \<notin> al)"
    and keep: "\<forall>b\<in>al. \<forall>x. in_block b x \<longrightarrow> hmem h' x = hmem h1 x"
    using malloc_loop_ok [OF assms(1) ok n(2,3)] by blast
  have "disjoint (a, n) b" if "heap_ok brk bse h' fs' (insert (a, n) al)" "(a, n) \<notin> al" "b \<in> al" for a fs' b
    using that by (auto simp: heap_ok_def used_ok_def)
  then show ?thesis using run r ok n(4) keep same unfolding malloc_ready_def by fastforce
qed

text \<open>A kernel that gives memory up to an address; the process keeps its break.\<close>

definition bounded_sbrk :: "u64 \<Rightarrow> nat heap \<Rightarrow> u64 \<times> nat heap" where
  "bounded_sbrk n h = (if world h + unat n < 0x800000 then (W (world h), h\<lparr>world := world h + unat n\<rparr>) else (-1, h))"

lemma bounded_sbrk_moves: "moves_break (\<lambda>w. w) bounded_sbrk"
  by (auto simp: moves_break_def bounded_sbrk_def split: if_splits)

definition fresh_heap :: "nat heap" where
  "fresh_heap = \<lparr>hmem = (\<lambda>_. 0), freep = 0, world = 0x2000\<rparr>"

theorem user_malloc_correct_witness:
  "\<exists>r h'. user_malloc (W 0x1000) bounded_sbrk 100 fresh_heap = Some (r, h') \<and>
     (r = 0 \<and> malloc_ready (\<lambda>w. w) 0x1000 h' {} \<or>
      (\<exists>a s. r = W (a + 16) \<and> malloc_ready (\<lambda>w. w) 0x1000 h' {(a, s)} \<and> 100 \<le> 16 * (s - 1)))"
proof -
  have "malloc_ready (\<lambda>w. w) 0x1000 fresh_heap {}" by (simp add: malloc_ready_def fresh_heap_def)
  from user_malloc_correct [OF bounded_sbrk_moves this, of 100] show ?thesis by simp
qed


text \<open>A heap with one block of two units in use and nothing free.\<close>

definition used_heap :: "nat heap" where
  "used_heap = \<lparr>hmem = store64 (store64 (\<lambda>_. 0) 0x1000 0x1000) 0x2008 2, freep = 0x1000, world = 0x2020\<rparr>"


end
