(* ===== verification/Spec2Isabelle.thy ===== *)
theory Spec2Isabelle
  imports Vmm_Tables Scheduling Boot User_Malloc
begin

text \<open>
  A verification development for the CrowOS kernel.
\<close>

end
